(* ===== verification/Go_Prelude.thy ===== *)
theory Go_Prelude
  imports Main "HOL-Library.Word" "HOL-Library.List_Lexorder"
begin

text \<open>
  Shared vocabulary of the development: the Go types the program uses (bytes, 64-bit unsigned
  integers, byte slices), the parts of Go's standard library the program calls on them
  (\<^verbatim>\<open>bytes.Compare\<close>, \<^verbatim>\<open>binary.BigEndian\<close>), and the generic lemmas on lexicographic order and on
  unsigned words that the component theories rely on.
\<close>

unbundle bit_operations_syntax

type_synonym byte = "8 word"
type_synonym u64 = "64 word"
type_synonym bytes = "byte list"

named_theorems codec_simps "equations of the byte codecs"

subsection \<open>Bounds of unsigned words\<close>

lemma unat_u64_bound: "unat (x::u64) < 2 ^ 64"
  using unsigned_less [of x] by simp

lemma unat_byte_bound: "unat (x::byte) < 256"
  using unsigned_less [of x] by simp

subsection \<open>Lexicographic order on byte slices\<close>

text \<open>\<^verbatim>\<open>bytes.Compare\<close> of Go's standard library: negative, zero or positive.\<close>

fun bytes_Compare :: "bytes \<Rightarrow> bytes \<Rightarrow> int" where
  "bytes_Compare [] [] = 0"
| "bytes_Compare [] (b # bs) = - 1"
| "bytes_Compare (a # as) [] = 1"
| "bytes_Compare (a # as) (b # bs) =
     (if a < b then - 1 else if b < a then 1 else bytes_Compare as bs)"

lemma bytes_Compare_less [simp]: "bytes_Compare a b < 0 \<longleftrightarrow> a < b"
  by (induction a b rule: bytes_Compare.induct) auto

lemma bytes_Compare_eq [simp]: "bytes_Compare a b = 0 \<longleftrightarrow> a = b"
  by (induction a b rule: bytes_Compare.induct) auto

lemma lex_append_same [simp]:
  fixes xs :: "'a::linorder list"
  shows "xs @ s < xs @ t \<longleftrightarrow> s < t"
  by (induction xs) auto

lemma lex_append_less:
  fixes xs ys :: "'a::linorder list"
  shows "length xs = length ys \<Longrightarrow> xs < ys \<Longrightarrow> xs @ s < ys @ t"
  by (induction xs ys rule: list_induct2) auto

lemma lex_append_eq_length:
  fixes xs ys :: "'a::linorder list"
  assumes "length xs = length ys"
  shows "xs @ s < ys @ t \<longleftrightarrow> xs < ys \<or> xs = ys \<and> s < t"
  using assms by (induction xs ys rule: list_induct2) auto

subsection \<open>Big-endian integers\<close>

text \<open>\<^verbatim>\<open>binary.BigEndian.PutUint64\<close> into a fresh eight byte slice.\<close>

definition PutUint64 :: "u64 \<Rightarrow> bytes" where
  "PutUint64 v =
     [ucast (drop_bit 56 v), ucast (drop_bit 48 v), ucast (drop_bit 40 v), ucast (drop_bit 32 v),
      ucast (drop_bit 24 v), ucast (drop_bit 16 v), ucast (drop_bit 8 v), ucast v]"

text \<open>
  \<^verbatim>\<open>binary.BigEndian.Uint64\<close> reads the first eight bytes of a slice and panics on a shorter one.
\<close>

fun Uint64 :: "bytes \<Rightarrow> u64 option" where
  "Uint64 (a # b # c # d # e # f # g # h # rest) =
     Some (push_bit 56 (ucast a) OR push_bit 48 (ucast b) OR push_bit 40 (ucast c) OR
           push_bit 32 (ucast d) OR push_bit 24 (ucast e) OR push_bit 16 (ucast f) OR
           push_bit 8 (ucast g) OR ucast h)"
| "Uint64 _ = None"

lemma length_PutUint64 [simp]: "length (PutUint64 v) = 8"
  by (simp add: PutUint64_def)

lemma or_byte_step:
  fixes v :: u64
  assumes "k + 8 \<le> 64"
  shows "push_bit (k + 8) (drop_bit (k + 8) v) OR (push_bit k (ucast (ucast (drop_bit k v) :: byte)) OR w)
    = push_bit k (drop_bit k v) OR w"
proof -
  have "push_bit (k + 8) (drop_bit (k + 8) v) OR push_bit k (ucast (ucast (drop_bit k v) :: byte))
      = push_bit k (drop_bit k v)" (is "?l = ?r")
  proof (rule bit_word_eqI)
    fix n
    assume "n < LENGTH(64)"
    then show "bit ?l n = bit ?r n"
      using assms by (cases "n < k + 8") (auto simp add: bit_simps)
  qed
  then show ?thesis by (simp add: or.assoc [symmetric])
qed

lemma or_byte_top:
  fixes v :: u64
  shows "push_bit 56 (ucast (ucast (drop_bit 56 v) :: byte)) = push_bit 56 (drop_bit 56 v)"
  by (intro bit_word_eqI) (auto simp add: bit_simps)

lemma Uint64_PutUint64 [simp]: "Uint64 (PutUint64 v @ rest) = Some v"
  unfolding PutUint64_def
  using or_byte_step [of 48 v] or_byte_step [of 40 v] or_byte_step [of 32 v] or_byte_step [of 24 v]
    or_byte_step [of 16 v] or_byte_step [of 8 v] or_byte_step [of 0 v 0]
  by (simp add: or_byte_top)

lemma Uint64_PutUint64_exact [simp]: "Uint64 (PutUint64 v) = Some v"
  using Uint64_PutUint64 [of v "[]"] by simp

lemma PutUint64_inject [simp]: "PutUint64 v = PutUint64 w \<longleftrightarrow> v = w"
  by (metis Uint64_PutUint64_exact option.inject)

lemma Uint64_Some: "8 \<le> length b \<Longrightarrow> \<exists>v. Uint64 b = Some v"
  by (cases b rule: Uint64.cases) auto

subsection \<open>The byte order of big-endian integers\<close>

definition be_nat :: "bytes \<Rightarrow> nat" where
  "be_nat xs = foldl (\<lambda>n b. n * 256 + unat b) 0 xs"

lemma be_nat_Nil [simp]: "be_nat [] = 0"
  by (simp add: be_nat_def)

lemma foldl_be_nat:
  "foldl (\<lambda>n b. n * 256 + unat b) c xs = c * 256 ^ length xs + be_nat xs"
proof (induction xs arbitrary: c)
  case (Cons a xs)
  show ?case
    using Cons [of "c * 256 + unat a"] Cons [of "unat a"] by (simp add: be_nat_def algebra_simps)
qed simp

lemma be_nat_Cons [simp]: "be_nat (x # xs) = unat x * 256 ^ length xs + be_nat xs"
  using foldl_be_nat [of "unat x" xs] by (simp add: be_nat_def)

lemma be_nat_bound: "be_nat xs < 256 ^ length xs"
proof (induction xs)
  case (Cons a xs)
  have "unat a \<le> 255" using unat_byte_bound [of a] by simp
  then have "unat a * 256 ^ length xs \<le> 255 * 256 ^ length xs" by (rule mult_right_mono) simp
  then have "unat a * 256 ^ length xs + be_nat xs < 255 * 256 ^ length xs + 256 ^ length xs"
    using Cons by (rule add_le_less_mono)
  then show ?case by simp
qed simp

lemma be_nat_less: "length xs = length ys \<Longrightarrow> be_nat xs < be_nat ys \<longleftrightarrow> xs < ys"
proof (induction xs ys rule: list_induct2)
  case (Cons x xs y ys)
  consider "unat x < unat y" | "unat y < unat x" | "x = y" by (metis nat_neq_iff unsigned_word_eqI)
  then show ?case
  proof cases
    case 1
    then have "Suc (unat x) * 256 ^ length xs \<le> unat y * 256 ^ length xs"
      by (intro mult_right_mono) auto
    with 1 Cons be_nat_bound [of xs] show ?thesis by (simp add: word_less_nat_alt)
  next
    case 2
    then have "Suc (unat y) * 256 ^ length xs \<le> unat x * 256 ^ length xs"
      by (intro mult_right_mono) auto
    with 2 Cons be_nat_bound [of ys] show ?thesis by (auto simp add: word_less_nat_alt)
  next
    case 3
    then show ?thesis using Cons by simp
  qed
qed simp

lemma unat_byte_of: "unat (ucast (drop_bit k (v::u64)) :: byte) = unat v div 2 ^ k mod 256"
proof -
  have "unat (drop_bit k v) = unat v div 2 ^ k"
    using unat_u64_bound [of v]
    by (simp only: unsigned_drop_bit_eq) (simp add: drop_bit_eq_div take_bit_eq_mod)
  then show ?thesis by (simp add: unsigned_ucast_eq take_bit_eq_mod)
qed

lemma base256_digits:
  fixes n :: nat
  assumes "n < 2 ^ 64"
  shows "(((((((n div 2^56 mod 256) * 256 + n div 2^48 mod 256) * 256 + n div 2^40 mod 256) * 256
    + n div 2^32 mod 256) * 256 + n div 2^24 mod 256) * 256 + n div 2^16 mod 256) * 256
    + n div 2^8 mod 256) * 256 + n mod 256 = n"
proof -
  have step: "n div 2 ^ (k + 8) * 256 + n div 2 ^ k mod 256 = n div 2 ^ k" for k
  proof -
    have "n div 2 ^ (k + 8) = n div 2 ^ k div 256" by (simp add: power_add div_mult2_eq)
    then show ?thesis by simp
  qed
  have top: "n div 2^56 mod 256 = n div 2^56"
    using assms by (simp add: less_mult_imp_div_less)
  show ?thesis
    unfolding top
    using step [of 48] step [of 40] step [of 32] step [of 24] step [of 16] step [of 8] step [of 0]
    by simp
qed

lemma be_nat_PutUint64: "be_nat (PutUint64 v) = unat v"
proof -
  have "unat (ucast v :: byte) = unat v mod 256"
    using unat_byte_of [of 0 v] by simp
  then show ?thesis
    using base256_digits [of "unat v"] unat_u64_bound [of v]
    unfolding be_nat_def PutUint64_def by (simp add: unat_byte_of)
qed

lemma PutUint64_less [simp]: "PutUint64 v < PutUint64 w \<longleftrightarrow> v < w"
  using be_nat_less [of "PutUint64 v" "PutUint64 w"]
  by (simp add: be_nat_PutUint64 word_less_nat_alt)

subsection \<open>Unsigned 64-bit words\<close>

lemma unat_not_u64: "unat (NOT (x::u64)) = 2 ^ 64 - 1 - unat x"
proof -
  have "NOT x = - 1 - x" by (simp add: not_eq_complement)
  moreover have "unat (- 1 - x) = unat (- 1 :: u64) - unat x" by (rule unat_sub) simp
  moreover have "unat (- 1 :: u64) = 2 ^ 64 - 1"
    by (simp add: unsigned_minus_1_eq_mask mask_eq_exp_minus_1)
  ultimately show ?thesis by simp
qed

lemma not_less_u64 [simp]: "NOT (x::u64) < NOT y \<longleftrightarrow> y < x"
  using unat_u64_bound [of x] unat_u64_bound [of y] by (simp add: word_less_nat_alt unat_not_u64) linarith

lemma not_eq_u64 [simp]: "NOT (x::u64) = NOT y \<longleftrightarrow> x = y"
  by (metis bit.double_compl)

lemma unat_pred: "(x::u64) \<noteq> 0 \<Longrightarrow> unat (x - 1) = unat x - 1"
  by (simp add: unat_minus_one)

lemma le_pred_iff: "(y::u64) \<noteq> 0 \<Longrightarrow> x \<le> y - 1 \<longleftrightarrow> x < y"
  using unat_gt_0 [of y] by (simp add: word_le_nat_alt word_less_nat_alt unat_pred) linarith

subsection \<open>Formatting\<close>

text \<open>What \<^verbatim>\<open>fmt.Sprintf\<close> prints for \<^verbatim>\<open>%d\<close> and \<^verbatim>\<open>%v\<close> on unsigned integers and on byte slices.\<close>

fun fmt_nat :: "nat \<Rightarrow> string" where
  "fmt_nat n = (if n < 10 then [char_of (48 + n)] else fmt_nat (n div 10) @ [char_of (48 + n mod 10)])"

declare fmt_nat.simps [simp del]

fun fmt_sep :: "string list \<Rightarrow> string" where
  "fmt_sep [] = []"
| "fmt_sep [x] = x"
| "fmt_sep (x # xs) = x @ '' '' @ fmt_sep xs"

definition fmt_bytes :: "bytes \<Rightarrow> string" where
  "fmt_bytes b = ''['' @ fmt_sep (map (\<lambda>x. fmt_nat (unat x)) b) @ '']''"

subsection \<open>Narrow integers\<close>

text \<open>Conversion to a signed 32-bit integer, as Go's \<^verbatim>\<open>int32\<close> arithmetic wraps.\<close>

definition int32 :: "int \<Rightarrow> int" where
  "int32 x = sint (word_of_int x :: 32 word)"

lemma int32_id: "- (2 ^ 31) \<le> x \<Longrightarrow> x < 2 ^ 31 \<Longrightarrow> int32 x = x"
  by (simp add: int32_def signed_of_int signed_take_bit_int_eq_self)

end
