(* ===== verification/Codec.thy ===== *)
theory Codec
  imports Go_Prelude
begin

text \<open>
  The memcomparable byte codec of \<^verbatim>\<open>tinykv/kv/util/codec/codec.go\<close>.  A byte string is cut into
  groups of eight bytes, the last one padded with zeroes, and every group is followed by a marker
  byte that counts the padding.  \<open>EncodeBytes\<close> and \<open>DecodeBytes\<close> follow the loops of the source
  with their accumulators; \<open>enc_groups\<close> is the recursive reference definition.  The theory proves
  that the two agree, that decoding is the exact partial inverse of encoding, and that the
  encoding preserves and reflects the lexicographic order even when arbitrary bytes follow it.
\<close>

definition encGroupSize :: nat where
  "encGroupSize = 8"

definition encMarker :: byte where
  "encMarker = 0xFF"

definition encPad :: byte where
  "encPad = 0"

definition pads :: bytes where
  "pads = replicate encGroupSize 0"

datatype codec_error =
    InsufficientBytes nat
  | InvalidMarker bytes
  | InvalidPadding bytes

text \<open>The loop of \<^verbatim>\<open>EncodeBytes\<close>: \<open>idx\<close> is the loop variable, \<open>result\<close> the slice built so far.\<close>

function EncodeBytes_loop :: "bytes \<Rightarrow> nat \<Rightarrow> bytes \<Rightarrow> bytes" where
  "EncodeBytes_loop data idx result =
     (if idx \<le> length data
      then let remain = length data - idx in
           if remain \<ge> encGroupSize
           then EncodeBytes_loop data (idx + encGroupSize)
                  (result @ take encGroupSize (drop idx data) @ [encMarker])
           else let padCount = encGroupSize - remain in
                EncodeBytes_loop data (idx + encGroupSize)
                  (result @ drop idx data @ take padCount pads @ [encMarker - of_nat padCount])
      else result)"
  by pat_completeness auto
termination
  by (relation "measure (\<lambda>(data, idx, result). Suc (length data) - idx)")
    (auto simp: encGroupSize_def)

definition EncodeBytes :: "bytes \<Rightarrow> bytes" where
  "EncodeBytes data = EncodeBytes_loop data 0 []"

text \<open>
  The loop of \<^verbatim>\<open>DecodeBytes\<close>.  The padding count is computed on bytes, so a marker above
  \<open>encMarker\<close> cannot occur and one far below it wraps nowhere.
\<close>

function DecodeBytes_loop :: "bytes \<Rightarrow> bytes \<Rightarrow> codec_error + bytes \<times> bytes" where
  "DecodeBytes_loop b data =
     (if length b < encGroupSize + 1 then Inl (InsufficientBytes (length b))
      else let groupBytes = take (encGroupSize + 1) b;
               group = take encGroupSize groupBytes;
               marker = groupBytes ! encGroupSize;
               padCount = encMarker - marker
           in if padCount > of_nat encGroupSize then Inl (InvalidMarker groupBytes)
              else let realGroupSize = unat (of_nat encGroupSize - padCount);
                       data' = data @ take realGroupSize group;
                       b' = drop (encGroupSize + 1) b
                   in if padCount \<noteq> 0
                      then if list_ex (\<lambda>v. v \<noteq> encPad) (drop realGroupSize group)
                           then Inl (InvalidPadding groupBytes)
                           else Inr (b', data')
                      else DecodeBytes_loop b' data')"
  by pat_completeness auto
termination
  by (relation "measure (\<lambda>(b, data). length b)") (auto simp: encGroupSize_def)

definition DecodeBytes :: "bytes \<Rightarrow> codec_error + bytes \<times> bytes" where
  "DecodeBytes b = DecodeBytes_loop b []"

declare EncodeBytes_loop.simps [simp del] DecodeBytes_loop.simps [simp del]

subsection \<open>The reference encoding\<close>

function enc_groups :: "bytes \<Rightarrow> bytes" where
  "enc_groups d =
     (if 8 \<le> length d then take 8 d @ [255] @ enc_groups (drop 8 d)
      else d @ replicate (8 - length d) 0 @ [255 - of_nat (8 - length d)])"
  by pat_completeness auto
termination
  by (relation "measure length") auto

declare enc_groups.simps [simp del]

lemmas codec_consts = encGroupSize_def encMarker_def encPad_def pads_def

lemma enc_groups_long: "8 \<le> length d \<Longrightarrow> enc_groups d = take 8 d @ 255 # enc_groups (drop 8 d)"
  by (subst enc_groups.simps) simp

lemma enc_groups_short:
  "length d < 8 \<Longrightarrow> enc_groups d = d @ replicate (8 - length d) 0 @ [255 - of_nat (8 - length d)]"
  by (subst enc_groups.simps) simp

lemma EncodeBytes_loop_eq:
  "idx \<le> length data \<Longrightarrow> EncodeBytes_loop data idx result = result @ enc_groups (drop idx data)"
proof (induction data idx result rule: EncodeBytes_loop.induct)
  case (1 data idx result)
  show ?case
  proof (cases "8 \<le> length data - idx")
    case True
    with "1.IH"(1) "1.prems" show ?thesis
      by (subst EncodeBytes_loop.simps) (simp add: codec_consts enc_groups_long add.commute)
  next
    case False
    then have stop: "EncodeBytes_loop data (idx + 8) r = r" for r
      by (subst EncodeBytes_loop.simps) (use False in auto)
    have "8 - (length data - idx) \<le> 8" by simp
    with False "1.prems" show ?thesis
      by (subst EncodeBytes_loop.simps) (simp add: codec_consts enc_groups_short stop min_def)
  qed
qed

lemma EncodeBytes_eq: "EncodeBytes data = enc_groups data"
  by (simp add: EncodeBytes_def EncodeBytes_loop_eq)

subsection \<open>Round trip\<close>

lemma DecodeBytes_loop_marker:
  assumes "length g = 8"
  shows "DecodeBytes_loop (g @ m # rest) data =
    (if 255 - m > 8 then Inl (InvalidMarker (g @ [m]))
     else if 255 - m = 0 then DecodeBytes_loop rest (data @ take (unat (8 - (255 - m))) g)
     else if list_ex (\<lambda>v. v \<noteq> 0) (drop (unat (8 - (255 - m))) g) then Inl (InvalidPadding (g @ [m]))
     else Inr (rest, data @ take (unat (8 - (255 - m))) g))"
proof -
  have cut: "take (8 + 1) (g @ m # rest) = g @ [m]" "drop (8 + 1) (g @ m # rest) = rest"
    "(g @ [m]) ! 8 = m" "take 8 (g @ [m]) = g" "\<not> length (g @ m # rest) < 8 + 1"
    using assms by (simp_all add: nth_append)
  show ?thesis
    by (subst DecodeBytes_loop.simps, unfold codec_consts Let_def cut of_nat_numeral)
      (use cut(5) in simp)
qed

lemma DecodeBytes_loop_group:
  assumes "length g = 8" "p \<le> 8"
  shows "DecodeBytes_loop (g @ (255 - of_nat p) # rest) data =
    (if p = 0 then DecodeBytes_loop rest (data @ g)
     else if list_ex (\<lambda>v. v \<noteq> 0) (drop (8 - p) g) then Inl (InvalidPadding (g @ [255 - of_nat p]))
     else Inr (rest, data @ take (8 - p) g))"
proof -
  have pad: "255 - (255 - of_nat p :: byte) = of_nat p" by simp
  have small: "unat (of_nat p :: byte) = p" using assms(2) by (simp only: unat_of_nat) simp
  have le: "\<not> (of_nat p :: byte) > 8" using assms(2) by (simp only: word_less_nat_alt small) simp
  have z: "(of_nat p :: byte) = 0 \<longleftrightarrow> p = 0" by (simp only: word_unat_eq_iff small) simp
  have real: "unat (8 - of_nat p :: byte) = 8 - p"
    using assms(2) by (subst unat_sub) (simp_all only: word_le_nat_alt small, simp_all)
  show ?thesis
    unfolding DecodeBytes_loop_marker [OF assms(1)] pad real z using assms(1) le by simp
qed

lemma DecodeBytes_loop_enc_groups:
  "DecodeBytes_loop (enc_groups d @ rest) data = Inr (rest, data @ d)"
proof (induction d arbitrary: data rule: enc_groups.induct)
  case (1 d)
  show ?case
  proof (cases "8 \<le> length d")
    case True
    with DecodeBytes_loop_group [of "take 8 d" 0 "enc_groups (drop 8 d) @ rest" data] "1.IH"
    show ?thesis by (simp add: enc_groups_long)
  next
    case False
    with DecodeBytes_loop_group [of "d @ replicate (8 - length d) 0" "8 - length d" rest data]
    show ?thesis by (simp add: enc_groups_short list_ex_iff)
  qed
qed

lemma group_split:
  assumes "9 \<le> length b"
  shows "\<exists>g m r. length g = 8 \<and> b = g @ m # r"
proof (intro exI conjI)
  show "length (take 8 b) = 8" using assms by simp
  show "b = take 8 b @ b ! 8 # drop (Suc 8) b" using assms by (intro id_take_nth_drop) simp
qed

lemma DecodeBytes_loop_sound:
  "DecodeBytes_loop b data = Inr (rest, out) \<Longrightarrow> \<exists>d. out = data @ d \<and> b = enc_groups d @ rest"
proof (induction "length b" arbitrary: b data rule: less_induct)
  case less
  then have "9 \<le> length b"
    by (subst (asm) DecodeBytes_loop.simps) (auto simp: encGroupSize_def split: if_splits)
  then obtain g m r where g: "length g = 8" "b = g @ m # r" using group_split by blast
  define p where "p = unat (255 - m)"
  have m: "m = 255 - of_nat p" by (simp add: p_def)
  have p8: "p \<le> 8"
  proof (rule ccontr)
    assume "\<not> p \<le> 8"
    then have "255 - m > 8" by (simp add: p_def word_less_nat_alt)
    with less.prems g show False
      by (subst (asm) DecodeBytes_loop.simps) (simp add: codec_consts nth_append)
  qed
  note eq = DecodeBytes_loop_group [OF g(1) p8, of r data, folded m]
  show ?case
  proof (cases "p = 0")
    case True
    with less.prems g eq have "DecodeBytes_loop r (data @ g) = Inr (rest, out)" by simp
    with less.hyps [of r "data @ g"] g obtain d where "out = data @ g @ d" "r = enc_groups d @ rest"
      by auto
    with g m True show ?thesis by (intro exI [of _ "g @ d"]) (simp add: enc_groups_long)
  next
    case False
    with less.prems g eq have z: "\<forall>v\<in>set (drop (8 - p) g). v = 0"
      and r: "rest = r" "out = data @ take (8 - p) g"
      by (auto simp: list_ex_iff split: if_splits)
    have "drop (8 - p) g = replicate p 0"
      using z g p8 by (intro replicate_eqI) auto
    then have "g = take (8 - p) g @ replicate p 0" by (metis append_take_drop_id)
    with g m r p8 False show ?thesis
      by (intro exI [of _ "take (8 - p) g"]) (simp add: enc_groups_short)
  qed
qed

subsection \<open>Order preservation\<close>

text \<open>Padding with the least byte is monotone, and two lists it identifies differ in length.\<close>

lemma replicate_0_least:
  fixes zs :: bytes
  shows "length zs = k \<Longrightarrow> replicate k 0 < zs \<or> replicate k 0 = zs"
  by (induction zs arbitrary: k) (auto simp: word_neq_0_conv)

definition pad8 :: "bytes \<Rightarrow> bytes" where
  "pad8 d = d @ replicate (8 - length d) 0"

definition mark8 :: "bytes \<Rightarrow> byte" where
  "mark8 d = 255 - of_nat (8 - length d)"

lemma length_pad8 [simp]: "length d \<le> 8 \<Longrightarrow> length (pad8 d) = 8"
  by (simp add: pad8_def)

lemma pad8_full [simp]: "length d = 8 \<Longrightarrow> pad8 d = d"
  by (simp add: pad8_def)

lemma enc_groups_pad8: "length d < 8 \<Longrightarrow> enc_groups d = pad8 d @ [mark8 d]"
  by (simp only: enc_groups_short pad8_def mark8_def append.assoc)

lemma mark8_less_iff:
  assumes "length a \<le> 8" "length b \<le> 8"
  shows "mark8 a < mark8 b \<longleftrightarrow> length a < length b"
proof -
  have "unat (mark8 d) = 247 + length d" if "length d \<le> 8" for d
  proof -
    have "unat (of_nat (8 - length d) :: byte) = 8 - length d"
      using that by (simp only: unat_of_nat) simp
    then show ?thesis
      using that unfolding mark8_def by (subst unat_sub) (simp_all only: word_le_nat_alt, simp_all)
  qed
  with assms show ?thesis by (simp add: word_less_nat_alt)
qed

lemma pad_mono:
  fixes a b :: bytes
  assumes "a < b" "length a \<le> n" "length b \<le> n"
  shows "a @ replicate (n - length a) 0 < b @ replicate (n - length b) 0 \<or>
    a @ replicate (n - length a) 0 = b @ replicate (n - length b) 0 \<and> length a < length b"
  using assms
proof (induction a arbitrary: b n)
  case Nil
  then have "b \<noteq> []" by auto
  with Nil replicate_0_least [of "b @ replicate (n - length b) 0" n] show ?case by auto
next
  case (Cons x xs)
  then obtain y ys m where b: "b = y # ys" and n: "n = Suc m" by (cases b; cases n) auto
  with Cons show ?case by (cases "x = y") auto
qed

lemma pad8_mono:
  assumes "a < b" "length a \<le> 8" "length b \<le> 8"
  shows "pad8 a < pad8 b \<or> pad8 a = pad8 b \<and> length a < length b"
  unfolding pad8_def using assms by (rule pad_mono)

lemma take_less_left:
  fixes a b :: bytes
  shows "a < b \<Longrightarrow> take n a < b"
proof (induction a arbitrary: b n)
  case (Cons x xs)
  then show ?case by (cases b; cases n) auto
qed simp

lemma take_less_right:
  fixes a b :: bytes
  shows "a < b \<Longrightarrow> length a < n \<Longrightarrow> a < take n b"
proof (induction a arbitrary: b n)
  case Nil
  then show ?case by (cases b; cases n) auto
next
  case (Cons x xs)
  then show ?case by (cases b; cases n) auto
qed

lemma enc_groups_mono: "a < b \<Longrightarrow> enc_groups a @ s < enc_groups b @ t"
proof (induction a arbitrary: b rule: enc_groups.induct)
  case (1 a)
  consider (ll) "8 \<le> length a" "8 \<le> length b" | (ls) "8 \<le> length a" "length b < 8"
    | (sl) "length a < 8" "8 \<le> length b" | (ss) "length a < 8" "length b < 8"
    by linarith
  then show ?case
  proof cases
    case ll
    have "take 8 a @ drop 8 a < take 8 b @ drop 8 b" using "1.prems" by simp
    with ll have "take 8 a < take 8 b \<or> take 8 a = take 8 b \<and> drop 8 a < drop 8 b"
      by (subst (asm) lex_append_eq_length) simp_all
    with ll "1.IH" show ?thesis by (auto simp: enc_groups_long lex_append_eq_length)
  next
    case ls
    with pad8_mono [OF take_less_left [OF "1.prems", of 8]] have "take 8 a < pad8 b" by simp
    with ls show ?thesis by (simp add: enc_groups_long enc_groups_pad8 lex_append_less)
  next
    case sl
    with pad8_mono [OF take_less_right [OF "1.prems", of 8]]
    have "pad8 a < take 8 b \<or> pad8 a = take 8 b" by auto
    moreover have "mark8 a < 255"
      using sl mark8_less_iff [of a "take 8 b"] by (simp add: mark8_def)
    ultimately show ?thesis
      using sl by (simp add: enc_groups_long enc_groups_pad8 lex_append_eq_length)
  next
    case ss
    with pad8_mono [OF "1.prems"] mark8_less_iff [of a b] show ?thesis
      by (auto simp: enc_groups_pad8 lex_append_eq_length)
  qed
qed

lemma EncodeBytes_inject [simp]: "EncodeBytes a = EncodeBytes b \<longleftrightarrow> a = b"
  unfolding EncodeBytes_eq by (metis DecodeBytes_loop_enc_groups append_Nil prod.inject sum.inject(2))

lemma EncodeBytes_less_append:
  "EncodeBytes a @ s < EncodeBytes b @ t \<longleftrightarrow> a < b \<or> a = b \<and> s < t"
proof (cases a b rule: linorder_cases)
  case less
  with enc_groups_mono [OF less, of s t] show ?thesis by (simp add: EncodeBytes_eq)
next
  case greater
  with enc_groups_mono [OF greater, of t s] show ?thesis
    by (simp add: EncodeBytes_eq) (metis less_asym)
qed simp

lemma DecodeBytes_EncodeBytes [simp]: "DecodeBytes (EncodeBytes d @ rest) = Inr (rest, d)"
  by (simp add: DecodeBytes_def EncodeBytes_eq DecodeBytes_loop_enc_groups)

lemma DecodeBytes_InrD: "DecodeBytes b = Inr (rest, d) \<Longrightarrow> b = EncodeBytes d @ rest"
  using DecodeBytes_loop_sound [of b "[]" rest d] by (auto simp: DecodeBytes_def EncodeBytes_eq)

subsection \<open>The promises of the codec\<close>

text \<open>
  C16. Decoding is the exact partial inverse of encoding: \<open>DecodeBytes\<close> succeeds on \<open>b\<close> with
  leftover \<open>rest\<close> and value \<open>d\<close> if and only if \<open>b\<close> is the encoding of \<open>d\<close> followed by \<open>rest\<close>.
  In particular every encoded value is recovered whatever follows it, and no other bytes are
  accepted.
\<close>
theorem DecodeBytes_exact_inverse:
  "DecodeBytes b = Inr (rest, d) \<longleftrightarrow> b = EncodeBytes d @ rest"
  using DecodeBytes_InrD by auto

text \<open>
  C17. The encoding is memcomparable: encoded strings, followed by arbitrary further bytes, compare
  as the strings themselves do, and the further bytes matter only when the strings are equal.
\<close>
theorem EncodeBytes_memcomparable:
  "bytes_Compare (EncodeBytes a @ s) (EncodeBytes b @ t) < 0 \<longleftrightarrow>
     bytes_Compare a b < 0 \<or> a = b \<and> bytes_Compare s t < 0"
  by (simp add: EncodeBytes_less_append)

end
