(* ===== verification/Go_Slices.thy ===== *)
theory Go_Slices
  imports Go_Prelude "HOL-Library.Monad_Syntax" "HOL-Library.AList"
begin

text \<open>
  Go's slice and map expressions on lists and association lists, as the Raft and scheduler theories
  use them.  An expression that panics is \<^const>\<open>None\<close>, so code that may panic lives in the option monad.  A
  slice expression \<^verbatim>\<open>xs[lo:hi]\<close> is bounded here by the length of \<open>xs\<close>: Go bounds \<^verbatim>\<open>hi\<close> by the capacity,
  which no part of the modelled code relies on.
\<close>

subsection \<open>Slices\<close>

definition index_at :: "'a list \<Rightarrow> u64 \<Rightarrow> 'a option" where
  "index_at xs i = (if unat i < length xs then Some (xs ! unat i) else None)"

definition slice_from :: "'a list \<Rightarrow> u64 \<Rightarrow> 'a list option" where
  "slice_from xs lo = (if unat lo \<le> length xs then Some (drop (unat lo) xs) else None)"

definition slice_to :: "'a list \<Rightarrow> u64 \<Rightarrow> 'a list option" where
  "slice_to xs hi = (if unat hi \<le> length xs then Some (take (unat hi) xs) else None)"

definition slice_range :: "'a list \<Rightarrow> u64 \<Rightarrow> u64 \<Rightarrow> 'a list option" where
  "slice_range xs lo hi =
     (if lo \<le> hi \<and> unat hi \<le> length xs then Some (take (unat hi - unat lo) (drop (unat lo) xs)) else None)"

definition ulen :: "'a list \<Rightarrow> u64" where
  "ulen xs = of_nat (length xs)"

lemma index_at_Some [simp]: "index_at xs i = Some x \<longleftrightarrow> unat i < length xs \<and> x = xs ! unat i"
  by (auto simp: index_at_def)

lemma index_at_0 [simp]: "index_at (x # xs) 0 = Some x"
  by (simp add: index_at_def)

lemma slice_from_Some [simp]: "slice_from xs lo = Some ys \<longleftrightarrow> unat lo \<le> length xs \<and> ys = drop (unat lo) xs"
  by (auto simp: slice_from_def)

lemma slice_to_Some [simp]: "slice_to xs hi = Some ys \<longleftrightarrow> unat hi \<le> length xs \<and> ys = take (unat hi) xs"
  by (auto simp: slice_to_def)

lemma slice_range_Some [simp]:
  "slice_range xs lo hi = Some ys \<longleftrightarrow>
     lo \<le> hi \<and> unat hi \<le> length xs \<and> ys = take (unat hi - unat lo) (drop (unat lo) xs)"
  by (auto simp: slice_range_def)

lemma ulen_Nil [simp]: "ulen [] = 0"
  by (simp add: ulen_def)

lemma unat_ulen [simp]: "length xs < 2 ^ 64 \<Longrightarrow> unat (ulen xs) = length xs"
  by (simp add: ulen_def unat_of_nat)

subsection \<open>Unsigned arithmetic without wrap-around\<close>

lemma unat_add_u64: "unat (x::u64) + unat y < 2 ^ 64 \<Longrightarrow> unat (x + y) = unat x + unat y"
  using unat_add_lem [of x y] by simp

lemma unat_Suc_u64: "unat (x::u64) + 1 < 2 ^ 64 \<Longrightarrow> unat (x + 1) = unat x + 1"
  using unat_add_u64 [of x 1] by simp

lemma unat_max_u64: "unat (- 1 :: u64) = 2 ^ 64 - 1"
  by (simp add: unsigned_minus_1_eq_mask mask_eq_exp_minus_1)

lemma no_wrap_u64: "(x::u64) \<noteq> - 1 \<Longrightarrow> unat x + 1 < 2 ^ 64"
proof -
  assume "x \<noteq> - 1"
  then have "unat x \<noteq> 2 ^ 64 - 1" using unat_max_u64 by (metis word_unat_eq_iff)
  with unat_u64_bound [of x] show ?thesis by linarith
qed

lemma less_Suc_u64: "(x::u64) \<noteq> - 1 \<Longrightarrow> x < x + 1"
  using no_wrap_u64 [of x] unat_Suc_u64 [of x] by (simp add: word_less_nat_alt)

lemma unat_sub_u64: "(y::u64) \<le> x \<Longrightarrow> unat (x - y) = unat x - unat y"
  by (rule unat_sub)

lemma sint_u64_small: "unat (x::u64) < 2 ^ 63 \<Longrightarrow> sint x = int (unat x)"
proof -
  assume "unat x < 2 ^ 63"
  then have u: "uint x < 2 ^ 63" by (metis of_nat_less_iff of_nat_numeral of_nat_power uint_nat)
  have "- (2 ^ 63) \<le> (0::int)" by simp
  also have "0 \<le> uint x" by (rule uint_ge_0)
  finally have "signed_take_bit 63 (uint x) = uint x" using u by (rule signed_take_bit_int_eq_self)
  moreover have "sint x = signed_take_bit 63 (uint x)" unfolding sint_uint len_bit0 by simp
  ultimately show ?thesis by (simp only: uint_nat)
qed

subsection \<open>Maps\<close>

text \<open>A Go map is an association list with distinct keys; \<^verbatim>\<open>m[k] = v\<close> and \<^verbatim>\<open>delete(m, k)\<close>.\<close>

abbreviation map_put :: "'k \<Rightarrow> 'v \<Rightarrow> ('k \<times> 'v) list \<Rightarrow> ('k \<times> 'v) list" where
  "map_put \<equiv> AList.update"

abbreviation map_remove :: "'k \<Rightarrow> ('k \<times> 'v) list \<Rightarrow> ('k \<times> 'v) list" where
  "map_remove \<equiv> AList.delete"

abbreviation map_keys :: "('k \<times> 'v) list \<Rightarrow> 'k list" where
  "map_keys m \<equiv> map fst m"

end
