(* ===== verification/Region.thy ===== *)
theory Region
  imports Go_Slices
begin

text \<open>
  Regions, their epochs and peers (\<^verbatim>\<open>metapb\<close>), the error messages of the key-value service (\<^verbatim>\<open>errorpb\<close>), the
  errors of the Raft store (\<^verbatim>\<open>kv/raftstore/util/error.go\<close>) and the checks of
  \<^verbatim>\<open>kv/raftstore/util/util.go\<close> on requests, keys, epochs and peers.  A message field that is a Go pointer
  is an option; reading through a \<^verbatim>\<open>nil\<close> pointer is a panic, the result \<^const>\<open>None\<close>.
\<close>

subsection \<open>Messages\<close>

record metapb_Peer =
  pe_Id :: u64
  pe_StoreId :: u64

record metapb_RegionEpoch =
  ep_ConfVer :: u64
  ep_Version :: u64

record metapb_Region =
  rg_Id :: u64
  rg_StartKey :: bytes
  rg_EndKey :: bytes
  rg_RegionEpoch :: "metapb_RegionEpoch option"
  rg_Peers :: "metapb_Peer list"

record NotLeader =
  nl_RegionId :: u64
  nl_Leader :: "metapb_Peer option"

record KeyNotInRegion =
  kn_Key :: bytes
  kn_RegionId :: u64
  kn_StartKey :: bytes
  kn_EndKey :: bytes

record errorpb_Error =
  er_Message :: string
  er_NotLeader :: "NotLeader option"
  er_RegionNotFound :: "u64 option"
  er_KeyNotInRegion :: "KeyNotInRegion option"
  er_EpochNotMatch :: "metapb_Region list option"
  er_StaleCommand :: bool
  er_StoreNotMatch :: "(u64 \<times> u64) option"

definition new_errorpb_Error :: errorpb_Error where
  "new_errorpb_Error =
     \<lparr>er_Message = '''', er_NotLeader = None, er_RegionNotFound = None, er_KeyNotInRegion = None,
      er_EpochNotMatch = None, er_StaleCommand = False, er_StoreNotMatch = None\<rparr>"

datatype AdminCmdType = InvalidAdmin | ChangePeer | CompactLog | TransferLeader | Split

record RaftRequestHeader =
  rh_RegionId :: u64
  rh_Peer :: "metapb_Peer option"
  rh_RegionEpoch :: "metapb_RegionEpoch option"
  rh_Term :: u64

subsection \<open>Errors of the Raft store\<close>

datatype raftstore_error =
    ErrNotLeader u64 "metapb_Peer option"
  | ErrRegionNotFound u64
  | ErrKeyNotInRegion bytes metapb_Region
  | ErrEpochNotMatch string "metapb_Region list"
  | ErrStaleCommand
  | ErrStoreNotMatch u64 u64
  | OtherError string

fun RaftstoreErrToPbError :: "raftstore_error \<Rightarrow> errorpb_Error" where
  "RaftstoreErrToPbError (ErrNotLeader rid leader) =
     new_errorpb_Error\<lparr>er_NotLeader := Some \<lparr>nl_RegionId = rid, nl_Leader = leader\<rparr>\<rparr>"
| "RaftstoreErrToPbError (ErrRegionNotFound rid) = new_errorpb_Error\<lparr>er_RegionNotFound := Some rid\<rparr>"
| "RaftstoreErrToPbError (ErrKeyNotInRegion key region) =
     new_errorpb_Error\<lparr>er_KeyNotInRegion :=
       Some \<lparr>kn_Key = key, kn_RegionId = rg_Id region, kn_StartKey = rg_StartKey region, kn_EndKey = rg_EndKey region\<rparr>\<rparr>"
| "RaftstoreErrToPbError (ErrEpochNotMatch msg regions) = new_errorpb_Error\<lparr>er_EpochNotMatch := Some regions\<rparr>"
| "RaftstoreErrToPbError ErrStaleCommand = new_errorpb_Error\<lparr>er_StaleCommand := True\<rparr>"
| "RaftstoreErrToPbError (ErrStoreNotMatch req actual) = new_errorpb_Error\<lparr>er_StoreNotMatch := Some (req, actual)\<rparr>"
| "RaftstoreErrToPbError (OtherError msg) = new_errorpb_Error\<lparr>er_Message := msg\<rparr>"

subsection \<open>Keys and regions\<close>

definition CheckKeyInRegion :: "bytes \<Rightarrow> metapb_Region \<Rightarrow> raftstore_error option" where
  "CheckKeyInRegion key region =
     (if bytes_Compare key (rg_StartKey region) \<ge> 0 \<and>
         (length (rg_EndKey region) = 0 \<or> bytes_Compare key (rg_EndKey region) < 0)
      then None else Some (ErrKeyNotInRegion key region))"

definition CheckKeyInRegionExclusive :: "bytes \<Rightarrow> metapb_Region \<Rightarrow> raftstore_error option" where
  "CheckKeyInRegionExclusive key region =
     (if bytes_Compare (rg_StartKey region) key < 0 \<and>
         (length (rg_EndKey region) = 0 \<or> bytes_Compare key (rg_EndKey region) < 0)
      then None else Some (ErrKeyNotInRegion key region))"

definition CheckKeyInRegionInclusive :: "bytes \<Rightarrow> metapb_Region \<Rightarrow> raftstore_error option" where
  "CheckKeyInRegionInclusive key region =
     (if bytes_Compare key (rg_StartKey region) \<ge> 0 \<and>
         (length (rg_EndKey region) = 0 \<or> bytes_Compare key (rg_EndKey region) \<le> 0)
      then None else Some (ErrKeyNotInRegion key region))"

lemma bytes_Compare_ge: "0 \<le> bytes_Compare a b \<longleftrightarrow> b \<le> a"
  by (metis bytes_Compare_less not_less)

definition in_region :: "metapb_Region \<Rightarrow> bytes \<Rightarrow> bool" where
  "in_region region key \<longleftrightarrow> rg_StartKey region \<le> key \<and> (rg_EndKey region = [] \<or> key < rg_EndKey region)"

lemma CheckKeyInRegion_None: "CheckKeyInRegion key region = None \<longleftrightarrow> in_region region key"
  by (auto simp: CheckKeyInRegion_def in_region_def bytes_Compare_ge)

lemma CheckKeyInRegion_Some: "\<not> in_region region key \<Longrightarrow> CheckKeyInRegion key region = Some (ErrKeyNotInRegion key region)"
  using CheckKeyInRegion_None [of key region] by (auto simp: CheckKeyInRegion_def)

subsection \<open>Epochs, terms and peers\<close>

definition IsEpochStale :: "metapb_RegionEpoch \<Rightarrow> metapb_RegionEpoch \<Rightarrow> bool" where
  "IsEpochStale epoch checkEpoch \<longleftrightarrow> ep_Version epoch < ep_Version checkEpoch \<or> ep_ConfVer epoch < ep_ConfVer checkEpoch"

text \<open>
  The request is its header and the type of its admin command, if it has one.  The text of an epoch
  in the message, printed by the generated message code, is the parameter \<open>show_epoch\<close>.
\<close>

fun epoch_checks :: "AdminCmdType option \<Rightarrow> bool \<times> bool" where
  "epoch_checks None = (True, False)"
| "epoch_checks (Some CompactLog) = (False, False)"
| "epoch_checks (Some InvalidAdmin) = (False, False)"
| "epoch_checks (Some ChangePeer) = (False, True)"
| "epoch_checks (Some Split) = (True, True)"
| "epoch_checks (Some TransferLeader) = (True, True)"

definition CheckRegionEpoch ::
  "(metapb_RegionEpoch option \<Rightarrow> string) \<Rightarrow> RaftRequestHeader option \<Rightarrow> AdminCmdType option \<Rightarrow> metapb_Region \<Rightarrow> bool \<Rightarrow>
   raftstore_error option option" where
  "CheckRegionEpoch show_epoch header admin region includeRegion =
     (let (checkVer, checkConfVer) = epoch_checks admin
      in if \<not> checkVer \<and> \<not> checkConfVer then Some None
         else case header of
           None \<Rightarrow> Some (Some (OtherError ''missing header!''))
         | Some header \<Rightarrow> (case rh_RegionEpoch header of
             None \<Rightarrow> Some (Some (OtherError ''missing epoch!''))
           | Some fromEpoch \<Rightarrow> (case rg_RegionEpoch region of
               None \<Rightarrow> None
             | Some currentEpoch \<Rightarrow>
                 Some (if (checkConfVer \<and> ep_ConfVer fromEpoch \<noteq> ep_ConfVer currentEpoch) \<or>
                          (checkVer \<and> ep_Version fromEpoch \<noteq> ep_Version currentEpoch)
                       then Some (ErrEpochNotMatch
                         (''current epoch of region '' @ fmt_nat (unat (rg_Id region)) @ '' is '' @ show_epoch (Some currentEpoch) @
                          '', but you sent '' @ show_epoch (Some fromEpoch))
                         (if includeRegion then [region] else []))
                       else None))))"

fun find_peer :: "metapb_Peer list \<Rightarrow> u64 \<Rightarrow> metapb_Peer option" where
  "find_peer [] storeID = None"
| "find_peer (peer # peers) storeID = (if pe_StoreId peer = storeID then Some peer else find_peer peers storeID)"

definition FindPeer :: "metapb_Region \<Rightarrow> u64 \<Rightarrow> metapb_Peer option" where
  "FindPeer region storeID = find_peer (rg_Peers region) storeID"

fun remove_peer :: "metapb_Peer list \<Rightarrow> u64 \<Rightarrow> metapb_Peer list" where
  "remove_peer [] storeID = []"
| "remove_peer (peer # peers) storeID = (if pe_StoreId peer = storeID then peers else peer # remove_peer peers storeID)"

definition RemovePeer :: "metapb_Region \<Rightarrow> u64 \<Rightarrow> metapb_Peer option \<times> metapb_Region" where
  "RemovePeer region storeID =
     (find_peer (rg_Peers region) storeID, region\<lparr>rg_Peers := remove_peer (rg_Peers region) storeID\<rparr>)"

definition CheckStoreID :: "RaftRequestHeader \<Rightarrow> u64 \<Rightarrow> raftstore_error option option" where
  "CheckStoreID header storeID =
     rh_Peer header \<bind> (\<lambda>peer. Some (
       if pe_StoreId peer = storeID then None
       else Some (OtherError (''store not match '' @ fmt_nat (unat (pe_StoreId peer)) @ '' '' @ fmt_nat (unat storeID)))))"

definition CheckTerm :: "RaftRequestHeader \<Rightarrow> u64 \<Rightarrow> raftstore_error option" where
  "CheckTerm header curTerm = (if rh_Term header = 0 \<or> curTerm \<le> rh_Term header + 1 then None else Some ErrStaleCommand)"

definition CheckPeerID :: "RaftRequestHeader \<Rightarrow> u64 \<Rightarrow> raftstore_error option option" where
  "CheckPeerID header peerID =
     rh_Peer header \<bind> (\<lambda>peer. Some (
       if pe_Id peer = peerID then None
       else Some (OtherError (''mismatch peer id '' @ fmt_nat (unat (pe_Id peer)) @ '' != '' @ fmt_nat (unat peerID)))))"

definition PeerEqual :: "metapb_Peer \<Rightarrow> metapb_Peer \<Rightarrow> bool" where
  "PeerEqual l r \<longleftrightarrow> pe_Id l = pe_Id r \<and> pe_StoreId l = pe_StoreId r"

definition RegionEqual :: "metapb_Region option \<Rightarrow> metapb_Region option \<Rightarrow> bool option" where
  "RegionEqual l r =
     (case (l, r) of
        (Some l, Some r) \<Rightarrow>
          (if rg_Id l = rg_Id r
           then rg_RegionEpoch l \<bind> (\<lambda>le. rg_RegionEpoch r \<bind> (\<lambda>re.
             Some (ep_Version le = ep_Version re \<and> ep_ConfVer le = ep_ConfVer re)))
           else Some False)
      | _ \<Rightarrow> Some False)"

lemma find_peer_Some: "find_peer ps s = Some p \<Longrightarrow> p \<in> set ps \<and> pe_StoreId p = s"
  by (induction ps s rule: find_peer.induct) (auto split: if_splits)

lemma find_peer_None: "find_peer ps s = None \<longleftrightarrow> (\<forall>p\<in>set ps. pe_StoreId p \<noteq> s)"
  by (induction ps s rule: find_peer.induct) auto

lemma remove_peer_distinct: "distinct (map pe_StoreId ps) \<Longrightarrow> remove_peer ps s = filter (\<lambda>p. pe_StoreId p \<noteq> s) ps"
  by (induction ps s rule: remove_peer.induct) (auto simp: image_iff intro!: filter_True [symmetric])

end
