(* ===== verification/KV_Storage.thy ===== *)
theory KV_Storage
  imports Region
begin

text \<open>
  The storage interface of TinyKV and its in-memory implementation: \<^verbatim>\<open>kv/storage/modify.go\<close>,
  \<^verbatim>\<open>kv/storage/storage.go\<close>, \<^verbatim>\<open>kv/storage/mem_storage.go\<close> and the column family names and iterator
  interface of \<^verbatim>\<open>kv/util/engine_util\<close>.

  The Go interfaces \<^verbatim>\<open>StorageReader\<close>, \<^verbatim>\<open>DBIterator\<close> and \<^verbatim>\<open>Storage\<close> are records of their methods; the
  locales \<open>storage_reader\<close> and \<open>kv_storage\<close> state what their clients rely on.  \<open>MemStorage\<close> keeps
  one left-leaning red-black tree per column family; that tree is the third-party package
  \<^verbatim>\<open>GoLLRB\<close>, so its operations are a parameter (\<open>llrb_ops\<close>) and its documented behaviour, an
  ordered set of items, is the locale \<open>llrb_tree\<close>.  The theory proves that \<open>MemStorage\<close> over any
  such tree fulfils the storage contract.
\<close>

subsection \<open>Column families and modifications\<close>

text \<open>A Go byte slice that may be \<^verbatim>\<open>nil\<close>.\<close>

type_synonym gobytes = "bytes option"

definition CfDefault :: string where
  "CfDefault = ''default''"

definition CfWrite :: string where
  "CfWrite = ''write''"

definition CfLock :: string where
  "CfLock = ''lock''"

definition CFs :: "string list" where
  "CFs = [CfDefault, CfWrite, CfLock]"

lemma cf_distinct [simp]:
  "CfDefault \<noteq> CfWrite" "CfDefault \<noteq> CfLock" "CfWrite \<noteq> CfLock"
  "CfWrite \<noteq> CfDefault" "CfLock \<noteq> CfDefault" "CfLock \<noteq> CfWrite"
  by (simp_all add: CfDefault_def CfWrite_def CfLock_def)

datatype Modify =
    Put bytes gobytes string
  | Delete bytes string

fun Modify_Key :: "Modify \<Rightarrow> bytes" where
  "Modify_Key (Put k v cf) = k"
| "Modify_Key (Delete k cf) = k"

fun Modify_Value :: "Modify \<Rightarrow> gobytes" where
  "Modify_Value (Put k v cf) = v"
| "Modify_Value (Delete k cf) = None"

fun Modify_Cf :: "Modify \<Rightarrow> string" where
  "Modify_Cf (Put k v cf) = cf"
| "Modify_Cf (Delete k cf) = cf"

subsection \<open>The interfaces\<close>

text \<open>
  The errors a storage returns: a \<^verbatim>\<open>RegionError\<close> of the Raft storage, which carries the message for the
  client, an error of the Raft store, or any other error with its text.
\<close>

datatype storage_error =
    StorageError string
  | RegionError errorpb_Error
  | RaftstoreError raftstore_error

text \<open>
  \<^verbatim>\<open>StorageReader\<close> with the \<^verbatim>\<open>DBIterator\<close> and \<^verbatim>\<open>DBItem\<close> it hands out.  The state of an iterator is a
  value of type \<open>'it\<close>; \<^verbatim>\<open>Seek\<close> and \<^verbatim>\<open>Next\<close> return the moved iterator.
\<close>

record 'it StorageReader =
  GetCF :: "string \<Rightarrow> bytes \<Rightarrow> storage_error + gobytes"
  IterCF :: "string \<Rightarrow> 'it"
  Seek :: "'it \<Rightarrow> bytes \<Rightarrow> 'it"
  Valid :: "'it \<Rightarrow> bool"
  Next :: "'it \<Rightarrow> 'it"
  ItemKey :: "'it \<Rightarrow> bytes"
  ItemValue :: "'it \<Rightarrow> storage_error + gobytes"

text \<open>The two methods of the \<^verbatim>\<open>Storage\<close> interface that the transaction layer calls.\<close>

record ('s, 'it) Storage =
  Reader :: "'s \<Rightarrow> storage_error + 'it StorageReader"
  WriteBatch :: "'s \<Rightarrow> Modify list \<Rightarrow> storage_error + 's"

subsection \<open>Ordered association lists\<close>

text \<open>
  The abstract content of a column family: an association list with strictly ascending keys.
\<close>

type_synonym cf_content = "(bytes \<times> gobytes) list"

definition ascending :: "(bytes \<times> 'a) list \<Rightarrow> bool" where
  "ascending xs \<longleftrightarrow> sorted_wrt (<) (map fst xs)"

definition seek_from :: "bytes \<Rightarrow> (bytes \<times> 'a) list \<Rightarrow> (bytes \<times> 'a) list" where
  "seek_from k xs = dropWhile (\<lambda>e. fst e < k) xs"

fun put_kv :: "bytes \<Rightarrow> 'a \<Rightarrow> (bytes \<times> 'a) list \<Rightarrow> (bytes \<times> 'a) list" where
  "put_kv k v [] = [(k, v)]"
| "put_kv k v ((k', v') # xs) =
     (if k < k' then (k, v) # (k', v') # xs
      else if k = k' then (k, v) # xs
      else (k', v') # put_kv k v xs)"

definition del_kv :: "bytes \<Rightarrow> (bytes \<times> 'a) list \<Rightarrow> (bytes \<times> 'a) list" where
  "del_kv k xs = filter (\<lambda>e. fst e \<noteq> k) xs"

lemma ascending_Nil [simp]: "ascending []"
  by (simp add: ascending_def)

lemma ascending_Cons [simp]:
  "ascending (x # xs) \<longleftrightarrow> (\<forall>e\<in>set xs. fst x < fst e) \<and> ascending xs"
  by (auto simp: ascending_def)

lemma map_of_put_kv: "map_of (put_kv k v xs) = (map_of xs)(k \<mapsto> v)" if "ascending xs"
  using that by (induction k v xs rule: put_kv.induct) (auto simp: fun_eq_iff)

lemma set_put_kv: "set (put_kv k v xs) \<subseteq> insert (k, v) (set xs)"
  by (induction k v xs rule: put_kv.induct) auto

lemma ascending_put_kv: "ascending xs \<Longrightarrow> ascending (put_kv k v xs)"
proof (induction k v xs rule: put_kv.induct)
  case (2 k v k' v' xs)
  then show ?case using set_put_kv [of k v xs] by fastforce
qed simp

lemma map_of_del_kv: "map_of (del_kv k xs) = (map_of xs)(k := None)"
  by (induction xs) (auto simp: del_kv_def fun_eq_iff)

lemma ascending_filter: "ascending xs \<Longrightarrow> ascending (filter P xs)"
  by (induction xs) auto

lemma ascending_del_kv: "ascending xs \<Longrightarrow> ascending (del_kv k xs)"
  by (simp add: del_kv_def ascending_filter)

lemma ascending_dropWhile: "ascending xs \<Longrightarrow> ascending (dropWhile P xs)"
  by (induction xs) auto

lemma ascending_seek_from: "ascending xs \<Longrightarrow> ascending (seek_from k xs)"
  by (simp add: seek_from_def ascending_dropWhile)

lemma seek_from_eq_filter: "ascending xs \<Longrightarrow> seek_from k xs = filter (\<lambda>e. k \<le> fst e) xs"
  unfolding seek_from_def
proof (induction xs)
  case (Cons x xs)
  show ?case
  proof (cases "fst x < k")
    case False
    with Cons.prems have "\<forall>e\<in>set xs. k \<le> fst e" by force
    with False show ?thesis by simp
  qed (use Cons in auto)
qed simp

lemma ascending_map_of: "ascending xs \<Longrightarrow> (k, v) \<in> set xs \<longleftrightarrow> map_of xs k = Some v"
  by (induction xs) (auto dest: map_of_SomeD)

lemma seek_from_NilD: "ascending xs \<Longrightarrow> seek_from k xs = [] \<Longrightarrow> k \<le> k' \<Longrightarrow> map_of xs k' = None"
  by (auto simp: seek_from_eq_filter filter_empty_conv map_of_eq_None_iff)

lemma seek_from_ConsD:
  assumes "ascending xs" "seek_from k xs = (k1, v1) # ys"
  shows "k \<le> k1" "map_of xs k1 = Some v1"
    "\<And>k'. k \<le> k' \<Longrightarrow> k' < k1 \<Longrightarrow> map_of xs k' = None"
    "ys = filter (\<lambda>e. k1 < fst e) xs"
proof -
  have eq: "filter (\<lambda>e. k \<le> fst e) xs = (k1, v1) # ys"
    using assms by (simp add: seek_from_eq_filter)
  then have mem: "(k1, v1) \<in> set xs" "k \<le> k1" by (auto simp: filter_eq_Cons_iff)
  then show "k \<le> k1" "map_of xs k1 = Some v1" using assms(1) by (simp_all add: ascending_map_of)
  have asc: "ascending ((k1, v1) # ys)" using ascending_filter [OF assms(1)] eq by metis
  show "map_of xs k' = None" if "k \<le> k'" "k' < k1" for k'
  proof (rule ccontr)
    assume "map_of xs k' \<noteq> None"
    then obtain v where "(k', v) \<in> set xs" by (auto dest: map_of_SomeD)
    then have "(k', v) \<in> set (filter (\<lambda>e. k \<le> fst e) xs)" using that(1) by simp
    with eq asc that(2) show False by auto
  qed
  have "filter (\<lambda>e. k1 < fst e) (filter (\<lambda>e. k \<le> fst e) xs) = ys"
    using asc by (auto simp: eq filter_id_conv)
  moreover have "filter (\<lambda>e. k1 < fst e) (filter (\<lambda>e. k \<le> fst e) xs) = filter (\<lambda>e. k1 < fst e) xs"
    using mem(2) by (auto intro!: filter_cong)
  ultimately show "ys = filter (\<lambda>e. k1 < fst e) xs" by simp
qed


lemma ascending_append:
  "ascending (xs @ ys) \<longleftrightarrow> ascending xs \<and> ascending ys \<and> (\<forall>x\<in>set xs. \<forall>y\<in>set ys. fst x < fst y)"
  by (induction xs) auto

lemma seek_from_again:
  assumes "ascending xs" "seek_from k xs = ys @ (k1, v1) # zs"
  shows "seek_from k1 xs = (k1, v1) # zs"
proof -
  have eq: "filter (\<lambda>e. k \<le> fst e) xs = ys @ (k1, v1) # zs"
    using assms by (simp add: seek_from_eq_filter)
  then have "(k1, v1) \<in> set (filter (\<lambda>e. k \<le> fst e) xs)" by simp
  then have k: "k \<le> k1" by simp
  have "ascending (ys @ (k1, v1) # zs)" using ascending_filter [OF assms(1)] eq by metis
  then have "\<forall>e\<in>set ys. \<not> k1 \<le> fst e" "\<forall>e\<in>set zs. k1 \<le> fst e"
    by (auto simp: ascending_append not_le intro: order.strict_implies_order)
  then have "filter (\<lambda>e. k1 \<le> fst e) (ys @ (k1, v1) # zs) = (k1, v1) # zs"
    by (simp add: filter_id_conv filter_empty_conv)
  moreover have "filter (\<lambda>e. k1 \<le> fst e) (filter (\<lambda>e. k \<le> fst e) xs) = filter (\<lambda>e. k1 \<le> fst e) xs"
    using k by (auto intro!: filter_cong)
  ultimately show ?thesis using assms(1) eq by (simp add: seek_from_eq_filter)
qed

lemma seek_from_present:
  assumes "ascending xs" "(k, v) \<in> set xs"
  shows "\<exists>ys. seek_from k xs = (k, v) # ys"
proof (cases "seek_from k xs")
  case Nil
  with assms show ?thesis by (auto simp: seek_from_eq_filter filter_empty_conv)
next
  case (Cons e ys)
  obtain k1 v1 where e: "e = (k1, v1)" by (cases e)
  have v: "map_of xs k = Some v" using assms by (simp add: ascending_map_of)
  have cons: "seek_from k xs = (k1, v1) # ys" using Cons e by simp
  note D = seek_from_ConsD [OF assms(1) cons]
  have "k1 = k" using D(1) D(3) [of k] v by (cases "k < k1") auto
  with D(2) v cons show ?thesis by simp
qed

subsection \<open>What a reader promises\<close>

text \<open>
  The contract of a \<^verbatim>\<open>StorageReader\<close> on a snapshot whose column family \<open>cf\<close> holds \<open>content cf\<close>:
  lookups return the stored value, an iterator walks the content in ascending key order, and
  reads do not fail.  \<open>iter_on cf\<close> says that an iterator was opened on \<open>cf\<close>, \<open>rest\<close> is what is
  left to visit, its head the current item.
\<close>

locale storage_reader =
  fixes rd :: "'it StorageReader"
    and content :: "string \<Rightarrow> cf_content"
    and iter_on :: "string \<Rightarrow> 'it \<Rightarrow> bool"
    and rest :: "'it \<Rightarrow> cf_content"
  assumes content_ascending: "ascending (content cf)"
    and get_cf: "cf \<in> set CFs \<Longrightarrow>
      GetCF rd cf k = Inr (case map_of (content cf) k of None \<Rightarrow> None | Some v \<Rightarrow> v)"
    and iter_cf: "cf \<in> set CFs \<Longrightarrow> iter_on cf (IterCF rd cf)"
    and iter_seek: "iter_on cf it \<Longrightarrow> iter_on cf (Seek rd it k)"
    and iter_next: "iter_on cf it \<Longrightarrow> rest it = e # es \<Longrightarrow> iter_on cf (Next rd it)"
    and rest_seek: "iter_on cf it \<Longrightarrow> rest (Seek rd it k) = seek_from k (content cf)"
    and rest_next: "iter_on cf it \<Longrightarrow> rest it = e # es \<Longrightarrow> rest (Next rd it) = es"
    and valid_rest: "iter_on cf it \<Longrightarrow> Valid rd it \<longleftrightarrow> rest it \<noteq> []"
    and item_rest: "iter_on cf it \<Longrightarrow> rest it = (k, v) # es \<Longrightarrow>
      ItemKey rd it = k \<and> ItemValue rd it = Inr v"
begin

lemmas iter_intros = iter_cf iter_seek

lemma item_key: "iter_on cf it \<Longrightarrow> rest it = (k, v) # es \<Longrightarrow> ItemKey rd it = k"
  using item_rest by blast

lemma item_value: "iter_on cf it \<Longrightarrow> rest it = (k, v) # es \<Longrightarrow> ItemValue rd it = Inr v"
  using item_rest by blast

lemma seek_open: "cf \<in> set CFs \<Longrightarrow> rest (Seek rd (IterCF rd cf) k) = seek_from k (content cf)"
  by (rule rest_seek) (rule iter_cf)

end

text \<open>The effect of one modification, and of a batch in order, on the contents.\<close>

fun apply_modify :: "Modify \<Rightarrow> (string \<Rightarrow> cf_content) \<Rightarrow> (string \<Rightarrow> cf_content)" where
  "apply_modify (Put k v cf) c = (if cf \<in> set CFs then c(cf := put_kv k v (c cf)) else c)"
| "apply_modify (Delete k cf) c = (if cf \<in> set CFs then c(cf := del_kv k (c cf)) else c)"

definition apply_batch :: "Modify list \<Rightarrow> (string \<Rightarrow> cf_content) \<Rightarrow> (string \<Rightarrow> cf_content)" where
  "apply_batch batch c = fold apply_modify batch c"

definition known_cfs :: "Modify list \<Rightarrow> bool" where
  "known_cfs batch \<longleftrightarrow> (\<forall>m\<in>set batch. Modify_Cf m \<in> set CFs)"

lemma known_cfs_Nil [simp]: "known_cfs []"
  by (simp add: known_cfs_def)

lemma known_cfs_append [simp]: "known_cfs (b @ b') \<longleftrightarrow> known_cfs b \<and> known_cfs b'"
  by (auto simp: known_cfs_def)

lemma known_cfs_Cons: "known_cfs (m # b) \<longleftrightarrow> Modify_Cf m \<in> set CFs \<and> known_cfs b"
  by (simp add: known_cfs_def)

lemma known_cfs_single [simp]:
  "known_cfs [Put k v CfDefault]" "known_cfs [Put k v CfWrite]" "known_cfs [Put k v CfLock]"
  "known_cfs [Delete k CfDefault]" "known_cfs [Delete k CfWrite]" "known_cfs [Delete k CfLock]"
  by (simp_all add: known_cfs_def CFs_def)

text \<open>
  The contract of a \<^verbatim>\<open>Storage\<close>: in a state \<open>s\<close> that satisfies \<open>inv\<close>, a reader is a reader of the
  contents \<open>abs s\<close>, and a write to the known column families that returns without an error has
  applied the whole batch.
\<close>

locale kv_storage =
  fixes st :: "('s, 'it) Storage"
    and inv :: "'s \<Rightarrow> bool"
    and abs :: "'s \<Rightarrow> string \<Rightarrow> cf_content"
    and iter_on :: "'s \<Rightarrow> string \<Rightarrow> 'it \<Rightarrow> bool"
    and rest :: "'s \<Rightarrow> 'it \<Rightarrow> cf_content"
  assumes reader_ok: "inv s \<Longrightarrow> \<exists>rd. Reader st s = Inr rd"
    and reader_laws: "inv s \<Longrightarrow> Reader st s = Inr rd \<Longrightarrow>
      storage_reader rd (abs s) (iter_on s) (rest s)"
    and write_inv: "inv s \<Longrightarrow> WriteBatch st s batch = Inr s' \<Longrightarrow> inv s'"
    and write_abs: "inv s \<Longrightarrow> known_cfs batch \<Longrightarrow> WriteBatch st s batch = Inr s' \<Longrightarrow> abs s' = apply_batch batch (abs s)"
begin

lemma abs_ascending: "inv s \<Longrightarrow> ascending (abs s cf)"
  using reader_ok reader_laws storage_reader.content_ascending by metis

end

subsection \<open>The in-memory storage\<close>

record memItem =
  mi_key :: bytes
  mi_value :: gobytes
  mi_fresh :: bool

definition memItem_Less :: "memItem \<Rightarrow> memItem \<Rightarrow> bool" where
  "memItem_Less it other \<longleftrightarrow> bytes_Compare (mi_key it) (mi_key other) < 0"

definition memItem_of_key :: "bytes \<Rightarrow> memItem" where
  "memItem_of_key k = \<lparr>mi_key = k, mi_value = None, mi_fresh = False\<rparr>"

text \<open>
  The operations of a \<^verbatim>\<open>GoLLRB\<close> tree the source calls.  \<open>AscendGreaterOrEqual t x\<close> lists the items
  the visitor is called with, in order, as long as it asks for more.
\<close>

record 't llrb_ops =
  llrb_New :: 't
  llrb_ReplaceOrInsert :: "'t \<Rightarrow> memItem \<Rightarrow> 't"
  llrb_Delete :: "'t \<Rightarrow> memItem \<Rightarrow> 't"
  llrb_Get :: "'t \<Rightarrow> memItem \<Rightarrow> memItem option"
  llrb_Min :: "'t \<Rightarrow> memItem option"
  llrb_Len :: "'t \<Rightarrow> nat"
  llrb_AscendGreaterOrEqual :: "'t \<Rightarrow> memItem \<Rightarrow> memItem list"

record 't MemStorage =
  ms_CfDefault :: 't
  ms_CfLock :: 't
  ms_CfWrite :: 't

definition NewMemStorage :: "'t llrb_ops \<Rightarrow> 't MemStorage" where
  "NewMemStorage L =
     \<lparr>ms_CfDefault = llrb_New L, ms_CfLock = llrb_New L, ms_CfWrite = llrb_New L\<rparr>"

fun MemStorage_Write1 :: "'t llrb_ops \<Rightarrow> Modify \<Rightarrow> 't MemStorage \<Rightarrow> 't MemStorage" where
  "MemStorage_Write1 L (Put k v cf) s =
     (let item = \<lparr>mi_key = k, mi_value = v, mi_fresh = False\<rparr> in
      if cf = CfDefault then s\<lparr>ms_CfDefault := llrb_ReplaceOrInsert L (ms_CfDefault s) item\<rparr>
      else if cf = CfLock then s\<lparr>ms_CfLock := llrb_ReplaceOrInsert L (ms_CfLock s) item\<rparr>
      else if cf = CfWrite then s\<lparr>ms_CfWrite := llrb_ReplaceOrInsert L (ms_CfWrite s) item\<rparr>
      else s)"
| "MemStorage_Write1 L (Delete k cf) s =
     (let item = memItem_of_key k in
      if cf = CfDefault then s\<lparr>ms_CfDefault := llrb_Delete L (ms_CfDefault s) item\<rparr>
      else if cf = CfLock then s\<lparr>ms_CfLock := llrb_Delete L (ms_CfLock s) item\<rparr>
      else if cf = CfWrite then s\<lparr>ms_CfWrite := llrb_Delete L (ms_CfWrite s) item\<rparr>
      else s)"

definition MemStorage_Write :: "'t llrb_ops \<Rightarrow> 't MemStorage \<Rightarrow> Modify list \<Rightarrow> storage_error + 't MemStorage" where
  "MemStorage_Write L s batch = Inr (fold (MemStorage_Write1 L) batch s)"

definition MemStorage_tree :: "'t MemStorage \<Rightarrow> string \<Rightarrow> 't option" where
  "MemStorage_tree s cf =
     (if cf = CfDefault then Some (ms_CfDefault s)
      else if cf = CfLock then Some (ms_CfLock s)
      else if cf = CfWrite then Some (ms_CfWrite s)
      else None)"

definition MemStorage_Get :: "'t llrb_ops \<Rightarrow> 't MemStorage \<Rightarrow> string \<Rightarrow> bytes \<Rightarrow> gobytes" where
  "MemStorage_Get L s cf key =
     (case MemStorage_tree s cf of
        None \<Rightarrow> None
      | Some t \<Rightarrow> (case llrb_Get L t (memItem_of_key key) of
                     None \<Rightarrow> None
                   | Some item \<Rightarrow> mi_value item))"

definition MemStorage_Set :: "'t llrb_ops \<Rightarrow> 't MemStorage \<Rightarrow> string \<Rightarrow> bytes \<Rightarrow> gobytes \<Rightarrow> 't MemStorage" where
  "MemStorage_Set L s cf key value =
     (let item = \<lparr>mi_key = key, mi_value = value, mi_fresh = True\<rparr> in
      if cf = CfDefault then s\<lparr>ms_CfDefault := llrb_ReplaceOrInsert L (ms_CfDefault s) item\<rparr>
      else if cf = CfLock then s\<lparr>ms_CfLock := llrb_ReplaceOrInsert L (ms_CfLock s) item\<rparr>
      else if cf = CfWrite then s\<lparr>ms_CfWrite := llrb_ReplaceOrInsert L (ms_CfWrite s) item\<rparr>
      else s)"

definition MemStorage_HasChanged :: "'t llrb_ops \<Rightarrow> 't MemStorage \<Rightarrow> string \<Rightarrow> bytes \<Rightarrow> bool" where
  "MemStorage_HasChanged L s cf key =
     (case MemStorage_tree s cf of
        None \<Rightarrow> True
      | Some t \<Rightarrow> (case llrb_Get L t (memItem_of_key key) of
                     None \<Rightarrow> True
                   | Some item \<Rightarrow> \<not> mi_fresh item))"

definition MemStorage_Len :: "'t llrb_ops \<Rightarrow> 't MemStorage \<Rightarrow> string \<Rightarrow> int" where
  "MemStorage_Len L s cf =
     (case MemStorage_tree s cf of None \<Rightarrow> - 1 | Some t \<Rightarrow> int (llrb_Len L t))"

text \<open>
  The reader and its iterator.  The zero item, which the source recognises by its \<^verbatim>\<open>nil\<close> key, is
  \<open>None\<close>; an iterator on an unknown column family is \<^verbatim>\<open>nil\<close> in the source and \<open>None\<close> here.
\<close>

record 't memReader =
  mr_inner :: "'t MemStorage"
  mr_iterCount :: int

record 't memIter =
  mit_data :: 't
  mit_item :: "memItem option"

definition MemStorage_Reader :: "'t MemStorage \<Rightarrow> 't memReader" where
  "MemStorage_Reader s = \<lparr>mr_inner = s, mr_iterCount = 0\<rparr>"

definition memReader_GetCF :: "'t llrb_ops \<Rightarrow> 't memReader \<Rightarrow> string \<Rightarrow> bytes \<Rightarrow> storage_error + gobytes" where
  "memReader_GetCF L mr cf key =
     (case MemStorage_tree (mr_inner mr) cf of
        None \<Rightarrow> Inl (StorageError (''mem-server: bad CF '' @ cf))
      | Some t \<Rightarrow> (case llrb_Get L t (memItem_of_key key) of
                     None \<Rightarrow> Inr None
                   | Some item \<Rightarrow> Inr (mi_value item)))"

definition memReader_IterCF :: "'t llrb_ops \<Rightarrow> 't memReader \<Rightarrow> string \<Rightarrow> 't memIter option \<times> 't memReader" where
  "memReader_IterCF L mr cf =
     (case MemStorage_tree (mr_inner mr) cf of
        None \<Rightarrow> (None, mr)
      | Some t \<Rightarrow> (Some \<lparr>mit_data = t, mit_item = llrb_Min L t\<rparr>,
                   mr\<lparr>mr_iterCount := mr_iterCount mr + 1\<rparr>))"

text \<open>\<^verbatim>\<open>Close\<close> of a reader panics while an iterator is open; \<^verbatim>\<open>Close\<close> of an iterator gives it back.\<close>

definition memReader_Close :: "'t memReader \<Rightarrow> unit option" where
  "memReader_Close mr = (if mr_iterCount mr > 0 then None else Some ())"

definition memIter_Close :: "'t memReader \<Rightarrow> 't memReader" where
  "memIter_Close mr = mr\<lparr>mr_iterCount := mr_iterCount mr - 1\<rparr>"

definition memIter_Valid :: "'t memIter \<Rightarrow> bool" where
  "memIter_Valid it \<longleftrightarrow> mit_item it \<noteq> None"

definition memIter_Next :: "'t llrb_ops \<Rightarrow> 't memIter \<Rightarrow> 't memIter" where
  "memIter_Next L it =
     (let old = (case mit_item it of None \<Rightarrow> memItem_of_key [] | Some x \<Rightarrow> x) in
      case llrb_AscendGreaterOrEqual L (mit_data it) old of
        first # second # later \<Rightarrow> it\<lparr>mit_item := Some second\<rparr>
      | _ \<Rightarrow> it\<lparr>mit_item := None\<rparr>)"

definition memIter_Seek :: "'t llrb_ops \<Rightarrow> 't memIter \<Rightarrow> bytes \<Rightarrow> 't memIter" where
  "memIter_Seek L it key =
     (case llrb_AscendGreaterOrEqual L (mit_data it) (memItem_of_key key) of
        [] \<Rightarrow> it\<lparr>mit_item := None\<rparr>
      | x # later \<Rightarrow> it\<lparr>mit_item := Some x\<rparr>)"

definition memIter_Key :: "'t memIter \<Rightarrow> bytes" where
  "memIter_Key it = (case mit_item it of None \<Rightarrow> [] | Some x \<Rightarrow> mi_key x)"

definition memIter_Value :: "'t memIter \<Rightarrow> storage_error + gobytes" where
  "memIter_Value it = Inr (case mit_item it of None \<Rightarrow> None | Some x \<Rightarrow> mi_value x)"

text \<open>\<open>memReader\<close> as a value of the \<^verbatim>\<open>StorageReader\<close> interface, and \<open>MemStorage\<close> as a \<^verbatim>\<open>Storage\<close>.\<close>

definition memReader_methods :: "'t llrb_ops \<Rightarrow> 't memReader \<Rightarrow> 't memIter option StorageReader" where
  "memReader_methods L mr =
     \<lparr>GetCF = memReader_GetCF L mr,
      IterCF = (\<lambda>cf. fst (memReader_IterCF L mr cf)),
      Seek = (\<lambda>it k. map_option (\<lambda>i. memIter_Seek L i k) it),
      Valid = (\<lambda>it. case it of None \<Rightarrow> False | Some i \<Rightarrow> memIter_Valid i),
      Next = map_option (memIter_Next L),
      ItemKey = (\<lambda>it. case it of None \<Rightarrow> [] | Some i \<Rightarrow> memIter_Key i),
      ItemValue = (\<lambda>it. case it of None \<Rightarrow> Inr None | Some i \<Rightarrow> memIter_Value i)\<rparr>"

definition MemStorage_methods :: "'t llrb_ops \<Rightarrow> ('t MemStorage, 't memIter option) Storage" where
  "MemStorage_methods L =
     \<lparr>Reader = (\<lambda>s. Inr (memReader_methods L (MemStorage_Reader s))),
      WriteBatch = MemStorage_Write L\<rparr>"

subsection \<open>The tree's contract and the storage contract\<close>

text \<open>
  The documented behaviour of the tree package: an ordered set of items without duplicates,
  ordered by their \<^verbatim>\<open>Less\<close> method, that is by key.  \<open>items t\<close> is the in-order list.
\<close>

definition kv_of :: "memItem \<Rightarrow> bytes \<times> gobytes" where
  "kv_of x = (mi_key x, mi_value x)"

fun insert_item :: "memItem \<Rightarrow> memItem list \<Rightarrow> memItem list" where
  "insert_item x [] = [x]"
| "insert_item x (y # ys) =
     (if memItem_Less x y then x # y # ys
      else if memItem_Less y x then y # insert_item x ys
      else x # ys)"

text \<open>
  The abstraction of the in-memory storage, given the in-order lists of its trees: the content of
  a column family, the iterators opened on it and what an iterator has left to visit.
\<close>

definition tree_content :: "('t \<Rightarrow> memItem list) \<Rightarrow> 't \<Rightarrow> cf_content" where
  "tree_content items t = map kv_of (items t)"

definition mem_content :: "('t \<Rightarrow> memItem list) \<Rightarrow> 't MemStorage \<Rightarrow> string \<Rightarrow> cf_content" where
  "mem_content items s cf =
     (case MemStorage_tree s cf of None \<Rightarrow> [] | Some t \<Rightarrow> tree_content items t)"

definition mem_iter_on :: "('t \<Rightarrow> memItem list) \<Rightarrow> 't MemStorage \<Rightarrow> string \<Rightarrow> 't memIter option \<Rightarrow> bool" where
  "mem_iter_on items s cf it \<longleftrightarrow>
     (\<exists>i. it = Some i \<and> MemStorage_tree s cf = Some (mit_data i) \<and>
        (\<forall>x. mit_item i = Some x \<longrightarrow> x \<in> set (items (mit_data i))))"

definition mem_rest :: "('t \<Rightarrow> memItem list) \<Rightarrow> 't memIter option \<Rightarrow> cf_content" where
  "mem_rest items it = (case it of None \<Rightarrow> [] | Some i \<Rightarrow>
     (case mit_item i of
        None \<Rightarrow> []
      | Some x \<Rightarrow> seek_from (mi_key x) (tree_content items (mit_data i))))"

definition mem_wf :: "('t \<Rightarrow> bool) \<Rightarrow> 't MemStorage \<Rightarrow> bool" where
  "mem_wf tree_ok s \<longleftrightarrow> tree_ok (ms_CfDefault s) \<and> tree_ok (ms_CfLock s) \<and> tree_ok (ms_CfWrite s)"

locale llrb_tree =
  fixes L :: "'t llrb_ops"
    and items :: "'t \<Rightarrow> memItem list"
    and tree_ok :: "'t \<Rightarrow> bool"
  assumes wf_New: "tree_ok (llrb_New L)"
    and wf_ReplaceOrInsert: "tree_ok t \<Longrightarrow> tree_ok (llrb_ReplaceOrInsert L t x)"
    and wf_Delete: "tree_ok t \<Longrightarrow> tree_ok (llrb_Delete L t x)"
    and items_sorted: "tree_ok t \<Longrightarrow> sorted_wrt memItem_Less (items t)"
    and items_New: "items (llrb_New L) = []"
    and items_ReplaceOrInsert: "tree_ok t \<Longrightarrow>
      items (llrb_ReplaceOrInsert L t x) = insert_item x (items t)"
    and items_Delete: "tree_ok t \<Longrightarrow> items (llrb_Delete L t x) =
      filter (\<lambda>y. memItem_Less x y \<or> memItem_Less y x) (items t)"
    and items_Get: "tree_ok t \<Longrightarrow> llrb_Get L t x =
      find (\<lambda>y. \<not> memItem_Less x y \<and> \<not> memItem_Less y x) (items t)"
    and items_Min: "tree_ok t \<Longrightarrow> llrb_Min L t = (case items t of [] \<Rightarrow> None | y # ys \<Rightarrow> Some y)"
    and items_Len: "tree_ok t \<Longrightarrow> llrb_Len L t = length (items t)"
    and items_AscendGreaterOrEqual: "tree_ok t \<Longrightarrow> llrb_AscendGreaterOrEqual L t x =
      dropWhile (\<lambda>y. memItem_Less y x) (items t)"
begin

lemma memItem_Less_eq: "memItem_Less = (\<lambda>x y. mi_key x < mi_key y)"
  by (simp add: memItem_Less_def fun_eq_iff)

lemma tree_ascending: "tree_ok t \<Longrightarrow> ascending (tree_content items t)"
  using items_sorted [of t]
  by (simp add: ascending_def tree_content_def kv_of_def memItem_Less_eq sorted_wrt_map comp_def)

lemma tree_insert:
  assumes "tree_ok t"
  shows "tree_content items (llrb_ReplaceOrInsert L t x) =
    put_kv (mi_key x) (mi_value x) (tree_content items t)"
proof -
  have "map kv_of (insert_item x ys) = put_kv (mi_key x) (mi_value x) (map kv_of ys)" for ys
    by (induction x ys rule: insert_item.induct) (auto simp: kv_of_def memItem_Less_def)
  then show ?thesis using assms by (simp add: tree_content_def items_ReplaceOrInsert)
qed

lemma tree_delete:
  "tree_ok t \<Longrightarrow> tree_content items (llrb_Delete L t x) = del_kv (mi_key x) (tree_content items t)"
  by (auto simp: tree_content_def items_Delete del_kv_def filter_map comp_def kv_of_def memItem_Less_def
      intro!: arg_cong [where f = "map _"] filter_cong)

lemma tree_get:
  assumes "tree_ok t"
  shows "map_option mi_value (llrb_Get L t (memItem_of_key k)) = map_of (tree_content items t) k"
proof -
  have "map_option mi_value (find (\<lambda>y. \<not> k < mi_key y \<and> \<not> mi_key y < k) ys) = map_of (map kv_of ys) k" for ys
    by (induction ys) (auto simp: kv_of_def)
  then show ?thesis
    using assms by (simp add: tree_content_def items_Get memItem_Less_def memItem_of_key_def)
qed

lemma tree_seek:
  "tree_ok t \<Longrightarrow>
    map kv_of (llrb_AscendGreaterOrEqual L t x) = seek_from (mi_key x) (tree_content items t)"
  by (simp add: tree_content_def items_AscendGreaterOrEqual seek_from_def dropWhile_map comp_def
      memItem_Less_def kv_of_def)

lemma ascend_member:
  "tree_ok t \<Longrightarrow> x \<in> set (llrb_AscendGreaterOrEqual L t y) \<Longrightarrow> x \<in> set (items t)"
  by (auto simp: items_AscendGreaterOrEqual dest: set_dropWhileD)

lemma MemStorage_tree_ok: "mem_wf tree_ok s \<Longrightarrow> MemStorage_tree s cf = Some t \<Longrightarrow> tree_ok t"
  by (auto simp: MemStorage_tree_def mem_wf_def split: if_splits)

lemma mem_content_ascending: "mem_wf tree_ok s \<Longrightarrow> ascending (mem_content items s cf)"
  by (simp add: mem_content_def tree_ascending MemStorage_tree_ok split: option.split)

lemma mem_iter_onE:
  assumes "mem_wf tree_ok s" "mem_iter_on items s cf it"
  obtains i where "it = Some i" "MemStorage_tree s cf = Some (mit_data i)" "tree_ok (mit_data i)"
    "\<And>x. mit_item i = Some x \<Longrightarrow> x \<in> set (items (mit_data i))" "mem_iter_on items s cf (Some i)"
  using assms MemStorage_tree_ok by (auto simp: mem_iter_on_def)

lemma mem_content_tree: "MemStorage_tree s cf = Some t \<Longrightarrow> mem_content items s cf = tree_content items t"
  by (simp add: mem_content_def)

lemma mem_rest_current:
  assumes "tree_ok (mit_data i)" "mit_item i = Some x" "x \<in> set (items (mit_data i))"
  shows "\<exists>ys. mem_rest items (Some i) = (mi_key x, mi_value x) # ys"
proof -
  have "(mi_key x, mi_value x) \<in> set (tree_content items (mit_data i))"
    using assms(3) by (force simp: tree_content_def kv_of_def)
  with seek_from_present [OF tree_ascending [OF assms(1)]] assms(2) show ?thesis
    by (simp add: mem_rest_def)
qed

lemma memIter_Seek_rest:
  assumes "tree_ok (mit_data i)"
  shows "mem_rest items (Some (memIter_Seek L i k)) = seek_from k (tree_content items (mit_data i))"
proof (cases "llrb_AscendGreaterOrEqual L (mit_data i) (memItem_of_key k)")
  case Nil
  with tree_seek [OF assms, of "memItem_of_key k"] show ?thesis
    by (simp add: memIter_Seek_def mem_rest_def memItem_of_key_def)
next
  case (Cons x xs)
  then have "seek_from k (tree_content items (mit_data i)) = kv_of x # map kv_of xs"
    using tree_seek [OF assms, of "memItem_of_key k"] by (simp add: memItem_of_key_def)
  with seek_from_again [OF tree_ascending [OF assms], of k "[]"] Cons show ?thesis
    by (simp add: memIter_Seek_def mem_rest_def kv_of_def)
qed

lemma memIter_Next_rest:
  assumes ok: "tree_ok (mit_data i)" and x: "mit_item i = Some x" "x \<in> set (items (mit_data i))"
  shows "mem_rest items (Some (memIter_Next L i)) = tl (mem_rest items (Some i))"
proof -
  let ?c = "tree_content items (mit_data i)"
  from mem_rest_current [OF assms] obtain ys
    where ys: "seek_from (mi_key x) ?c = (mi_key x, mi_value x) # ys" by (auto simp: mem_rest_def x)
  have "map kv_of (llrb_AscendGreaterOrEqual L (mit_data i) x) = (mi_key x, mi_value x) # ys"
    by (simp only: tree_seek [OF ok] ys)
  then obtain y zs where
    asc: "llrb_AscendGreaterOrEqual L (mit_data i) x = y # zs" and zs: "ys = map kv_of zs"
    by (auto simp: map_eq_Cons_conv)
  have lhs: "memIter_Next L i =
      (case zs of [] \<Rightarrow> i\<lparr>mit_item := None\<rparr> | z # _ \<Rightarrow> i\<lparr>mit_item := Some z\<rparr>)"
    by (simp add: memIter_Next_def x(1) asc split: list.split)
  have rhs: "tl (mem_rest items (Some i)) = ys"
    by (simp add: mem_rest_def x(1) ys)
  show ?thesis
  proof (cases zs)
    case Nil
    then show ?thesis unfolding lhs rhs zs by (simp add: mem_rest_def)
  next
    case (Cons z zs')
    have "seek_from (mi_key z) ?c = (mi_key z, mi_value z) # map kv_of zs'"
      by (rule seek_from_again [OF tree_ascending [OF ok], of "mi_key x" "[(mi_key x, mi_value x)]"])
        (simp add: ys zs Cons kv_of_def)
    then show ?thesis unfolding lhs rhs zs by (simp add: mem_rest_def Cons kv_of_def)
  qed
qed

lemma memIter_Seek_on:
  "tree_ok (mit_data i) \<Longrightarrow> mem_iter_on items s cf (Some i) \<Longrightarrow>
    mem_iter_on items s cf (Some (memIter_Seek L i k))"
  using ascend_member [of "mit_data i" _ "memItem_of_key k"]
  by (auto simp: mem_iter_on_def memIter_Seek_def split: list.split)

lemma memIter_Next_on:
  "tree_ok (mit_data i) \<Longrightarrow> mem_iter_on items s cf (Some i) \<Longrightarrow>
    mem_iter_on items s cf (Some (memIter_Next L i))"
  using ascend_member
    [of "mit_data i" _ "case mit_item i of None \<Rightarrow> memItem_of_key [] | Some x \<Rightarrow> x"]
  by (auto simp: mem_iter_on_def memIter_Next_def Let_def split: list.split)

lemma memReader_GetCF_content:
  assumes "mem_wf tree_ok s" "cf \<in> set CFs"
  shows "memReader_GetCF L (MemStorage_Reader s) cf k =
    Inr (case map_of (mem_content items s cf) k of None \<Rightarrow> None | Some v \<Rightarrow> v)"
proof -
  obtain t where t: "MemStorage_tree s cf = Some t"
    using assms(2) by (auto simp: MemStorage_tree_def CFs_def)
  then have "tree_ok t" using assms(1) MemStorage_tree_ok by blast
  then have "map_of (mem_content items s cf) k = map_option mi_value (llrb_Get L t (memItem_of_key k))"
    by (simp add: mem_content_def t tree_get)
  then show ?thesis
    by (simp add: memReader_GetCF_def MemStorage_Reader_def t split: option.split)
qed

lemma memReader_IterCF_on:
  assumes "mem_wf tree_ok s" "cf \<in> set CFs"
  shows "mem_iter_on items s cf (fst (memReader_IterCF L (MemStorage_Reader s) cf))"
proof -
  obtain t where t: "MemStorage_tree s cf = Some t"
    using assms(2) by (auto simp: MemStorage_tree_def CFs_def)
  with MemStorage_tree_ok [OF assms(1) t] show ?thesis
    by (auto simp: memReader_IterCF_def MemStorage_Reader_def mem_iter_on_def items_Min
        split: list.splits)
qed

lemma mem_rest_Nil:
  assumes "tree_ok (mit_data i)" "\<And>x. mit_item i = Some x \<Longrightarrow> x \<in> set (items (mit_data i))"
  shows "mem_rest items (Some i) = [] \<longleftrightarrow> mit_item i = None"
proof (cases "mit_item i")
  case None
  then show ?thesis by (simp add: mem_rest_def)
next
  case (Some x)
  with mem_rest_current [OF assms(1) Some] assms(2) show ?thesis by auto
qed

lemma mem_rest_Cons:
  assumes "tree_ok (mit_data i)" "\<And>x. mit_item i = Some x \<Longrightarrow> x \<in> set (items (mit_data i))"
    and "mem_rest items (Some i) = (k, v) # es"
  shows "memIter_Key i = k" "memIter_Value i = Inr v" "mem_rest items (Some (memIter_Next L i)) = es"
proof -
  from assms obtain x where x: "mit_item i = Some x" "x \<in> set (items (mit_data i))"
    by (cases "mit_item i") (auto simp: mem_rest_def)
  from mem_rest_current [OF assms(1) x] assms(3) have "k = mi_key x" "v = mi_value x" by auto
  then show "memIter_Key i = k" "memIter_Value i = Inr v"
    using x by (simp_all add: memIter_Key_def memIter_Value_def)
  show "mem_rest items (Some (memIter_Next L i)) = es"
    using memIter_Next_rest [OF assms(1) x] assms(3) by simp
qed

lemma mem_reader_laws:
  assumes "mem_wf tree_ok s"
  shows "storage_reader (memReader_methods L (MemStorage_Reader s)) (mem_content items s)
    (mem_iter_on items s) (mem_rest items)"
  by (unfold_locales; (erule mem_iter_onE [OF assms])?)
    (use assms in \<open>auto simp: memReader_methods_def mem_content_ascending memReader_GetCF_content
      memReader_IterCF_on memIter_Seek_on memIter_Next_on memIter_Seek_rest mem_content_tree
      memIter_Valid_def mem_rest_Nil mem_rest_Cons\<close>)

lemma MemStorage_Write1_ok:
  assumes "mem_wf tree_ok s"
  shows "mem_wf tree_ok (MemStorage_Write1 L m s)"
    and "mem_content items (MemStorage_Write1 L m s) = apply_modify m (mem_content items s)"
  using assms
  by (cases m; auto simp: mem_wf_def wf_ReplaceOrInsert wf_Delete fun_eq_iff mem_content_def
      MemStorage_tree_def CFs_def tree_insert tree_delete memItem_of_key_def Let_def)+

lemma MemStorage_Write_ok:
  "mem_wf tree_ok s \<Longrightarrow> mem_wf tree_ok (fold (MemStorage_Write1 L) batch s) \<and>
    mem_content items (fold (MemStorage_Write1 L) batch s) = apply_batch batch (mem_content items s)"
  by (induction batch arbitrary: s) (simp_all add: apply_batch_def MemStorage_Write1_ok)

lemma NewMemStorage_ok:
  "mem_wf tree_ok (NewMemStorage L)" "mem_content items (NewMemStorage L) cf = []"
  by (simp_all add: mem_wf_def NewMemStorage_def wf_New mem_content_def MemStorage_tree_def
      tree_content_def items_New)

end

sublocale llrb_tree \<subseteq> mem_storage: kv_storage "MemStorage_methods L" "mem_wf tree_ok"
  "mem_content items" "mem_iter_on items" "\<lambda>_. mem_rest items"
  by (rule kv_storage.intro)
    (auto simp: MemStorage_methods_def MemStorage_Write_def MemStorage_Write_ok mem_reader_laws)


subsection \<open>A concrete tree\<close>

text \<open>
  The tree contract is satisfiable: sorted lists of items implement it.  This instance is what the
  witnesses run on.
\<close>

definition slist_ops :: "memItem list llrb_ops" where
  "slist_ops =
     \<lparr>llrb_New = [],
      llrb_ReplaceOrInsert = (\<lambda>t x. insert_item x t),
      llrb_Delete = (\<lambda>t x. filter (\<lambda>y. memItem_Less x y \<or> memItem_Less y x) t),
      llrb_Get = (\<lambda>t x. find (\<lambda>y. \<not> memItem_Less x y \<and> \<not> memItem_Less y x) t),
      llrb_Min = (\<lambda>t. case t of [] \<Rightarrow> None | y # ys \<Rightarrow> Some y),
      llrb_Len = length,
      llrb_AscendGreaterOrEqual = (\<lambda>t x. dropWhile (\<lambda>y. memItem_Less y x) t)\<rparr>"

lemma set_insert_item: "set (insert_item x ys) \<subseteq> insert x (set ys)"
  by (induction x ys rule: insert_item.induct) auto

lemma sorted_insert_item:
  "sorted_wrt memItem_Less ys \<Longrightarrow> sorted_wrt memItem_Less (insert_item x ys)"
proof (induction x ys rule: insert_item.induct)
  case ins: (2 x y ys)
  have trans: "memItem_Less a c" if "memItem_Less a b" "memItem_Less b c" for a b c
    using that by (auto simp: memItem_Less_def)
  have same: "memItem_Less x c" if "\<not> memItem_Less x y" "\<not> memItem_Less y x" "memItem_Less y c" for c
    using that by (auto simp: memItem_Less_def)
  consider "memItem_Less x y" | "\<not> memItem_Less x y" "memItem_Less y x"
    | "\<not> memItem_Less x y" "\<not> memItem_Less y x" by blast
  then show ?case
  proof cases
    case 1
    with ins show ?thesis using trans [OF 1] by simp
  next
    case 2
    with ins set_insert_item [of x ys] show ?thesis by auto
  next
    case 3
    with ins same [OF 3] show ?thesis by simp
  qed
qed simp

interpretation slist: llrb_tree slist_ops "\<lambda>t. t" "sorted_wrt memItem_Less"
  by unfold_locales (auto simp: slist_ops_def sorted_insert_item sorted_wrt_filter)

abbreviation slist_storage :: "(memItem list MemStorage, memItem list memIter option) Storage" where
  "slist_storage \<equiv> MemStorage_methods slist_ops"

end
