(* ===== verification/Mvcc.thy ===== *)
theory Mvcc
  imports Codec KV_Storage
begin

text \<open>
  The multi-version layer of TinyKV: \<^verbatim>\<open>kv/transaction/mvcc/lock.go\<close>, \<^verbatim>\<open>write.go\<close> and
  \<^verbatim>\<open>transaction.go\<close>.  A lock and a write record are stored as byte strings in the column families
  \<open>CfLock\<close> and \<open>CfWrite\<close>; write records and values are stored under the memcomparable encoding of
  the user key followed by the bit-wise complement of a timestamp, so that the versions of a key
  follow each other, newest first.

  The loops that walk an iterator or a range of timestamps are \<open>partial_function\<close>s: \<open>None\<close> means
  that the Go function does not return.  The locale \<open>mvcc_reader\<close> proves that on a reader that
  keeps its contract they all return, and says what.
\<close>

subsection \<open>Errors and protocol messages\<close>

record LockInfo =
  li_Key :: bytes
  li_LockVersion :: u64
  li_PrimaryLock :: bytes
  li_LockTtl :: u64

record WriteConflict =
  wc_Key :: bytes
  wc_StartTs :: u64
  wc_Primary :: bytes
  wc_ConflictTs :: u64

record KeyError =
  ke_Locked :: "LockInfo option"
  ke_Retryable :: string
  ke_Abort :: string
  ke_Conflict :: "WriteConflict option"

definition emptyKeyError :: KeyError where
  "emptyKeyError = \<lparr>ke_Locked = None, ke_Retryable = '''', ke_Abort = '''', ke_Conflict = None\<rparr>"

text \<open>The errors the layer returns, and the panics it raises.\<close>

datatype go_error =
    ErrStorage storage_error
  | ErrParseLock nat
  | ErrParseWrite nat
  | ErrKey KeyError
  | ErrText string
  | Panic string

subsection \<open>Write records\<close>

type_synonym WriteKind = int

definition WriteKindPut :: WriteKind where
  "WriteKindPut = 1"

definition WriteKindDelete :: WriteKind where
  "WriteKindDelete = 2"

definition WriteKindRollback :: WriteKind where
  "WriteKindRollback = 3"

lemma WriteKind_distinct [simp]:
  "WriteKindPut \<noteq> WriteKindDelete" "WriteKindPut \<noteq> WriteKindRollback"
  "WriteKindDelete \<noteq> WriteKindRollback" "WriteKindDelete \<noteq> WriteKindPut"
  "WriteKindRollback \<noteq> WriteKindPut" "WriteKindRollback \<noteq> WriteKindDelete"
  by (simp_all add: WriteKindPut_def WriteKindDelete_def WriteKindRollback_def)

text \<open>The enumeration \<^verbatim>\<open>kvrpcpb.Op\<close> of the protocol.\<close>

type_synonym Op = int

definition Op_Put :: Op where
  "Op_Put = 0"

definition Op_Del :: Op where
  "Op_Del = 1"

definition Op_Rollback :: Op where
  "Op_Rollback = 2"

definition Op_Lock :: Op where
  "Op_Lock = 3"

definition WriteKind_ToProto :: "WriteKind \<Rightarrow> Op" where
  "WriteKind_ToProto wk =
     (if wk = WriteKindPut then Op_Put
      else if wk = WriteKindDelete then Op_Del
      else if wk = WriteKindRollback then Op_Rollback
      else - 1)"

definition WriteKindFromProto :: "Op \<Rightarrow> go_error + WriteKind" where
  "WriteKindFromProto op =
     (if op = Op_Put then Inr WriteKindPut
      else if op = Op_Del then Inr WriteKindDelete
      else if op = Op_Rollback then Inr WriteKindRollback
      else Inl (Panic ''unsupported type''))"

record Write =
  wr_StartTS :: u64
  wr_Kind :: WriteKind

definition Write_ToBytes :: "Write \<Rightarrow> bytes" where
  "Write_ToBytes wr = word_of_int (wr_Kind wr) # PutUint64 (wr_StartTS wr)"

definition ParseWrite :: "gobytes \<Rightarrow> go_error + Write option" where
  "ParseWrite value =
     (case value of
        None \<Rightarrow> Inr None
      | Some b \<Rightarrow>
          if length b \<noteq> 9 then Inl (ErrParseWrite (length b))
          else (case Uint64 (drop 1 b) of
                  None \<Rightarrow> Inl (Panic ''index out of range'')
                | Some startTs \<Rightarrow> Inr (Some \<lparr>wr_StartTS = startTs, wr_Kind = uint (b ! 0)\<rparr>)))"

subsection \<open>Locks\<close>

definition TsMax :: u64 where
  "TsMax = NOT 0"

record Lock =
  lock_Primary :: bytes
  lock_Ts :: u64
  lock_Ttl :: u64
  lock_Kind :: WriteKind

record KlPair =
  kl_Key :: bytes
  kl_Lock :: Lock

definition Lock_Info :: "Lock \<Rightarrow> bytes \<Rightarrow> LockInfo" where
  "Lock_Info lock key =
     \<lparr>li_Key = key, li_LockVersion = lock_Ts lock, li_PrimaryLock = lock_Primary lock,
      li_LockTtl = lock_Ttl lock\<rparr>"

definition Lock_ToBytes :: "Lock \<Rightarrow> bytes" where
  "Lock_ToBytes lock =
     lock_Primary lock @ [word_of_int (lock_Kind lock)] @ PutUint64 (lock_Ts lock) @ PutUint64 (lock_Ttl lock)"

definition ParseLock :: "bytes \<Rightarrow> go_error + Lock" where
  "ParseLock input =
     (if length input \<le> 16 then Inl (ErrParseLock (length input))
      else let primaryLen = length input - 17 in
           case (Uint64 (drop (primaryLen + 1) input), Uint64 (drop (primaryLen + 9) input)) of
             (Some ts, Some ttl) \<Rightarrow>
               Inr \<lparr>lock_Primary = take primaryLen input, lock_Ts = ts, lock_Ttl = ttl,
                    lock_Kind = uint (input ! primaryLen)\<rparr>
           | _ \<Rightarrow> Inl (Panic ''index out of range''))"

text \<open>
  \<^verbatim>\<open>IsLockedFor\<close> returns whether the lock blocks a read at \<open>txnStartTs\<close> and, if so, the error it
  stores in the response.  A \<^verbatim>\<open>nil\<close> lock is \<open>None\<close>.
\<close>

definition Lock_IsLockedFor :: "Lock option \<Rightarrow> bytes \<Rightarrow> u64 \<Rightarrow> KeyError option" where
  "Lock_IsLockedFor lk key txnStartTs =
     (case lk of
        None \<Rightarrow> None
      | Some lock \<Rightarrow>
          if txnStartTs = TsMax \<and> bytes_Compare key (lock_Primary lock) \<noteq> 0 then None
          else if lock_Ts lock \<le> txnStartTs
               then Some (emptyKeyError\<lparr>ke_Locked := Some (Lock_Info lock key)\<rparr>)
               else None)"

subsection \<open>Versioned keys\<close>

definition EncodeKey :: "bytes \<Rightarrow> u64 \<Rightarrow> bytes" where
  "EncodeKey key ts = EncodeBytes key @ PutUint64 (NOT ts)"

definition DecodeUserKey :: "bytes \<Rightarrow> go_error + bytes" where
  "DecodeUserKey key =
     (case DecodeBytes key of
        Inl e \<Rightarrow> Inl (Panic ''cannot decode the user key'')
      | Inr (left, userKey) \<Rightarrow> Inr userKey)"

definition decodeTimestamp :: "bytes \<Rightarrow> go_error + u64" where
  "decodeTimestamp key =
     (case DecodeBytes key of
        Inl e \<Rightarrow> Inl (Panic ''cannot decode the user key'')
      | Inr (left, userKey) \<Rightarrow>
          (case Uint64 left of
             None \<Rightarrow> Inl (Panic ''index out of range'')
           | Some v \<Rightarrow> Inr (NOT v)))"

subsection \<open>Transactions\<close>

record 'it RoTxn =
  txn_Reader :: "'it StorageReader"
  txn_StartTS :: u64

record 'it MvccTxn = "'it RoTxn" +
  txn_writes :: "Modify list"

definition NewTxn :: "'it StorageReader \<Rightarrow> u64 \<Rightarrow> 'it MvccTxn" where
  "NewTxn reader startTs = \<lparr>txn_Reader = reader, txn_StartTS = startTs, txn_writes = []\<rparr>"

definition mostRecentWriteBefore ::
    "('it, 'x) RoTxn_scheme \<Rightarrow> bytes \<Rightarrow> u64 \<Rightarrow> go_error + Write option \<times> u64" where
  "mostRecentWriteBefore txn key ts =
     (let rd = txn_Reader txn; iter = Seek rd (IterCF rd CfWrite) (EncodeKey key ts) in
      if \<not> Valid rd iter then Inr (None, 0)
      else case decodeTimestamp (ItemKey rd iter) of
        Inl e \<Rightarrow> Inl e
      | Inr commitTs \<Rightarrow>
          (case DecodeUserKey (ItemKey rd iter) of
             Inl e \<Rightarrow> Inl e
           | Inr userKey \<Rightarrow>
               if bytes_Compare userKey key \<noteq> 0 then Inr (None, 0)
               else case ItemValue rd iter of
                 Inl e \<Rightarrow> Inl (ErrStorage e)
               | Inr value \<Rightarrow>
                   (case ParseWrite value of
                      Inl e \<Rightarrow> Inl e
                    | Inr write \<Rightarrow> Inr (write, commitTs))))"

definition MostRecentWrite :: "('it, 'x) RoTxn_scheme \<Rightarrow> bytes \<Rightarrow> go_error + Write option \<times> u64" where
  "MostRecentWrite txn key = mostRecentWriteBefore txn key TsMax"

partial_function (option) CurrentWrite_loop ::
    "('it, 'x) RoTxn_scheme \<Rightarrow> bytes \<Rightarrow> u64 \<Rightarrow> (go_error + Write option \<times> u64) option" where
  "CurrentWrite_loop txn key seekTs =
     (case mostRecentWriteBefore txn key seekTs of
        Inl e \<Rightarrow> Some (Inl e)
      | Inr (write, commitTs) \<Rightarrow>
          (case write of
             None \<Rightarrow> Some (Inr (None, 0))
           | Some w \<Rightarrow>
               if wr_StartTS w = txn_StartTS txn then Some (Inr (Some w, commitTs))
               else if commitTs \<le> txn_StartTS txn then Some (Inr (None, 0))
               else CurrentWrite_loop txn key (commitTs - 1)))"

definition CurrentWrite :: "('it, 'x) RoTxn_scheme \<Rightarrow> bytes \<Rightarrow> (go_error + Write option \<times> u64) option" where
  "CurrentWrite txn key = CurrentWrite_loop txn key TsMax"

partial_function (option) GetValue_loop ::
    "('it, 'x) RoTxn_scheme \<Rightarrow> bytes \<Rightarrow> 'it \<Rightarrow> (go_error + gobytes) option" where
  "GetValue_loop txn key iter =
     (let rd = txn_Reader txn in
      if \<not> Valid rd iter then Some (Inr None)
      else case DecodeUserKey (ItemKey rd iter) of
        Inl e \<Rightarrow> Some (Inl e)
      | Inr userKey \<Rightarrow>
          if bytes_Compare userKey key \<noteq> 0 then Some (Inr None)
          else case ItemValue rd iter of
            Inl e \<Rightarrow> Some (Inl (ErrStorage e))
          | Inr value \<Rightarrow>
              (case ParseWrite value of
                 Inl e \<Rightarrow> Some (Inl e)
               | Inr None \<Rightarrow> Some (Inl (Panic ''nil pointer dereference''))
               | Inr (Some write) \<Rightarrow>
                   if wr_Kind write = WriteKindPut
                   then Some (case GetCF rd CfDefault (EncodeKey key (wr_StartTS write)) of
                                Inl e \<Rightarrow> Inl (ErrStorage e)
                              | Inr v \<Rightarrow> Inr v)
                   else if wr_Kind write = WriteKindDelete then Some (Inr None)
                   else GetValue_loop txn key (Next rd iter)))"

definition GetValue :: "('it, 'x) RoTxn_scheme \<Rightarrow> bytes \<Rightarrow> (go_error + gobytes) option" where
  "GetValue txn key =
     (let rd = txn_Reader txn in
      GetValue_loop txn key (Seek rd (IterCF rd CfWrite) (EncodeKey key (txn_StartTS txn))))"

definition GetLock :: "('it, 'x) RoTxn_scheme \<Rightarrow> bytes \<Rightarrow> go_error + Lock option" where
  "GetLock txn key =
     (case GetCF (txn_Reader txn) CfLock key of
        Inl e \<Rightarrow> Inl (ErrStorage e)
      | Inr None \<Rightarrow> Inr None
      | Inr (Some b) \<Rightarrow> (case ParseLock b of Inl e \<Rightarrow> Inl e | Inr lock \<Rightarrow> Inr (Some lock)))"

text \<open>\<^verbatim>\<open>getValue\<close> reads the value at exactly one version.\<close>

definition getValueAt :: "('it, 'x) RoTxn_scheme \<Rightarrow> bytes \<Rightarrow> u64 \<Rightarrow> go_error + gobytes" where
  "getValueAt txn key ts =
     (case GetCF (txn_Reader txn) CfDefault (EncodeKey key ts) of
        Inl e \<Rightarrow> Inl (ErrStorage e)
      | Inr v \<Rightarrow> Inr v)"

definition PutWrite :: "'it MvccTxn \<Rightarrow> bytes \<Rightarrow> u64 \<Rightarrow> Write \<Rightarrow> 'it MvccTxn" where
  "PutWrite txn key ts write =
     txn\<lparr>txn_writes := txn_writes txn @ [Put (EncodeKey key ts) (Some (Write_ToBytes write)) CfWrite]\<rparr>"

definition PutLock :: "'it MvccTxn \<Rightarrow> bytes \<Rightarrow> Lock \<Rightarrow> 'it MvccTxn" where
  "PutLock txn key lock =
     txn\<lparr>txn_writes := txn_writes txn @ [Put key (Some (Lock_ToBytes lock)) CfLock]\<rparr>"

definition DeleteLock :: "'it MvccTxn \<Rightarrow> bytes \<Rightarrow> 'it MvccTxn" where
  "DeleteLock txn key = txn\<lparr>txn_writes := txn_writes txn @ [Delete key CfLock]\<rparr>"

definition PutValue :: "'it MvccTxn \<Rightarrow> bytes \<Rightarrow> gobytes \<Rightarrow> 'it MvccTxn" where
  "PutValue txn key value =
     txn\<lparr>txn_writes := txn_writes txn @ [Put (EncodeKey key (txn_StartTS txn)) value CfDefault]\<rparr>"

definition DeleteValue :: "'it MvccTxn \<Rightarrow> bytes \<Rightarrow> 'it MvccTxn" where
  "DeleteValue txn key =
     txn\<lparr>txn_writes := txn_writes txn @ [Delete (EncodeKey key (txn_StartTS txn)) CfDefault]\<rparr>"

partial_function (option) AllLocksForTxn_loop ::
    "('it, 'x) RoTxn_scheme \<Rightarrow> 'it \<Rightarrow> KlPair list \<Rightarrow> (go_error + KlPair list) option" where
  "AllLocksForTxn_loop txn iter result =
     (let rd = txn_Reader txn in
      if \<not> Valid rd iter then Some (Inr result)
      else case ItemValue rd iter of
        Inl e \<Rightarrow> Some (Inl (ErrStorage e))
      | Inr val \<Rightarrow>
          (case ParseLock (case val of None \<Rightarrow> [] | Some b \<Rightarrow> b) of
             Inl e \<Rightarrow> Some (Inl e)
           | Inr lock \<Rightarrow>
               AllLocksForTxn_loop txn (Next rd iter)
                 (if lock_Ts lock = txn_StartTS txn
                  then result @ [\<lparr>kl_Key = ItemKey rd iter, kl_Lock = lock\<rparr>]
                  else result)))"

definition AllLocksForTxn :: "('it, 'x) RoTxn_scheme \<Rightarrow> (go_error + KlPair list) option" where
  "AllLocksForTxn txn =
     (let rd = txn_Reader txn in AllLocksForTxn_loop txn (Seek rd (IterCF rd CfLock) []) [])"

declare CurrentWrite_loop.simps [code] GetValue_loop.simps [code] AllLocksForTxn_loop.simps [code]

subsection \<open>Encodings\<close>

lemma EncodeKey_less: "EncodeKey k1 t1 < EncodeKey k2 t2 \<longleftrightarrow> k1 < k2 \<or> k1 = k2 \<and> t2 < t1"
  by (simp add: EncodeKey_def EncodeBytes_less_append)

lemma EncodeKey_eq [simp]: "EncodeKey k1 t1 = EncodeKey k2 t2 \<longleftrightarrow> k1 = k2 \<and> t1 = t2"
  by (metis EncodeKey_less neq_iff)

lemma EncodeKey_le: "EncodeKey k1 t1 \<le> EncodeKey k2 t2 \<longleftrightarrow> k1 < k2 \<or> k1 = k2 \<and> t2 \<le> t1"
  by (auto simp: le_less EncodeKey_less)

lemma DecodeUserKey_EncodeKey [simp]: "DecodeUserKey (EncodeKey k ts) = Inr k"
  by (simp add: DecodeUserKey_def EncodeKey_def)

lemma decodeTimestamp_EncodeKey [simp]: "decodeTimestamp (EncodeKey k ts) = Inr ts"
  by (simp add: decodeTimestamp_def EncodeKey_def)

lemma ParseWrite_ToBytes [simp]:
  "0 \<le> wr_Kind w \<Longrightarrow> wr_Kind w < 256 \<Longrightarrow> ParseWrite (Some (Write_ToBytes w)) = Inr (Some w)"
  by (simp add: ParseWrite_def Write_ToBytes_def unsigned_of_int take_bit_int_eq_self)

lemma ParseLock_ToBytes [simp]:
  "0 \<le> lock_Kind l \<Longrightarrow> lock_Kind l < 256 \<Longrightarrow> ParseLock (Lock_ToBytes l) = Inr l"
  by (simp add: ParseLock_def Lock_ToBytes_def nth_append unsigned_of_int take_bit_int_eq_self)

lemma le_TsMax [simp]: "ts \<le> TsMax"
  by (simp add: TsMax_def)

subsection \<open>The abstract multi-version store\<close>

text \<open>
  What the raw contents of the three column families mean: a lock per key, a write record per key
  and commit timestamp, a value per key and start timestamp.
\<close>

definition lock_at :: "(string \<Rightarrow> cf_content) \<Rightarrow> bytes \<Rightarrow> Lock option" where
  "lock_at c k =
     (case map_of (c CfLock) k of
        Some (Some b) \<Rightarrow> (case ParseLock b of Inr l \<Rightarrow> Some l | Inl e \<Rightarrow> None)
      | _ \<Rightarrow> None)"

definition write_at :: "(string \<Rightarrow> cf_content) \<Rightarrow> bytes \<Rightarrow> u64 \<Rightarrow> Write option" where
  "write_at c k ts =
     (case map_of (c CfWrite) (EncodeKey k ts) of
        Some v \<Rightarrow> (case ParseWrite v of Inr w \<Rightarrow> w | Inl e \<Rightarrow> None)
      | None \<Rightarrow> None)"

definition value_at :: "(string \<Rightarrow> cf_content) \<Rightarrow> bytes \<Rightarrow> u64 \<Rightarrow> gobytes" where
  "value_at c k ts = (case map_of (c CfDefault) (EncodeKey k ts) of Some v \<Rightarrow> v | None \<Rightarrow> None)"

text \<open>Every stored lock and write record is well-formed.\<close>

definition mvcc_wf :: "(string \<Rightarrow> cf_content) \<Rightarrow> bool" where
  "mvcc_wf c \<longleftrightarrow>
     (\<forall>k v. map_of (c CfLock) k = Some v \<longrightarrow> (\<exists>b l. v = Some b \<and> ParseLock b = Inr l)) \<and>
     (\<forall>ek v. map_of (c CfWrite) ek = Some v \<longrightarrow>
        (\<exists>k ts w. ek = EncodeKey k ts \<and> ParseWrite v = Inr (Some w)))"

lemma mvcc_wf_lock:
  "mvcc_wf c \<Longrightarrow> map_of (c CfLock) k = Some v \<Longrightarrow> \<exists>b l. v = Some b \<and> ParseLock b = Inr l"
  by (auto simp: mvcc_wf_def)

lemma mvcc_wf_write:
  assumes "mvcc_wf c" "map_of (c CfWrite) ek = Some v"
  obtains k ts w where "ek = EncodeKey k ts" "ParseWrite v = Inr (Some w)" "write_at c k ts = Some w"
proof -
  from assms obtain k ts w where w: "ek = EncodeKey k ts" "ParseWrite v = Inr (Some w)"
    unfolding mvcc_wf_def by blast
  with assms(2) have "write_at c k ts = Some w" by (simp add: write_at_def)
  with w show ?thesis by (rule that)
qed

lemma write_at_NoneD: "map_of (c CfWrite) (EncodeKey k ts) = None \<Longrightarrow> write_at c k ts = None"
  by (simp add: write_at_def)

text \<open>
  The reference search: the newest write record of a key at or before \<open>ts\<close>, as a relation between
  the contents and the answer.
\<close>

definition newest_write :: "(string \<Rightarrow> cf_content) \<Rightarrow> bytes \<Rightarrow> u64 \<Rightarrow> Write option \<times> u64 \<Rightarrow> bool" where
  "newest_write c k ts r \<longleftrightarrow>
     (case r of
        (None, ct) \<Rightarrow> ct = 0 \<and> (\<forall>t\<le>ts. write_at c k t = None)
      | (Some w, ct) \<Rightarrow> ct \<le> ts \<and> write_at c k ct = Some w \<and>
          (\<forall>t. ct < t \<and> t \<le> ts \<longrightarrow> write_at c k t = None))"

text \<open>
  \<open>current_write\<close>: the newest write record of a key that belongs to the transaction which started at
  \<open>start\<close>.  \<open>data_write\<close>: a record that decides what a reader sees, as opposed to a rollback
  record.  \<open>snapshot_value\<close>: what a reader at \<open>ts\<close> sees, the value of the newest data record at or
  before \<open>ts\<close>.
\<close>

definition current_write :: "(string \<Rightarrow> cf_content) \<Rightarrow> bytes \<Rightarrow> u64 \<Rightarrow> u64 \<Rightarrow> Write option \<times> u64 \<Rightarrow> bool" where
  "current_write c k start bound r \<longleftrightarrow>
     (case r of
        (None, ct) \<Rightarrow> ct = 0 \<and>
          (\<forall>t w. start \<le> t \<and> t \<le> bound \<and> write_at c k t = Some w \<longrightarrow> wr_StartTS w \<noteq> start)
      | (Some w, ct) \<Rightarrow> ct \<le> bound \<and> write_at c k ct = Some w \<and> wr_StartTS w = start \<and>
          (\<forall>t w'. ct < t \<and> t \<le> bound \<and> write_at c k t = Some w' \<longrightarrow> wr_StartTS w' \<noteq> start))"

lemma current_write_extend:
  assumes n: "newest_write c k ts (Some w, ct)" and w: "wr_StartTS w \<noteq> start" and "ct \<noteq> 0"
    and r: "current_write c k start (ct - 1) r"
  shows "current_write c k start ts r"
proof -
  have less: "t \<le> ct - 1" if "t \<le> ts" "write_at c k t = Some w'" "wr_StartTS w' = start" for t w'
  proof -
    have "\<not> ct < t" "t \<noteq> ct" using that n w by (auto simp: newest_write_def)
    with \<open>ct \<noteq> 0\<close> show ?thesis by (simp add: le_pred_iff)
  qed
  have le: "t \<le> ts" if "t \<le> ct - 1" for t
    using that n \<open>ct \<noteq> 0\<close> by (auto simp: newest_write_def le_pred_iff)
  obtain wo t where rt: "r = (wo, t)" by (cases r)
  show ?thesis
  proof (cases wo)
    case None
    with r rt less show ?thesis unfolding current_write_def by simp blast
  next
    case (Some x)
    with r rt less le show ?thesis unfolding current_write_def by simp blast
  qed
qed

definition data_write :: "Write \<Rightarrow> bool" where
  "data_write w \<longleftrightarrow> wr_Kind w = WriteKindPut \<or> wr_Kind w = WriteKindDelete"

definition snapshot_value :: "(string \<Rightarrow> cf_content) \<Rightarrow> bytes \<Rightarrow> u64 \<Rightarrow> gobytes \<Rightarrow> bool" where
  "snapshot_value c k ts v \<longleftrightarrow>
     (\<exists>ct w. ct \<le> ts \<and> write_at c k ct = Some w \<and> data_write w \<and>
        (\<forall>t w'. ct < t \<and> t \<le> ts \<and> write_at c k t = Some w' \<longrightarrow> \<not> data_write w') \<and>
        v = (if wr_Kind w = WriteKindPut then value_at c k (wr_StartTS w) else None)) \<or>
     (\<forall>t w. t \<le> ts \<and> write_at c k t = Some w \<longrightarrow> \<not> data_write w) \<and> v = None"

fun locks_in :: "u64 \<Rightarrow> cf_content \<Rightarrow> KlPair list" where
  "locks_in start [] = []"
| "locks_in start ((k, v) # es) =
     (case v of
        None \<Rightarrow> locks_in start es
      | Some b \<Rightarrow> (case ParseLock b of
                    Inl e \<Rightarrow> locks_in start es
                  | Inr l \<Rightarrow> if lock_Ts l = start then \<lparr>kl_Key = k, kl_Lock = l\<rparr> # locks_in start es
                            else locks_in start es))"

locale mvcc_reader = storage_reader +
  assumes wf: "mvcc_wf content"
begin

lemma GetLock_eq: "txn_Reader txn = rd \<Longrightarrow> GetLock txn k = Inr (lock_at content k)"
  using mvcc_wf_lock [OF wf, of k]
  by (auto simp: GetLock_def get_cf CFs_def lock_at_def split: option.splits)

lemma getValueAt_eq: "txn_Reader txn = rd \<Longrightarrow> getValueAt txn k ts = Inr (value_at content k ts)"
  by (simp add: getValueAt_def get_cf CFs_def value_at_def split: option.splits)

lemma write_iter: "iter_on CfWrite (Seek rd (IterCF rd CfWrite) k)"
  by (intro iter_intros) (simp add: CFs_def)

lemma write_seek: "rest (Seek rd (IterCF rd CfWrite) k) = seek_from k (content CfWrite)"
  by (simp add: seek_open CFs_def)

lemma mostRecentWriteBefore_newest:
  assumes "txn_Reader txn = rd"
  shows "\<exists>r. mostRecentWriteBefore txn k ts = Inr r \<and> newest_write content k ts r"
proof (cases "seek_from (EncodeKey k ts) (content CfWrite)")
  case Nil
  then have "\<not> Valid rd (Seek rd (IterCF rd CfWrite) (EncodeKey k ts))"
    using valid_rest [OF write_iter] write_seek by simp
  moreover have "write_at content k t = None" if "t \<le> ts" for t
    using seek_from_NilD [OF content_ascending Nil] that
    by (intro write_at_NoneD) (simp add: EncodeKey_le)
  ultimately show ?thesis
    using assms by (simp add: mostRecentWriteBefore_def newest_write_def)
next
  case (Cons e es)
  obtain ek v where e: "e = (ek, v)" by (cases e)
  let ?it = "Seek rd (IterCF rd CfWrite) (EncodeKey k ts)"
  have rest: "rest ?it = (ek, v) # es" using Cons e write_seek by simp
  have it: "Valid rd ?it" "ItemKey rd ?it = ek" "ItemValue rd ?it = Inr v"
    using valid_rest [OF write_iter] item_rest [OF write_iter rest] rest by auto
  note D = seek_from_ConsD [OF content_ascending Cons [unfolded e]]
  from mvcc_wf_write [OF wf D(2)] obtain k' ct w where
    w: "ek = EncodeKey k' ct" "ParseWrite v = Inr (Some w)" "write_at content k' ct = Some w" .
  show ?thesis
  proof (cases "k' = k")
    case True
    have "write_at content k t = None" if "ct < t" "t \<le> ts" for t
      using D(3) [of "EncodeKey k t"] that w(1) True
      by (intro write_at_NoneD) (simp add: EncodeKey_le EncodeKey_less)
    moreover have "ct \<le> ts" using D(1) w(1) True by (simp add: EncodeKey_le)
    ultimately show ?thesis
      using assms it w True by (simp add: mostRecentWriteBefore_def newest_write_def)
  next
    case False
    have "write_at content k t = None" if "t \<le> ts" for t
      using D(1) D(3) [of "EncodeKey k t"] that w(1) False
      by (intro write_at_NoneD) (auto simp: EncodeKey_le EncodeKey_less)
    then show ?thesis
      using assms it w False by (simp add: mostRecentWriteBefore_def newest_write_def)
  qed
qed

lemma CurrentWrite_loop_current:
  assumes "txn_Reader txn = rd"
  shows "\<exists>r. CurrentWrite_loop txn k ts = Some (Inr r) \<and>
    current_write content k (txn_StartTS txn) ts r"
proof (induction "unat ts" arbitrary: ts rule: less_induct)
  case less
  let ?start = "txn_StartTS txn"
  from mostRecentWriteBefore_newest [OF assms, of k ts] obtain wo ct where
    m: "mostRecentWriteBefore txn k ts = Inr (wo, ct)" and n: "newest_write content k ts (wo, ct)"
    by (metis surj_pair)
  consider (none) "wo = None" | (mine) w where "wo = Some w" "wr_StartTS w = ?start"
    | (old) w where "wo = Some w" "wr_StartTS w \<noteq> ?start" "ct \<le> ?start"
    | (newer) w where "wo = Some w" "wr_StartTS w \<noteq> ?start" "?start < ct"
    by (cases wo) fastforce+
  then show ?case
  proof cases
    case none
    with m n show ?thesis
      by (subst CurrentWrite_loop.simps) (auto simp: newest_write_def current_write_def)
  next
    case mine
    with m n show ?thesis
      by (subst CurrentWrite_loop.simps) (auto simp: newest_write_def current_write_def)
  next
    case old
    have "wr_StartTS w' \<noteq> ?start" if "?start \<le> t" "t \<le> ts" "write_at content k t = Some w'" for t w'
    proof -
      have "\<not> ct < t" using that n old by (auto simp: newest_write_def)
      with old that have "t = ct" by simp
      with that n old show ?thesis by (auto simp: newest_write_def)
    qed
    then have "current_write content k ?start ts (None, 0)" by (auto simp: current_write_def)
    with m old show ?thesis by (subst CurrentWrite_loop.simps) auto
  next
    case newer
    then have "ct \<noteq> 0" by auto
    moreover have "ct \<le> ts" using n newer by (simp add: newest_write_def)
    ultimately have "unat (ct - 1) < unat ts"
      by (simp add: unat_pred word_le_nat_alt unat_gt_0 Suc_le_eq [symmetric])
        (metis Suc_pred unat_gt_0 not_less_eq_eq order.trans)
    from less [OF this] obtain r where
      r: "CurrentWrite_loop txn k (ct - 1) = Some (Inr r)"
        "current_write content k ?start (ct - 1) r" by blast
    have "current_write content k ?start ts r"
      using current_write_extend n r(2) newer \<open>ct \<noteq> 0\<close> by blast
    moreover have "CurrentWrite_loop txn k ts = CurrentWrite_loop txn k (ct - 1)"
      using m newer by (subst CurrentWrite_loop.simps) auto
    ultimately show ?thesis using r(1) by auto
  qed
qed

lemma CurrentWrite_current:
  "txn_Reader txn = rd \<Longrightarrow> \<exists>r. CurrentWrite txn k = Some (Inr r) \<and>
    current_write content k (txn_StartTS txn) TsMax r"
  unfolding CurrentWrite_def by (rule CurrentWrite_loop_current)

lemma GetValue_loop_snapshot:
  assumes rd: "txn_Reader txn = rd"
  shows "iter_on CfWrite it \<Longrightarrow> rest it = es \<Longrightarrow> ascending es \<Longrightarrow>
    \<forall>(ek, v)\<in>set es. EncodeKey k ts \<le> ek \<and> map_of (content CfWrite) ek = Some v \<Longrightarrow>
    \<forall>t w. t \<le> ts \<and> write_at content k t = Some w \<and> data_write w \<longrightarrow> EncodeKey k t \<in> fst ` set es \<Longrightarrow>
    \<exists>v. GetValue_loop txn k it = Some (Inr v) \<and> snapshot_value content k ts v"
proof (induction es arbitrary: it)
  case Nil
  then have "\<not> Valid rd it" using valid_rest by blast
  with rd have "GetValue_loop txn k it = Some (Inr None)" by (subst GetValue_loop.simps) simp
  moreover have "snapshot_value content k ts None" using Nil.prems(5) by (auto simp: snapshot_value_def)
  ultimately show ?case by blast
next
  case (Cons e es)
  obtain ek v where e: "e = (ek, v)" by (cases e)
  have it: "Valid rd it" "ItemKey rd it = ek" "ItemValue rd it = Inr v"
    using Cons.prems(1,2) valid_rest [OF Cons.prems(1)] item_rest [OF Cons.prems(1)] e by auto
  have ek: "EncodeKey k ts \<le> ek" "map_of (content CfWrite) ek = Some v"
    using Cons.prems(4) e by auto
  from mvcc_wf_write [OF wf ek(2)] obtain k' ct w where
    w: "ek = EncodeKey k' ct" "ParseWrite v = Inr (Some w)" "write_at content k' ct = Some w" .
  have first: "ek \<le> x" if "x \<in> fst ` set (e # es)" for x
    using that Cons.prems(3) e by (auto intro: order.strict_implies_order)
  show ?case
  proof (cases "k' = k")
    case False
    have "\<not> data_write w'" if "t \<le> ts" "write_at content k t = Some w'" for t w'
    proof
      assume "data_write w'"
      with that Cons.prems(5) have "EncodeKey k t \<in> fst ` set (e # es)" by blast
      then have "ek \<le> EncodeKey k t" by (rule first)
      with ek(1) w(1) False show False by (auto simp: EncodeKey_le)
    qed
    then have "snapshot_value content k ts None" by (auto simp: snapshot_value_def)
    moreover have "GetValue_loop txn k it = Some (Inr None)"
      using rd it w False by (subst GetValue_loop.simps) simp
    ultimately show ?thesis by blast
  next
    case True
    have ct: "ct \<le> ts" using ek(1) w(1) True by (simp add: EncodeKey_le)
    have newer: "\<not> data_write w'" if "ct < t" "t \<le> ts" "write_at content k t = Some w'" for t w'
    proof
      assume "data_write w'"
      with that Cons.prems(5) have "EncodeKey k t \<in> fst ` set (e # es)" by blast
      then have "ek \<le> EncodeKey k t" by (rule first)
      with that(1) w(1) True show False by (auto simp: EncodeKey_le)
    qed
    show ?thesis
    proof (cases "data_write w")
      case data: True
      define v' where "v' = (if wr_Kind w = WriteKindPut then value_at content k (wr_StartTS w) else None)"
      have "snapshot_value content k ts v'"
        unfolding snapshot_value_def v'_def using ct w(3) True data newer by blast
      moreover have "GetValue_loop txn k it = Some (Inr v')"
        using rd it w True data getValueAt_eq [OF rd, of k "wr_StartTS w"]
        by (subst GetValue_loop.simps) (auto simp: data_write_def v'_def getValueAt_def split: sum.splits)
      ultimately show ?thesis by blast
    next
      case False
      have "GetValue_loop txn k it = GetValue_loop txn k (Next rd it)"
        using rd it w True False
        by (subst GetValue_loop.simps) (auto simp: data_write_def)
      moreover have "EncodeKey k t \<in> fst ` set es"
        if "t \<le> ts" "write_at content k t = Some w'" "data_write w'" for t w'
      proof -
        have "EncodeKey k t \<noteq> ek" using that w True False by (auto simp: EncodeKey_eq)
        moreover have "EncodeKey k t \<in> fst ` set (e # es)" using Cons.prems(5) that by blast
        ultimately show ?thesis using e by simp
      qed
      moreover have "iter_on CfWrite (Next rd it)" "rest (Next rd it) = es"
        using Cons.prems(1,2) iter_next rest_next by blast+
      moreover have "ascending es" using Cons.prems(3) e by simp
      ultimately show ?thesis
        using Cons.IH [of "Next rd it"] Cons.prems(4) by simp
    qed
  qed
qed

lemma GetValue_snapshot:
  assumes rd: "txn_Reader txn = rd"
  shows "\<exists>v. GetValue txn k = Some (Inr v) \<and> snapshot_value content k (txn_StartTS txn) v"
proof -
  let ?ek = "EncodeKey k (txn_StartTS txn)"
  have asc: "ascending (content CfWrite)" by (rule content_ascending)
  have "EncodeKey k t \<in> fst ` set (seek_from ?ek (content CfWrite))"
    if "t \<le> txn_StartTS txn" "write_at content k t = Some w" for t w
  proof -
    from that(2) obtain v where "map_of (content CfWrite) (EncodeKey k t) = Some v"
      by (auto simp: write_at_def split: option.splits)
    then have "(EncodeKey k t, v) \<in> set (seek_from ?ek (content CfWrite))"
      using that(1) asc by (auto simp: seek_from_eq_filter ascending_map_of EncodeKey_le)
    then show ?thesis by force
  qed
  moreover have "\<forall>(ek, v)\<in>set (seek_from ?ek (content CfWrite)).
      ?ek \<le> ek \<and> map_of (content CfWrite) ek = Some v"
    using asc by (auto simp: seek_from_eq_filter ascending_map_of)
  ultimately show ?thesis
    unfolding GetValue_def Let_def rd
    by (intro GetValue_loop_snapshot [OF rd write_iter write_seek]) (auto simp: ascending_seek_from asc)
qed

lemma AllLocksForTxn_loop_eq:
  assumes rd: "txn_Reader txn = rd"
  shows "iter_on CfLock it \<Longrightarrow> rest it = es \<Longrightarrow> set es \<subseteq> set (content CfLock) \<Longrightarrow>
    AllLocksForTxn_loop txn it acc = Some (Inr (acc @ locks_in (txn_StartTS txn) es))"
proof (induction es arbitrary: it acc)
  case Nil
  then have "\<not> Valid rd it" using valid_rest by blast
  with rd show ?case by (subst AllLocksForTxn_loop.simps) simp
next
  case (Cons e es)
  obtain k v where e: "e = (k, v)" by (cases e)
  have it: "Valid rd it" "ItemKey rd it = k" "ItemValue rd it = Inr v"
    using Cons.prems(1,2) valid_rest [OF Cons.prems(1)] item_rest [OF Cons.prems(1)] e by auto
  have "map_of (content CfLock) k = Some v"
    using Cons.prems(3) e ascending_map_of [OF content_ascending] by auto
  from mvcc_wf_lock [OF wf this] obtain b l where l: "v = Some b" "ParseLock b = Inr l" by blast
  have "AllLocksForTxn_loop txn (Next rd it) acc' = Some (Inr (acc' @ locks_in (txn_StartTS txn) es))" for acc'
    using Cons.IH [of "Next rd it" acc'] Cons.prems iter_next rest_next by auto
  with rd it l e show ?case by (subst AllLocksForTxn_loop.simps) simp
qed

lemma AllLocksForTxn_eq:
  assumes "txn_Reader txn = rd"
  shows "AllLocksForTxn txn = Some (Inr (locks_in (txn_StartTS txn) (content CfLock)))"
proof -
  have "seek_from [] (content CfLock) = content CfLock"
    by (simp add: seek_from_eq_filter [OF content_ascending])
  then have "rest (Seek rd (IterCF rd CfLock) []) = content CfLock"
    by (simp add: seek_open CFs_def)
  moreover have "iter_on CfLock (Seek rd (IterCF rd CfLock) [])"
    by (intro iter_intros) (simp add: CFs_def)
  ultimately show ?thesis
    using AllLocksForTxn_loop_eq [OF assms, of "Seek rd (IterCF rd CfLock) []" "content CfLock" "[]"]
    by (simp add: AllLocksForTxn_def assms)
qed

end

lemma locks_in_keys: "kl \<in> set (locks_in start es) \<Longrightarrow> kl_Key kl \<in> fst ` set es"
  by (induction start es rule: locks_in.induct) (auto split: option.splits sum.splits if_splits)

lemma locks_in_sorted: "ascending es \<Longrightarrow> sorted_wrt (<) (map kl_Key (locks_in start es))"
  by (induction start es rule: locks_in.induct)
    (auto split: option.splits sum.splits dest!: locks_in_keys)

lemma locks_in_set:
  assumes "ascending (c CfLock)"
  shows "\<lparr>kl_Key = k, kl_Lock = l\<rparr> \<in> set (locks_in start (c CfLock)) \<longleftrightarrow>
    lock_at c k = Some l \<and> lock_Ts l = start"
proof -
  have "\<lparr>kl_Key = k, kl_Lock = l\<rparr> \<in> set (locks_in start es) \<longleftrightarrow>
      (\<exists>b. (k, Some b) \<in> set es \<and> ParseLock b = Inr l) \<and> lock_Ts l = start" for es
    by (induction start es rule: locks_in.induct) (auto split: option.splits sum.splits)
  then show ?thesis
    by (auto simp: lock_at_def ascending_map_of [OF assms] split: option.splits sum.splits)
qed

subsection \<open>A sample store\<close>

text \<open>
  Key \<open>[97]\<close> was put by the transaction started at 3 and committed at 5, rolled back by the one
  started at 7, and deleted by the one started at 8 and committed at 9; key \<open>[98]\<close> is locked by the
  transaction started at 10.
\<close>

definition sample_lock :: Lock where
  "sample_lock = \<lparr>lock_Primary = [98], lock_Ts = 10, lock_Ttl = 100, lock_Kind = 1\<rparr>"

definition sample_batch :: "Modify list" where
  "sample_batch =
     [Put (EncodeKey [97] 3) (Some [1]) CfDefault,
      Put (EncodeKey [97] 5) (Some (Write_ToBytes \<lparr>wr_StartTS = 3, wr_Kind = 1\<rparr>)) CfWrite,
      Put (EncodeKey [97] 7) (Some (Write_ToBytes \<lparr>wr_StartTS = 7, wr_Kind = 3\<rparr>)) CfWrite,
      Put (EncodeKey [97] 9) (Some (Write_ToBytes \<lparr>wr_StartTS = 8, wr_Kind = 2\<rparr>)) CfWrite,
      Put [98] (Some (Lock_ToBytes sample_lock)) CfLock]"

definition sample_store :: "memItem list MemStorage" where
  "sample_store = fold (MemStorage_Write1 slist_ops) sample_batch (NewMemStorage slist_ops)"

abbreviation sample_content :: "string \<Rightarrow> cf_content" where
  "sample_content \<equiv> mem_content (\<lambda>t. t) sample_store"

definition sample_txn :: "u64 \<Rightarrow> memItem list memIter option MvccTxn" where
  "sample_txn ts = NewTxn (memReader_methods slist_ops (MemStorage_Reader sample_store)) ts"

lemma sample_content_eq:
  "sample_content CfDefault = [(EncodeKey [97] 3, Some [1])]"
  "sample_content CfLock = [([98], Some (Lock_ToBytes sample_lock))]"
  "sample_content CfWrite =
     [(EncodeKey [97] 9, Some (Write_ToBytes \<lparr>wr_StartTS = 8, wr_Kind = 2\<rparr>)),
      (EncodeKey [97] 7, Some (Write_ToBytes \<lparr>wr_StartTS = 7, wr_Kind = 3\<rparr>)),
      (EncodeKey [97] 5, Some (Write_ToBytes \<lparr>wr_StartTS = 3, wr_Kind = 1\<rparr>))]"
proof -
  have "sample_content = apply_batch sample_batch (mem_content (\<lambda>t. t) (NewMemStorage slist_ops))"
    unfolding sample_store_def using slist.MemStorage_Write_ok slist.NewMemStorage_ok(1) by blast
  moreover have "mem_content (\<lambda>t. t) (NewMemStorage slist_ops) = (\<lambda>_. [])"
    using slist.NewMemStorage_ok(2) by blast
  ultimately have c: "sample_content = apply_batch sample_batch (\<lambda>_. [])" by simp
  show "sample_content CfDefault = [(EncodeKey [97] 3, Some [1])]"
    "sample_content CfLock = [([98], Some (Lock_ToBytes sample_lock))]"
    "sample_content CfWrite =
     [(EncodeKey [97] 9, Some (Write_ToBytes \<lparr>wr_StartTS = 8, wr_Kind = 2\<rparr>)),
      (EncodeKey [97] 7, Some (Write_ToBytes \<lparr>wr_StartTS = 7, wr_Kind = 3\<rparr>)),
      (EncodeKey [97] 5, Some (Write_ToBytes \<lparr>wr_StartTS = 3, wr_Kind = 1\<rparr>))]"
    unfolding c by (simp_all add: apply_batch_def sample_batch_def CFs_def EncodeKey_less)
qed

lemma sample_write_at:
  "write_at sample_content [97] t =
    (if t = 9 then Some \<lparr>wr_StartTS = 8, wr_Kind = 2\<rparr>
     else if t = 7 then Some \<lparr>wr_StartTS = 7, wr_Kind = 3\<rparr>
     else if t = 5 then Some \<lparr>wr_StartTS = 3, wr_Kind = 1\<rparr> else None)"
  by (simp add: write_at_def sample_content_eq)

lemma sample_wf: "mvcc_wf sample_content"
  by (auto simp: mvcc_wf_def sample_content_eq sample_lock_def split: if_splits)

lemma sample_reader:
  "storage_reader (txn_Reader (sample_txn ts)) sample_content (mem_iter_on (\<lambda>t. t) sample_store)
     (mem_rest (\<lambda>t. t))"
  using slist.mem_reader_laws [of sample_store]
    slist.MemStorage_Write_ok [OF slist.NewMemStorage_ok(1), of sample_batch]
  by (simp add: sample_txn_def NewTxn_def flip: sample_store_def)

interpretation sample: mvcc_reader "txn_Reader (sample_txn 0)" sample_content
  "mem_iter_on (\<lambda>t. t) sample_store" "mem_rest (\<lambda>t. t)"
  by (intro mvcc_reader.intro mvcc_reader_axioms.intro sample_reader sample_wf)

subsection \<open>Properties\<close>

text \<open>
  C18.  Encoded keys are ordered by user key first and, for one user key, from the newest version to
  the oldest; and both parts can be read back.
\<close>

theorem EncodeKey_newest_first:
  "(EncodeKey k1 t1 < EncodeKey k2 t2 \<longleftrightarrow> k1 < k2 \<or> k1 = k2 \<and> t2 < t1) \<and>
   DecodeUserKey (EncodeKey k1 t1) = Inr k1 \<and> decodeTimestamp (EncodeKey k1 t1) = Inr t1"
  by (simp add: EncodeKey_less)

text \<open>
  C19.  Parsing the bytes of a lock or of a write record gives the record back, for every kind that
  fits in the one byte the format has for it.
\<close>

theorem record_bytes_roundtrip:
  assumes "0 \<le> lock_Kind l" "lock_Kind l < 256" "0 \<le> wr_Kind w" "wr_Kind w < 256"
  shows "ParseLock (Lock_ToBytes l) = Inr l \<and> ParseWrite (Some (Write_ToBytes w)) = Inr (Some w)"
  using assms by simp

theorem record_bytes_roundtrip_witness:
  "ParseLock (Lock_ToBytes sample_lock) = Inr sample_lock \<and>
   ParseWrite (Some (Write_ToBytes \<lparr>wr_StartTS = 8, wr_Kind = 2\<rparr>)) =
     Inr (Some \<lparr>wr_StartTS = 8, wr_Kind = 2\<rparr>)"
  using record_bytes_roundtrip [of sample_lock "\<lparr>wr_StartTS = 8, wr_Kind = 2\<rparr>"]
  by (simp add: sample_lock_def)

text \<open>
  C20.  On every reader that fulfils the storage contract over well-formed contents, \<open>GetValue\<close>
  returns, without an error, the value a snapshot at the transaction's start timestamp shows: the
  value of the newest put or delete record at or before it, rollback records being passed over.
\<close>

theorem GetValue_reads_snapshot:
  assumes "storage_reader (txn_Reader txn) content iter_on rest" "mvcc_wf content"
  shows "\<exists>v. GetValue txn k = Some (Inr v) \<and> snapshot_value content k (txn_StartTS txn) v"
  by (rule mvcc_reader.GetValue_snapshot [OF mvcc_reader.intro [OF assms(1)
        mvcc_reader_axioms.intro [OF assms(2)]] refl])

theorem GetValue_reads_snapshot_witness:
  "GetValue (sample_txn 8) [97] = Some (Inr (Some [1]))"
proof -
  obtain v where v: "GetValue (sample_txn 8) [97] = Some (Inr v)"
    "snapshot_value sample_content [97] 8 v"
    using GetValue_reads_snapshot [OF sample_reader sample_wf, of 8 "[97]"]
    by (auto simp: sample_txn_def NewTxn_def)
  moreover have "value_at sample_content [97] 3 = Some [1]"
    by (simp add: value_at_def sample_content_eq)
  ultimately show ?thesis
    by (auto simp: snapshot_value_def sample_write_at data_write_def WriteKindPut_def WriteKindDelete_def
        split: if_splits dest: spec [of _ 5])
qed

text \<open>
  C21.  \<open>MostRecentWrite\<close> returns the newest write record of the key whatever its kind, and
  \<open>CurrentWrite\<close> terminates and returns the newest record that the transaction itself left on the
  key, or that there is none.
\<close>

theorem write_searches_exact:
  assumes "storage_reader (txn_Reader txn) content iter_on rest" "mvcc_wf content"
  shows "(\<exists>r. MostRecentWrite txn k = Inr r \<and> newest_write content k TsMax r) \<and>
    (\<exists>r. CurrentWrite txn k = Some (Inr r) \<and> current_write content k (txn_StartTS txn) TsMax r)"
proof -
  have r: "mvcc_reader (txn_Reader txn) content iter_on rest"
    using assms by (intro mvcc_reader.intro mvcc_reader_axioms.intro)
  show ?thesis
    unfolding MostRecentWrite_def
    using mvcc_reader.mostRecentWriteBefore_newest [OF r refl, of k TsMax]
      mvcc_reader.CurrentWrite_current [OF r refl, of k] by blast
qed

theorem write_searches_exact_witness:
  "MostRecentWrite (sample_txn 3) [97] = Inr (Some \<lparr>wr_StartTS = 8, wr_Kind = 2\<rparr>, 9) \<and>
   CurrentWrite (sample_txn 3) [97] = Some (Inr (Some \<lparr>wr_StartTS = 3, wr_Kind = 1\<rparr>, 5))"
proof -
  note E = write_searches_exact [OF sample_reader sample_wf, of 3 "[97]"]
  have start: "txn_StartTS (sample_txn 3) = 3" by (simp add: sample_txn_def NewTxn_def)
  from E obtain r where r: "MostRecentWrite (sample_txn 3) [97] = Inr r"
    "newest_write sample_content [97] TsMax r" by blast
  then have "r = (Some \<lparr>wr_StartTS = 8, wr_Kind = 2\<rparr>, 9)"
    by (cases r; cases "fst r")
      (auto simp: newest_write_def sample_write_at split: if_splits dest: spec [of _ 9])
  moreover from E obtain q where q: "CurrentWrite (sample_txn 3) [97] = Some (Inr q)"
    "current_write sample_content [97] 3 TsMax q" unfolding start by blast
  then have "q = (Some \<lparr>wr_StartTS = 3, wr_Kind = 1\<rparr>, 5)"
    by (cases q; cases "fst q")
      (auto simp: current_write_def sample_write_at split: if_splits dest: spec [of _ 5])
  ultimately show ?thesis using r q by simp
qed

text \<open>
  C22.  \<open>AllLocksForTxn\<close> terminates and returns exactly the locks of the transaction, with their keys
  and in key order.
\<close>

theorem AllLocksForTxn_exact:
  assumes "storage_reader (txn_Reader txn) content iter_on rest" "mvcc_wf content"
  shows "\<exists>kls. AllLocksForTxn txn = Some (Inr kls) \<and> sorted_wrt (<) (map kl_Key kls) \<and>
    (\<forall>k l. \<lparr>kl_Key = k, kl_Lock = l\<rparr> \<in> set kls \<longleftrightarrow>
       lock_at content k = Some l \<and> lock_Ts l = txn_StartTS txn)"
proof -
  have r: "mvcc_reader (txn_Reader txn) content iter_on rest"
    using assms by (intro mvcc_reader.intro mvcc_reader_axioms.intro)
  have "ascending (content CfLock)" using assms(1) by (rule storage_reader.content_ascending)
  then show ?thesis
    using mvcc_reader.AllLocksForTxn_eq [OF r refl] locks_in_set locks_in_sorted by blast
qed

theorem AllLocksForTxn_exact_witness:
  "\<exists>kls. AllLocksForTxn (sample_txn 10) = Some (Inr kls) \<and>
    \<lparr>kl_Key = [98], kl_Lock = sample_lock\<rparr> \<in> set kls"
proof -
  have "lock_at sample_content [98] = Some sample_lock"
    by (simp add: lock_at_def sample_content_eq sample_lock_def)
  moreover have "lock_Ts sample_lock = txn_StartTS (sample_txn 10)"
    by (simp add: sample_lock_def sample_txn_def NewTxn_def)
  ultimately show ?thesis
    using AllLocksForTxn_exact [OF sample_reader sample_wf, of 10] by blast
qed

end
