(* ===== verification/Scanner.thy ===== *)
theory Scanner
  imports Mvcc
begin

text \<open>
  The multi-version scanner of \<^verbatim>\<open>tinykv/kv/transaction/mvcc/scanner.go\<close>: an iterator on the write
  column family and the loop that looks for the next visible key.
\<close>

record 'it Scanner =
  scan_writeIter :: 'it
  scan_txn :: "'it RoTxn"

definition NewScanner :: "bytes \<Rightarrow> 'it RoTxn \<Rightarrow> 'it Scanner" where
  "NewScanner startKey txn =
     (let rd = txn_Reader txn; writeIter = IterCF rd CfWrite in
      \<lparr>scan_writeIter = Seek rd writeIter (EncodeKey startKey TsMax), scan_txn = txn\<rparr>)"

text \<open>
  \<^verbatim>\<open>Next\<close> returns the error or the next pair (\<open>None\<close> at the end of the database), and the scanner
  with its iterator moved.  \<open>None\<close> of the outer option: the search does not end.
\<close>

partial_function (option) Scanner_Next ::
    "'it Scanner \<Rightarrow> ((go_error + (bytes \<times> gobytes) option) \<times> 'it Scanner) option" where
  "Scanner_Next scan =
     (let txn = scan_txn scan; rd = txn_Reader txn; iter = scan_writeIter scan in
      if \<not> Valid rd iter then Some (Inr None, scan)
      else case DecodeUserKey (ItemKey rd iter) of
        Inl e \<Rightarrow> Some (Inl e, scan)
      | Inr userKey \<Rightarrow>
      (case decodeTimestamp (ItemKey rd iter) of
        Inl e \<Rightarrow> Some (Inl e, scan)
      | Inr commitTs \<Rightarrow>
          if commitTs \<ge> txn_StartTS txn
          then Scanner_Next (scan\<lparr>scan_writeIter := Seek rd iter (EncodeKey userKey (commitTs - 1))\<rparr>)
          else case GetLock txn userKey of
            Inl e \<Rightarrow> Some (Inl e, scan)
          | Inr lock \<Rightarrow>
              if (case lock of None \<Rightarrow> False | Some l \<Rightarrow> lock_Ts l < txn_StartTS txn)
              then Some (Inl (ErrKey (emptyKeyError
                     \<lparr>ke_Locked := map_option (\<lambda>l. Lock_Info l userKey) lock\<rparr>)), scan)
              else case ItemValue rd iter of
                Inl e \<Rightarrow> Some (Inl (ErrStorage e), scan)
              | Inr writeValue \<Rightarrow>
              (case ParseWrite writeValue of
                Inl e \<Rightarrow> Some (Inl e, scan)
              | Inr None \<Rightarrow> Some (Inl (Panic ''nil pointer dereference''), scan)
              | Inr (Some write) \<Rightarrow>
                  if wr_Kind write \<noteq> WriteKindPut
                  then Scanner_Next (scan\<lparr>scan_writeIter := Seek rd iter (EncodeKey userKey 0)\<rparr>)
                  else case getValueAt txn userKey (wr_StartTS write) of
                    Inl e \<Rightarrow> Some (Inl e, scan)
                  | Inr val \<Rightarrow>
                      Some (Inr (Some (userKey, val)), scan\<lparr>scan_writeIter := Next rd iter\<rparr>))))"

declare Scanner_Next.simps [code]

end
