(* ===== verification/Latches.thy ===== *)
theory Latches
  imports Go_Prelude
begin

text \<open>
  The latches of \<^verbatim>\<open>tinykv/kv/transaction/latches/latches.go\<close>: a map from latched keys to the wait
  group of the command that holds them.  Wait groups are heap objects; \<open>wg_count\<close> is the counter
  of each and \<open>wg_new\<close> the next free address.  The optional \<^verbatim>\<open>Validation\<close> hook is \<^verbatim>\<open>nil\<close> outside of
  tests and has no effect on the state.
\<close>

record Latches =
  latchMap :: "bytes \<Rightarrow> nat option"
  wg_count :: "nat \<Rightarrow> nat"
  wg_new :: nat

definition NewLatches :: Latches where
  "NewLatches = \<lparr>latchMap = (\<lambda>_. None), wg_count = (\<lambda>_. 0), wg_new = 0\<rparr>"

text \<open>
  \<^verbatim>\<open>AcquireLatches\<close>: the wait group of the first key that is taken, or all keys are taken with a
  new wait group and the result is \<^verbatim>\<open>nil\<close>.
\<close>

fun first_latched :: "Latches \<Rightarrow> bytes list \<Rightarrow> nat option" where
  "first_latched l [] = None"
| "first_latched l (key # keys) =
     (case latchMap l key of Some latchWg \<Rightarrow> Some latchWg | None \<Rightarrow> first_latched l keys)"

definition AcquireLatches :: "Latches \<Rightarrow> bytes list \<Rightarrow> nat option \<times> Latches" where
  "AcquireLatches l keysToLatch =
     (case first_latched l keysToLatch of
        Some latchWg \<Rightarrow> (Some latchWg, l)
      | None \<Rightarrow>
          let wg = wg_new l in
          (None, l\<lparr>latchMap := fold (\<lambda>key m. m(key \<mapsto> wg)) keysToLatch (latchMap l),
                   wg_count := (wg_count l)(wg := 1), wg_new := wg + 1\<rparr>))"

text \<open>
  \<^verbatim>\<open>ReleaseLatches\<close>: the wait group of the first key is done, every key is deleted.  \<open>None\<close>: a
  panic, on a key that is not latched or a counter that drops below zero.
\<close>

definition ReleaseLatches :: "Latches \<Rightarrow> bytes list \<Rightarrow> Latches option" where
  "ReleaseLatches l keysToUnlatch =
     (let released = fold (\<lambda>key m. m(key := None)) keysToUnlatch (latchMap l) in
      case keysToUnlatch of
        [] \<Rightarrow> Some l
      | key # _ \<Rightarrow>
          (case latchMap l key of
             None \<Rightarrow> None
           | Some wg \<Rightarrow>
               if wg_count l wg = 0 then None
               else Some (l\<lparr>latchMap := released, wg_count := (wg_count l)(wg := wg_count l wg - 1)\<rparr>)))"

text \<open>
  \<^verbatim>\<open>WaitForLatches\<close> when no other command runs: it returns with the latches, goes round the loop
  if the wait group it found is done, and waits for ever (\<open>None\<close>) otherwise.
\<close>

partial_function (option) WaitForLatches :: "Latches \<Rightarrow> bytes list \<Rightarrow> Latches option" where
  "WaitForLatches l keysToLatch =
     (case AcquireLatches l keysToLatch of
        (None, l') \<Rightarrow> Some l'
      | (Some wg, l') \<Rightarrow> if wg_count l' wg = 0 then WaitForLatches l' keysToLatch else None)"

declare WaitForLatches.simps [code]

subsection \<open>What the operations do\<close>

lemma first_latched_None: "first_latched l keys = None \<longleftrightarrow> (\<forall>k\<in>set keys. latchMap l k = None)"
  by (induction keys) (auto split: option.splits)

lemma first_latched_Some: "first_latched l keys = Some wg \<Longrightarrow> \<exists>k\<in>set keys. latchMap l k = Some wg"
  by (induction keys) (auto split: option.splits)

lemma fold_latch: "fold (\<lambda>key m. m(key \<mapsto> wg)) keys m k = (if k \<in> set keys then Some wg else m k)"
  by (induction keys arbitrary: m) auto

lemma fold_unlatch: "fold (\<lambda>key m. m(key := None)) keys m k = (if k \<in> set keys then None else m k)"
  by (induction keys arbitrary: m) auto

text \<open>A set of commands holding latches: who holds which keys, with which wait group.\<close>

definition latches_inv :: "Latches \<Rightarrow> ('i \<Rightarrow> (bytes list \<times> nat) option) \<Rightarrow> bool" where
  "latches_inv l held \<longleftrightarrow>
     (\<forall>i keys wg. held i = Some (keys, wg) \<longrightarrow>
        wg < wg_new l \<and> wg_count l wg = 1 \<and> (\<forall>k\<in>set keys. latchMap l k = Some wg)) \<and>
     (\<forall>i j keys wg keys' wg'. held i = Some (keys, wg) \<and> held j = Some (keys', wg') \<and> i \<noteq> j \<longrightarrow> wg \<noteq> wg') \<and>
     (\<forall>k wg. latchMap l k = Some wg \<longrightarrow> (\<exists>i keys. held i = Some (keys, wg) \<and> k \<in> set keys))"

lemma latches_inv_exclusive:
  "latches_inv l held \<Longrightarrow> held i = Some (keys, wg) \<Longrightarrow> held j = Some (keys', wg') \<Longrightarrow> i \<noteq> j \<Longrightarrow>
    set keys \<inter> set keys' = {}"
  unfolding latches_inv_def by (metis disjoint_iff option.inject)

lemma latches_inv_new: "latches_inv NewLatches (\<lambda>_. None)"
  by (simp add: latches_inv_def NewLatches_def)

lemma AcquireLatches_inv:
  assumes inv: "latches_inv l held" and acq: "AcquireLatches l keys = (None, l')" and i: "held i = None"
  shows "latches_inv l' (held(i \<mapsto> (keys, wg_new l)))"
proof -
  have free: "\<forall>k\<in>set keys. latchMap l k = None"
    and l': "l' = l\<lparr>latchMap := fold (\<lambda>key m. m(key \<mapsto> wg_new l)) keys (latchMap l),
                   wg_count := (wg_count l)(wg_new l := 1), wg_new := wg_new l + 1\<rparr>"
    using acq by (auto simp: AcquireLatches_def first_latched_None [symmetric] Let_def split: option.splits)
  have fresh: "wg \<noteq> wg_new l" if "held j = Some (ks, wg)" for j ks wg
    using inv that by (auto simp: latches_inv_def)
  show ?thesis
    unfolding latches_inv_def
  proof (intro conjI allI impI)
    fix j ks wg
    assume h: "(held(i \<mapsto> (keys, wg_new l))) j = Some (ks, wg)"
    show "wg < wg_new l'" "wg_count l' wg = 1" "\<forall>k\<in>set ks. latchMap l' k = Some wg"
      using h inv free fresh
      by (auto simp: l' fold_latch latches_inv_def split: if_splits) fastforce+
  next
    fix a b ks wg ks' wg'
    assume "(held(i \<mapsto> (keys, wg_new l))) a = Some (ks, wg) \<and>
      (held(i \<mapsto> (keys, wg_new l))) b = Some (ks', wg') \<and> a \<noteq> b"
    then show "wg \<noteq> wg'"
      using inv fresh unfolding latches_inv_def by (auto split: if_splits)
  next
    fix k wg
    assume "latchMap l' k = Some wg"
    then show "\<exists>j ks. (held(i \<mapsto> (keys, wg_new l))) j = Some (ks, wg) \<and> k \<in> set ks"
      using inv i unfolding latches_inv_def l' by (auto simp: fold_latch split: if_splits) (metis option.distinct(1))
  qed
qed

lemma ReleaseLatches_inv:
  assumes inv: "latches_inv l held" and i: "held i = Some (keys, wg)"
  shows "\<exists>l'. ReleaseLatches l keys = Some l' \<and> latches_inv l' (held(i := None))"
proof (cases keys)
  case Nil
  then show ?thesis
    using inv i by (auto simp: ReleaseLatches_def latches_inv_def) (metis empty_iff empty_set option.inject prod.inject)
next
  case (Cons key keys')
  have wg: "wg_count l wg = 1" "\<forall>k\<in>set keys. latchMap l k = Some wg"
    using inv i by (auto simp: latches_inv_def)
  have other: "wg' \<noteq> wg" "set ks \<inter> set keys = {}" if "held j = Some (ks, wg')" "j \<noteq> i" for j ks wg'
    using inv i that latches_inv_exclusive [OF inv that(1) i that(2)] unfolding latches_inv_def by blast+
  define l' where "l' = l\<lparr>latchMap := fold (\<lambda>key m. m(key := None)) keys (latchMap l),
    wg_count := (wg_count l)(wg := 0)\<rparr>"
  have "ReleaseLatches l keys = Some l'"
    using wg by (simp add: ReleaseLatches_def Cons l'_def)
  moreover have "latches_inv l' (held(i := None))"
    unfolding latches_inv_def
  proof (intro conjI allI impI)
    fix j ks wg'
    assume "(held(i := None)) j = Some (ks, wg')"
    then show "wg' < wg_new l'" "wg_count l' wg' = 1" "\<forall>k\<in>set ks. latchMap l' k = Some wg'"
      using inv other [of j ks wg'] by (auto simp: l'_def fold_unlatch latches_inv_def split: if_splits)
  next
    fix a b ks wg1 ks' wg2
    assume "(held(i := None)) a = Some (ks, wg1) \<and> (held(i := None)) b = Some (ks', wg2) \<and> a \<noteq> b"
    then show "wg1 \<noteq> wg2" using inv unfolding latches_inv_def by (auto split: if_splits)
  next
    fix k wg'
    assume k: "latchMap l' k = Some wg'"
    then have "k \<notin> set keys" "latchMap l k = Some wg'" by (auto simp: l'_def fold_unlatch split: if_splits)
    with inv obtain j ks where "held j = Some (ks, wg')" "k \<in> set ks" unfolding latches_inv_def by blast
    with i \<open>k \<notin> set keys\<close> show "\<exists>j ks. (held(i := None)) j = Some (ks, wg') \<and> k \<in> set ks"
      by (intro exI [of _ j]) auto
  qed
  ultimately show ?thesis by blast
qed

end
