(* ===== verification/Commands.thy ===== *)
theory Commands
  imports Scanner Latches
begin

text \<open>
  The transactional commands of \<^verbatim>\<open>tinykv/kv/transaction/commands\<close>: the requests and responses of
  the protocol, the \<^verbatim>\<open>Read\<close> and \<^verbatim>\<open>PrepareWrites\<close> methods of each command, and \<^verbatim>\<open>RunCommand\<close>.
  A repeated field that is absent from the request is \<^verbatim>\<open>nil\<close> and therefore an option of a list.
\<close>

subsection \<open>Requests and responses\<close>

record GetRequest =
  get_Key :: bytes
  get_Version :: u64

record GetResponse =
  gr_Error :: "KeyError option"
  gr_Value :: gobytes
  gr_NotFound :: bool

record ScanRequest =
  scan_StartKey :: bytes
  scan_Limit :: "32 word"
  scan_Version :: u64

record KvPair =
  kp_Error :: "KeyError option"
  kp_Key :: gobytes
  kp_Value :: gobytes

record Mutation =
  mut_Op :: Op
  mut_Key :: bytes
  mut_Value :: gobytes

record PrewriteRequest =
  pw_Mutations :: "Mutation list"
  pw_PrimaryLock :: bytes
  pw_StartVersion :: u64
  pw_LockTtl :: u64

record CommitRequest =
  cm_StartVersion :: u64
  cm_Keys :: "bytes list option"
  cm_CommitVersion :: u64

record BatchRollbackRequest =
  rb_StartVersion :: u64
  rb_Keys :: "bytes list option"

record ResolveLockRequest =
  rl_StartVersion :: u64
  rl_CommitVersion :: u64

record CheckTxnStatusRequest =
  ct_PrimaryKey :: bytes
  ct_LockTs :: u64
  ct_CurrentTs :: u64

datatype Action = NoAction | TTLExpireRollback | LockNotExistRollback

record CheckTxnStatusResponse =
  cr_LockTtl :: u64
  cr_CommitVersion :: u64
  cr_Action :: Action

text \<open>The value of type \<^verbatim>\<open>interface{}\<close> a command returns; \<open>RespNil\<close> is \<^verbatim>\<open>nil\<close>.\<close>

datatype Response =
    RespNil
  | RespGet GetResponse
  | RespScan "KvPair list"
  | RespPrewrite "KeyError list"
  | RespCommit "KeyError option"
  | RespRollback "KeyError option"
  | RespResolveLock "KeyError option"
  | RespCheckTxnStatus CheckTxnStatusResponse

subsection \<open>Get\<close>

text \<open>
  The value the source logs aside, \<^verbatim>\<open>Get.Read\<close>: a lock that blocks the read is reported in the
  response, otherwise the value of the snapshot.
\<close>

definition Get_Read :: "GetRequest \<Rightarrow> ('it, 'x) RoTxn_scheme \<Rightarrow> (go_error + Response) option" where
  "Get_Read req txn =
     (let key = get_Key req in
      case GetLock txn key of
        Inl e \<Rightarrow> Some (Inl e)
      | Inr lock \<Rightarrow>
          (case Lock_IsLockedFor lock key (get_Version req) of
             Some ke \<Rightarrow>
               Some (Inr (RespGet \<lparr>gr_Error = Some (ke\<lparr>ke_Locked := map_option (\<lambda>l. Lock_Info l key) lock\<rparr>),
                                   gr_Value = None, gr_NotFound = False\<rparr>))
           | None \<Rightarrow>
               (case GetValue txn key of
                  None \<Rightarrow> None
                | Some (Inl e) \<Rightarrow> Some (Inl e)
                | Some (Inr value) \<Rightarrow>
                    Some (Inr (RespGet \<lparr>gr_Error = None, gr_Value = value, gr_NotFound = (value = None)\<rparr>)))))"

subsection \<open>Scan\<close>

function Scan_loop :: "32 word \<Rightarrow> 'it Scanner \<Rightarrow> KvPair list \<Rightarrow> (go_error + KvPair list) option" where
  "Scan_loop limit scanner pairs =
     (if limit = 0 then Some (Inr pairs)
      else case Scanner_Next scanner of
        None \<Rightarrow> None
      | Some (Inl (ErrKey ke), scanner') \<Rightarrow>
          Scan_loop (limit - 1) scanner' (pairs @ [\<lparr>kp_Error = Some ke, kp_Key = None, kp_Value = None\<rparr>])
      | Some (Inl e, scanner') \<Rightarrow> Some (Inl e)
      | Some (Inr None, scanner') \<Rightarrow> Some (Inr pairs)
      | Some (Inr (Some (key, value)), scanner') \<Rightarrow>
          Scan_loop (limit - 1) scanner' (pairs @ [\<lparr>kp_Error = None, kp_Key = Some key, kp_Value = value\<rparr>]))"
  by pat_completeness auto
termination
  by (relation "measure (\<lambda>(limit, _). unat limit)")
    (auto simp: unat_gt_0 intro: measure_unat)

declare Scan_loop.simps [simp del]

definition Scan_Read :: "ScanRequest \<Rightarrow> 'it RoTxn \<Rightarrow> (go_error + Response) option" where
  "Scan_Read req txn =
     (case Scan_loop (scan_Limit req) (NewScanner (scan_StartKey req) txn) [] of
        None \<Rightarrow> None
      | Some (Inl e) \<Rightarrow> Some (Inl e)
      | Some (Inr pairs) \<Rightarrow> Some (Inr (RespScan pairs)))"

subsection \<open>Prewrite\<close>

text \<open>
  \<^verbatim>\<open>prewriteMutation\<close>: \<open>Inl\<close> is an internal error, \<open>Inr (Some ke, txn)\<close> a key error and
  \<open>Inr (None, txn')\<close> a transaction with the lock and the value added.
\<close>

definition prewriteMutation ::
    "PrewriteRequest \<Rightarrow> 'it MvccTxn \<Rightarrow> Mutation \<Rightarrow> go_error + KeyError option \<times> 'it MvccTxn" where
  "prewriteMutation req txn mut =
     (let key = mut_Key mut in
      case MostRecentWrite txn key of
        Inl e \<Rightarrow> Inl e
      | Inr (write, commitTs) \<Rightarrow>
          if write \<noteq> None \<and> commitTs \<ge> txn_StartTS txn
          then Inr (Some (emptyKeyError\<lparr>ke_Conflict :=
                 Some \<lparr>wc_Key = key, wc_StartTs = txn_StartTS txn, wc_Primary = pw_PrimaryLock req,
                       wc_ConflictTs = commitTs\<rparr>\<rparr>), txn)
          else case GetLock txn key of
            Inl e \<Rightarrow> Inl e
          | Inr keyLock \<Rightarrow>
              (case (case keyLock of None \<Rightarrow> None
                                   | Some l \<Rightarrow> if lock_Ts l \<noteq> txn_StartTS txn then Some l else None) of
                 Some l \<Rightarrow>
                   Inr (Some (emptyKeyError\<lparr>ke_Locked := Some (Lock_Info l key), ke_Conflict :=
                     Some \<lparr>wc_Key = key, wc_StartTs = txn_StartTS txn, wc_Primary = pw_PrimaryLock req,
                           wc_ConflictTs = lock_Ts l\<rparr>\<rparr>), txn)
               | None \<Rightarrow>
                   let txn1 = PutLock txn key \<lparr>lock_Primary = pw_PrimaryLock req, lock_Ts = txn_StartTS txn,
                         lock_Ttl = pw_LockTtl req, lock_Kind = int32 (mut_Op mut + 1)\<rparr> in
                   Inr (None,
                     if mut_Op mut = Op_Put then PutValue txn1 key (mut_Value mut)
                     else if mut_Op mut = Op_Del then DeleteValue txn1 key
                     else txn1)))"

fun Prewrite_loop ::
    "PrewriteRequest \<Rightarrow> 'it MvccTxn \<Rightarrow> Mutation list \<Rightarrow> KeyError list \<Rightarrow> go_error + KeyError list \<times> 'it MvccTxn" where
  "Prewrite_loop req txn [] errs = Inr (errs, txn)"
| "Prewrite_loop req txn (m # ms) errs =
     (case prewriteMutation req txn m of
        Inl e \<Rightarrow> Inl e
      | Inr (Some keyError, txn') \<Rightarrow> Prewrite_loop req txn' ms (errs @ [keyError])
      | Inr (None, txn') \<Rightarrow> Prewrite_loop req txn' ms errs)"

definition Prewrite_PrepareWrites ::
    "PrewriteRequest \<Rightarrow> 'it MvccTxn \<Rightarrow> (go_error + Response \<times> 'it MvccTxn) option" where
  "Prewrite_PrepareWrites req txn =
     (case Prewrite_loop req txn (pw_Mutations req) [] of
        Inl e \<Rightarrow> Some (Inl e)
      | Inr (errs, txn') \<Rightarrow> Some (Inr (RespPrewrite errs, txn')))"

definition Prewrite_WillWrite :: "PrewriteRequest \<Rightarrow> bytes list option" where
  "Prewrite_WillWrite req = Some (map mut_Key (pw_Mutations req))"

subsection \<open>Commit\<close>

text \<open>
  \<^verbatim>\<open>commitKey\<close> and \<^verbatim>\<open>rollbackKey\<close> store a key error in the \<^verbatim>\<open>Error\<close> field of the response they are
  given and return that response; here they return the key error.
\<close>

definition commitKey ::
    "bytes \<Rightarrow> u64 \<Rightarrow> 'it MvccTxn \<Rightarrow> (go_error + KeyError option \<times> 'it MvccTxn) option" where
  "commitKey key commitTs txn =
     (case GetLock txn key of
        Inl e \<Rightarrow> Some (Inl e)
      | Inr lock \<Rightarrow>
          (case (case lock of None \<Rightarrow> None
                            | Some l \<Rightarrow> if lock_Ts l \<noteq> txn_StartTS txn then None else Some l) of
             None \<Rightarrow>
               (case CurrentWrite txn key of
                  None \<Rightarrow> None
                | Some (Inl e) \<Rightarrow> Some (Inl e)
                | Some (Inr (write, _)) \<Rightarrow>
                    (case write of
                       None \<Rightarrow>
                         Some (Inr (Some (emptyKeyError\<lparr>ke_Retryable :=
                           ''lock not found for key '' @ fmt_bytes key\<rparr>), txn))
                     | Some w \<Rightarrow>
                         if wr_Kind w = WriteKindRollback
                         then Some (Inr (Some (emptyKeyError\<lparr>ke_Retryable :=
                           ''lock not found for key '' @ fmt_bytes key\<rparr>), txn))
                         else Some (Inr (None, txn))))
           | Some l \<Rightarrow>
               let write = \<lparr>wr_StartTS = txn_StartTS txn, wr_Kind = lock_Kind l\<rparr> in
               Some (Inr (None, DeleteLock (PutWrite txn key commitTs write) key))))"

fun Commit_loop ::
    "bytes list \<Rightarrow> u64 \<Rightarrow> 'it MvccTxn \<Rightarrow> (go_error + KeyError option \<times> 'it MvccTxn) option" where
  "Commit_loop [] commitTs txn = Some (Inr (None, txn))"
| "Commit_loop (k # ks) commitTs txn =
     (case commitKey k commitTs txn of
        None \<Rightarrow> None
      | Some (Inl e) \<Rightarrow> Some (Inl e)
      | Some (Inr (Some ke, txn')) \<Rightarrow> Some (Inr (Some ke, txn'))
      | Some (Inr (None, txn')) \<Rightarrow> Commit_loop ks commitTs txn')"

text \<open>
  An invalid commit timestamp is an error with an empty text; the response built with it is dropped
  by \<^verbatim>\<open>RunCommand\<close>, as for every error.
\<close>

definition Commit_PrepareWrites ::
    "CommitRequest \<Rightarrow> 'it MvccTxn \<Rightarrow> (go_error + Response \<times> 'it MvccTxn) option" where
  "Commit_PrepareWrites req txn =
     (let commitTs = cm_CommitVersion req in
      if commitTs \<le> txn_StartTS txn then Some (Inl (ErrText ''''))
      else case Commit_loop (case cm_Keys req of None \<Rightarrow> [] | Some ks \<Rightarrow> ks) commitTs txn of
        None \<Rightarrow> None
      | Some (Inl e) \<Rightarrow> Some (Inl e)
      | Some (Inr (ke, txn')) \<Rightarrow> Some (Inr (RespCommit ke, txn')))"

subsection \<open>Rollback\<close>

definition rollbackKey ::
    "bytes \<Rightarrow> 'it MvccTxn \<Rightarrow> (go_error + KeyError option \<times> 'it MvccTxn) option" where
  "rollbackKey key txn =
     (let rollback = \<lparr>wr_StartTS = txn_StartTS txn, wr_Kind = WriteKindRollback\<rparr> in
      case GetLock txn key of
        Inl e \<Rightarrow> Some (Inl e)
      | Inr lock \<Rightarrow>
          (case (case lock of None \<Rightarrow> None
                            | Some l \<Rightarrow> if lock_Ts l \<noteq> txn_StartTS txn then None else Some l) of
             None \<Rightarrow>
               (case CurrentWrite txn key of
                  None \<Rightarrow> None
                | Some (Inl e) \<Rightarrow> Some (Inl e)
                | Some (Inr (None, ts)) \<Rightarrow> Some (Inr (None, PutWrite txn key (txn_StartTS txn) rollback))
                | Some (Inr (Some existingWrite, ts)) \<Rightarrow>
                    if wr_Kind existingWrite = WriteKindRollback then Some (Inr (None, txn))
                    else Some (Inr (Some (emptyKeyError\<lparr>ke_Abort :=
                      ''key has already been committed: '' @ fmt_bytes key @ '' at '' @ fmt_nat (unat ts)\<rparr>), txn)))
           | Some l \<Rightarrow>
               let txn1 = (if lock_Kind l = WriteKindPut then DeleteValue txn key else txn) in
               Some (Inr (None, DeleteLock (PutWrite txn1 key (txn_StartTS txn) rollback) key))))"

fun Rollback_loop ::
    "bytes list \<Rightarrow> 'it MvccTxn \<Rightarrow> (go_error + KeyError option \<times> 'it MvccTxn) option" where
  "Rollback_loop [] txn = Some (Inr (None, txn))"
| "Rollback_loop (k # ks) txn =
     (case rollbackKey k txn of
        None \<Rightarrow> None
      | Some (Inl e) \<Rightarrow> Some (Inl e)
      | Some (Inr (Some ke, txn')) \<Rightarrow> Some (Inr (Some ke, txn'))
      | Some (Inr (None, txn')) \<Rightarrow> Rollback_loop ks txn')"

definition Rollback_PrepareWrites ::
    "BatchRollbackRequest \<Rightarrow> 'it MvccTxn \<Rightarrow> (go_error + Response \<times> 'it MvccTxn) option" where
  "Rollback_PrepareWrites req txn =
     (case Rollback_loop (case rb_Keys req of None \<Rightarrow> [] | Some ks \<Rightarrow> ks) txn of
        None \<Rightarrow> None
      | Some (Inl e) \<Rightarrow> Some (Inl e)
      | Some (Inr (ke, txn')) \<Rightarrow> Some (Inr (RespRollback ke, txn')))"

subsection \<open>ResolveLock\<close>

text \<open>
  \<^verbatim>\<open>ResolveLock.Read\<close> collects the locks of the transaction; \<^verbatim>\<open>PrepareWrites\<close> commits or rolls back
  each of their keys.  A key error stays in the response, the last one wins.
\<close>

definition ResolveLock_Read ::
    "ResolveLockRequest \<Rightarrow> ('it, 'x) RoTxn_scheme \<Rightarrow> (go_error + bytes list \<times> KlPair list) option" where
  "ResolveLock_Read req txn =
     (case AllLocksForTxn (txn\<lparr>txn_StartTS := rl_StartVersion req\<rparr>) of
        None \<Rightarrow> None
      | Some (Inl e) \<Rightarrow> Some (Inl e)
      | Some (Inr keyLocks) \<Rightarrow> Some (Inr (map kl_Key keyLocks, keyLocks)))"

fun ResolveLock_loop ::
    "ResolveLockRequest \<Rightarrow> KlPair list \<Rightarrow> KeyError option \<Rightarrow> 'it MvccTxn \<Rightarrow>
     (go_error + KeyError option \<times> 'it MvccTxn) option" where
  "ResolveLock_loop req [] err txn = Some (Inr (err, txn))"
| "ResolveLock_loop req (kl # kls) err txn =
     (case (if lock_Ts (kl_Lock kl) \<le> rl_CommitVersion req \<and> rl_StartVersion req \<le> lock_Ts (kl_Lock kl)
            then commitKey (kl_Key kl) (rl_CommitVersion req) txn
            else rollbackKey (kl_Key kl) txn) of
        None \<Rightarrow> None
      | Some (Inl e) \<Rightarrow> Some (Inl e)
      | Some (Inr (ke, txn')) \<Rightarrow>
          ResolveLock_loop req kls (case ke of None \<Rightarrow> err | Some e \<Rightarrow> Some e) txn')"

definition ResolveLock_PrepareWrites ::
    "ResolveLockRequest \<Rightarrow> KlPair list \<Rightarrow> 'it MvccTxn \<Rightarrow> (go_error + Response \<times> 'it MvccTxn) option" where
  "ResolveLock_PrepareWrites req keyLocks txn =
     (case ResolveLock_loop req keyLocks None txn of
        None \<Rightarrow> None
      | Some (Inl e) \<Rightarrow> Some (Inl e)
      | Some (Inr (ke, txn')) \<Rightarrow> Some (Inr (RespResolveLock ke, txn')))"

subsection \<open>CheckTxnStatus\<close>

definition PhysicalShiftBits :: nat where
  "PhysicalShiftBits = 18"

definition physical :: "u64 \<Rightarrow> u64" where
  "physical ts = drop_bit PhysicalShiftBits ts"

definition CheckTxnStatus_PrepareWrites ::
    "CheckTxnStatusRequest \<Rightarrow> 'it MvccTxn \<Rightarrow> (go_error + Response \<times> 'it MvccTxn) option" where
  "CheckTxnStatus_PrepareWrites req txn =
     (let key = ct_PrimaryKey req;
          response = \<lparr>cr_LockTtl = 0, cr_CommitVersion = 0, cr_Action = NoAction\<rparr> in
      case GetLock txn key of
        Inl e \<Rightarrow> Some (Inl e)
      | Inr lock \<Rightarrow>
          (case (case lock of None \<Rightarrow> None
                            | Some l \<Rightarrow> if lock_Ts l = txn_StartTS txn then Some l else None) of
             Some l \<Rightarrow>
               if physical (lock_Ts l) + lock_Ttl l < physical (ct_CurrentTs req)
               then let txn1 = PutWrite txn key (lock_Ts l) \<lparr>wr_StartTS = lock_Ts l, wr_Kind = WriteKindRollback\<rparr>;
                        txn2 = (if lock_Kind l = WriteKindPut then DeleteValue txn1 key else txn1) in
                    Some (Inr (RespCheckTxnStatus (response\<lparr>cr_Action := TTLExpireRollback\<rparr>), DeleteLock txn2 key))
               else Some (Inr (RespCheckTxnStatus (response\<lparr>cr_LockTtl := lock_Ttl l\<rparr>), txn))
           | None \<Rightarrow>
               (case CurrentWrite txn key of
                  None \<Rightarrow> None
                | Some (Inl e) \<Rightarrow> Some (Inl e)
                | Some (Inr (None, _)) \<Rightarrow>
                    Some (Inr (RespCheckTxnStatus (response\<lparr>cr_Action := LockNotExistRollback\<rparr>),
                      PutWrite txn key (txn_StartTS txn)
                        \<lparr>wr_StartTS = txn_StartTS txn, wr_Kind = WriteKindRollback\<rparr>))
                | Some (Inr (Some existingWrite, commitTs)) \<Rightarrow>
                    if wr_Kind existingWrite = WriteKindRollback
                    then Some (Inr (RespCheckTxnStatus response, txn))
                    else Some (Inr (RespCheckTxnStatus (response\<lparr>cr_CommitVersion := commitTs\<rparr>), txn)))))"

subsection \<open>Commands and RunCommand\<close>

text \<open>The types that implement the \<^verbatim>\<open>Command\<close> interface; \<^verbatim>\<open>ResolveLock\<close> carries its \<^verbatim>\<open>keyLocks\<close>.\<close>

datatype Command =
    Get GetRequest
  | Scan ScanRequest
  | Prewrite PrewriteRequest
  | Commit CommitRequest
  | Rollback BatchRollbackRequest
  | ResolveLock ResolveLockRequest "KlPair list"
  | CheckTxnStatus CheckTxnStatusRequest

fun StartTs :: "Command \<Rightarrow> u64" where
  "StartTs (Get req) = get_Version req"
| "StartTs (Scan req) = scan_Version req"
| "StartTs (Prewrite req) = pw_StartVersion req"
| "StartTs (Commit req) = cm_StartVersion req"
| "StartTs (Rollback req) = rb_StartVersion req"
| "StartTs (ResolveLock req _) = rl_StartVersion req"
| "StartTs (CheckTxnStatus req) = ct_LockTs req"

fun WillWrite :: "Command \<Rightarrow> bytes list option" where
  "WillWrite (Get req) = None"
| "WillWrite (Scan req) = None"
| "WillWrite (Prewrite req) = Prewrite_WillWrite req"
| "WillWrite (Commit req) = cm_Keys req"
| "WillWrite (Rollback req) = rb_Keys req"
| "WillWrite (ResolveLock req _) = None"
| "WillWrite (CheckTxnStatus req) = Some [ct_PrimaryKey req]"

text \<open>\<^verbatim>\<open>Read\<close>: the response, the keys the command wants to write (if any), and the command itself.\<close>

fun Read :: "Command \<Rightarrow> 'it RoTxn \<Rightarrow> (go_error + Response \<times> bytes list option \<times> Command) option" where
  "Read (Get req) txn =
     (case Get_Read req txn of
        None \<Rightarrow> None | Some (Inl e) \<Rightarrow> Some (Inl e) | Some (Inr r) \<Rightarrow> Some (Inr (r, None, Get req)))"
| "Read (Scan req) txn =
     (case Scan_Read req txn of
        None \<Rightarrow> None | Some (Inl e) \<Rightarrow> Some (Inl e) | Some (Inr r) \<Rightarrow> Some (Inr (r, None, Scan req)))"
| "Read (ResolveLock req kls) txn =
     (case ResolveLock_Read req txn of
        None \<Rightarrow> None
      | Some (Inl e) \<Rightarrow> Some (Inl e)
      | Some (Inr (keys, kls')) \<Rightarrow> Some (Inr (RespNil, Some keys, ResolveLock req kls')))"
| "Read cmd txn = Some (Inr (RespNil, None, cmd))"

fun PrepareWrites :: "Command \<Rightarrow> 'it MvccTxn \<Rightarrow> (go_error + Response \<times> 'it MvccTxn) option" where
  "PrepareWrites (Prewrite req) txn = Prewrite_PrepareWrites req txn"
| "PrepareWrites (Commit req) txn = Commit_PrepareWrites req txn"
| "PrepareWrites (Rollback req) txn = Rollback_PrepareWrites req txn"
| "PrepareWrites (ResolveLock req kls) txn = ResolveLock_PrepareWrites req kls txn"
| "PrepareWrites (CheckTxnStatus req) txn = CheckTxnStatus_PrepareWrites req txn"
| "PrepareWrites cmd txn = Some (Inr (RespNil, txn))"

text \<open>
  \<^verbatim>\<open>RunCommand\<close> in the two halves of its body.  \<open>RunCommand_read\<close> finds the keys to write;
  \<open>RunCommand_write\<close> takes the latches, prepares the writes on a fresh reader, writes them and
  releases the latches (the deferred call) whatever the outcome.  \<open>None\<close>: does not return, or
  a panic in the latches.
\<close>

definition RunCommand_read ::
    "('s, 'it) Storage \<Rightarrow> Command \<Rightarrow> 's \<Rightarrow> (go_error + Response \<times> bytes list option \<times> Command) option" where
  "RunCommand_read st cmd s =
     (case WillWrite cmd of
        Some keys \<Rightarrow> Some (Inr (RespNil, Some keys, cmd))
      | None \<Rightarrow>
          (case Reader st s of
             Inl e \<Rightarrow> Some (Inl (ErrStorage e))
           | Inr reader \<Rightarrow> Read cmd \<lparr>txn_Reader = reader, txn_StartTS = StartTs cmd\<rparr>))"

definition RunCommand_write ::
    "('s, 'it) Storage \<Rightarrow> Command \<Rightarrow> 's \<Rightarrow> ((go_error + Response) \<times> 's) option" where
  "RunCommand_write st cmd s =
     (case Reader st s of
        Inl e \<Rightarrow> Some (Inl (ErrStorage e), s)
      | Inr reader \<Rightarrow>
          (case PrepareWrites cmd (NewTxn reader (StartTs cmd)) of
             None \<Rightarrow> None
           | Some (Inl e) \<Rightarrow> Some (Inl e, s)
           | Some (Inr (resp, txn)) \<Rightarrow>
               (case WriteBatch st s (txn_writes txn) of
                  Inl e \<Rightarrow> Some (Inl (ErrStorage e), s)
                | Inr s' \<Rightarrow> Some (Inr resp, s'))))"

definition RunCommand ::
    "Command \<Rightarrow> ('s, 'it) Storage \<Rightarrow> 's \<Rightarrow> Latches \<Rightarrow> ((go_error + Response) \<times> 's \<times> Latches) option" where
  "RunCommand cmd st s latches =
     (case RunCommand_read st cmd s of
        None \<Rightarrow> None
      | Some (Inl e) \<Rightarrow> Some (Inl e, s, latches)
      | Some (Inr (resp, None, _)) \<Rightarrow> Some (Inr resp, s, latches)
      | Some (Inr (_, Some keysToWrite, cmd')) \<Rightarrow>
          (case WaitForLatches latches keysToWrite of
             None \<Rightarrow> None
           | Some latches1 \<Rightarrow>
               (case RunCommand_write st cmd' s of
                  None \<Rightarrow> None
                | Some (result, s') \<Rightarrow>
                    (case ReleaseLatches latches1 keysToWrite of
                       None \<Rightarrow> None
                     | Some latches2 \<Rightarrow> Some (result, s', latches2)))))"

end
