(* ===== verification/Txn_Spec.thy ===== *)
theory Txn_Spec
  imports Commands
begin

text \<open>
  What the commands do to the multi-version store.  The contents of the column families are read
  as one \<open>View\<close> per user key; each command is characterised by the update it makes on the views of
  the keys it names.
\<close>

subsection \<open>Views\<close>

record View =
  vw_lock :: "Lock option"
  vw_writes :: "u64 \<Rightarrow> Write option"
  vw_values :: "u64 \<Rightarrow> gobytes option"

definition view_of :: "(string \<Rightarrow> cf_content) \<Rightarrow> bytes \<Rightarrow> View" where
  "view_of c k =
     \<lparr>vw_lock = lock_at c k, vw_writes = write_at c k,
      vw_values = (\<lambda>ts. map_of (c CfDefault) (EncodeKey k ts))\<rparr>"

lemma view_of_simps [simp]:
  "vw_lock (view_of c k) = lock_at c k" "vw_writes (view_of c k) = write_at c k"
  "vw_values (view_of c k) ts = map_of (c CfDefault) (EncodeKey k ts)"
  by (simp_all add: view_of_def)

definition content_ok :: "(string \<Rightarrow> cf_content) \<Rightarrow> bool" where
  "content_ok c \<longleftrightarrow> (\<forall>cf. ascending (c cf)) \<and> mvcc_wf c"

lemma content_okD: "content_ok c \<Longrightarrow> ascending (c cf)" "content_ok c \<Longrightarrow> mvcc_wf c"
  by (simp_all add: content_ok_def)

text \<open>The five primitive modifications a transaction collects, as updates of one view.\<close>

named_theorems modify_view

lemma CFs_mem [simp]: "CfDefault \<in> set CFs" "CfLock \<in> set CFs" "CfWrite \<in> set CFs"
  by (simp_all add: CFs_def)

lemma view_put_write [modify_view]:
  fixes k :: bytes and ts :: u64
  assumes ok: "content_ok c" and w: "0 \<le> wr_Kind w" "wr_Kind w < 256"
  defines "c' \<equiv> apply_modify (Put (EncodeKey k ts) (Some (Write_ToBytes w)) CfWrite) c"
  shows "content_ok c'"
    and "view_of c' = (view_of c)(k := (view_of c k)\<lparr>vw_writes := (write_at c k)(ts \<mapsto> w)\<rparr>)"
proof -
  have m: "map_of (c' CfWrite) = (map_of (c CfWrite))(EncodeKey k ts \<mapsto> Some (Write_ToBytes w))"
    using content_okD(1) [OF ok] by (simp add: c'_def map_of_put_kv)
  have other: "c' CfLock = c CfLock" "c' CfDefault = c CfDefault" by (simp_all add: c'_def)
  show "content_ok c'"
    using ok w m by (auto simp: content_ok_def mvcc_wf_def other c'_def ascending_put_kv)
  show "view_of c' = (view_of c)(k := (view_of c k)\<lparr>vw_writes := (write_at c k)(ts \<mapsto> w)\<rparr>)"
    using w by (auto simp: fun_eq_iff view_of_def write_at_def lock_at_def m other)
qed

lemma view_put_lock [modify_view]:
  fixes k :: bytes
  assumes ok: "content_ok c" and l: "0 \<le> lock_Kind l" "lock_Kind l < 256"
  defines "c' \<equiv> apply_modify (Put k (Some (Lock_ToBytes l)) CfLock) c"
  shows "content_ok c'"
    and "view_of c' = (view_of c)(k := (view_of c k)\<lparr>vw_lock := Some l\<rparr>)"
proof -
  have m: "map_of (c' CfLock) = (map_of (c CfLock))(k \<mapsto> Some (Lock_ToBytes l))"
    using content_okD(1) [OF ok] by (simp add: c'_def map_of_put_kv)
  have other: "c' CfWrite = c CfWrite" "c' CfDefault = c CfDefault" by (simp_all add: c'_def)
  show "content_ok c'"
    using ok l m by (auto simp: content_ok_def mvcc_wf_def other c'_def ascending_put_kv)
  show "view_of c' = (view_of c)(k := (view_of c k)\<lparr>vw_lock := Some l\<rparr>)"
    using l by (auto simp: fun_eq_iff view_of_def write_at_def lock_at_def m other)
qed

lemma view_delete_lock [modify_view]:
  fixes k :: bytes
  assumes ok: "content_ok c"
  defines "c' \<equiv> apply_modify (Delete k CfLock) c"
  shows "content_ok c'"
    and "view_of c' = (view_of c)(k := (view_of c k)\<lparr>vw_lock := None\<rparr>)"
proof -
  have m: "map_of (c' CfLock) = (map_of (c CfLock))(k := None)"
    by (simp add: c'_def map_of_del_kv)
  have other: "c' CfWrite = c CfWrite" "c' CfDefault = c CfDefault" by (simp_all add: c'_def)
  show "content_ok c'"
    using ok m by (auto simp: content_ok_def mvcc_wf_def other c'_def ascending_del_kv)
  show "view_of c' = (view_of c)(k := (view_of c k)\<lparr>vw_lock := None\<rparr>)"
    by (auto simp: fun_eq_iff view_of_def write_at_def lock_at_def m other)
qed

lemma view_put_value [modify_view]:
  fixes k :: bytes and ts :: u64 and v :: gobytes
  assumes ok: "content_ok c"
  defines "c' \<equiv> apply_modify (Put (EncodeKey k ts) v CfDefault) c"
  shows "content_ok c'"
    and "view_of c' = (view_of c)(k := (view_of c k)\<lparr>vw_values := (vw_values (view_of c k))(ts \<mapsto> v)\<rparr>)"
proof -
  have m: "map_of (c' CfDefault) = (map_of (c CfDefault))(EncodeKey k ts \<mapsto> v)"
    using content_okD(1) [OF ok] by (simp add: c'_def map_of_put_kv)
  have other: "c' CfWrite = c CfWrite" "c' CfLock = c CfLock" by (simp_all add: c'_def)
  show "content_ok c'"
    using ok by (auto simp: content_ok_def mvcc_wf_def other c'_def ascending_put_kv)
  show "view_of c' = (view_of c)(k := (view_of c k)\<lparr>vw_values := (vw_values (view_of c k))(ts \<mapsto> v)\<rparr>)"
    by (auto simp: fun_eq_iff view_of_def write_at_def lock_at_def m other)
qed

lemma view_delete_value [modify_view]:
  fixes k :: bytes and ts :: u64
  assumes ok: "content_ok c"
  defines "c' \<equiv> apply_modify (Delete (EncodeKey k ts) CfDefault) c"
  shows "content_ok c'"
    and "view_of c' = (view_of c)(k := (view_of c k)\<lparr>vw_values := (vw_values (view_of c k))(ts := None)\<rparr>)"
proof -
  have m: "map_of (c' CfDefault) = (map_of (c CfDefault))(EncodeKey k ts := None)"
    by (simp add: c'_def map_of_del_kv)
  have other: "c' CfWrite = c CfWrite" "c' CfLock = c CfLock" by (simp_all add: c'_def)
  show "content_ok c'"
    using ok by (auto simp: content_ok_def mvcc_wf_def other c'_def ascending_del_kv)
  show "view_of c' = (view_of c)(k := (view_of c k)\<lparr>vw_values := (vw_values (view_of c k))(ts := None)\<rparr>)"
    by (auto simp: fun_eq_iff view_of_def write_at_def lock_at_def m other)
qed

subsection \<open>Transactions as updates of views\<close>

text \<open>
  \<open>txn_ok\<close>: a transaction under construction on the reader \<open>rd\<close>, whose writes turn the contents
  \<open>c\<close> into well-formed contents with the views \<open>V\<close>.
\<close>

definition txn_ok ::
    "'it StorageReader \<Rightarrow> u64 \<Rightarrow> (string \<Rightarrow> cf_content) \<Rightarrow> 'it MvccTxn \<Rightarrow> (bytes \<Rightarrow> View) \<Rightarrow> bool" where
  "txn_ok rd s c txn V \<longleftrightarrow>
     txn_Reader txn = rd \<and> txn_StartTS txn = s \<and>
     known_cfs (txn_writes txn) \<and> content_ok (apply_batch (txn_writes txn) c) \<and> view_of (apply_batch (txn_writes txn) c) = V"

lemma apply_batch_snoc: "apply_batch (ws @ [m]) c = apply_modify m (apply_batch ws c)"
  by (simp add: apply_batch_def)

lemma txn_ok_new: "content_ok c \<Longrightarrow> txn_ok rd s c (NewTxn rd s) (view_of c)"
  by (simp add: txn_ok_def NewTxn_def apply_batch_def)

lemma txn_ok_PutWrite:
  "txn_ok rd s c txn V \<Longrightarrow> 0 \<le> wr_Kind w \<Longrightarrow> wr_Kind w < 256 \<Longrightarrow>
    txn_ok rd s c (PutWrite txn k ts w) (V(k := (V k)\<lparr>vw_writes := (vw_writes (V k))(ts \<mapsto> w)\<rparr>))"
  unfolding txn_ok_def PutWrite_def using view_put_write [of "apply_batch (txn_writes txn) c" w k ts]
  by (auto simp: apply_batch_snoc)

lemma txn_ok_PutLock:
  "txn_ok rd s c txn V \<Longrightarrow> 0 \<le> lock_Kind l \<Longrightarrow> lock_Kind l < 256 \<Longrightarrow>
    txn_ok rd s c (PutLock txn k l) (V(k := (V k)\<lparr>vw_lock := Some l\<rparr>))"
  unfolding txn_ok_def PutLock_def using view_put_lock [of "apply_batch (txn_writes txn) c" l k]
  by (auto simp: apply_batch_snoc)

lemma txn_ok_DeleteLock:
  "txn_ok rd s c txn V \<Longrightarrow> txn_ok rd s c (DeleteLock txn k) (V(k := (V k)\<lparr>vw_lock := None\<rparr>))"
  unfolding txn_ok_def DeleteLock_def using view_delete_lock [of "apply_batch (txn_writes txn) c" k]
  by (auto simp: apply_batch_snoc)

lemma txn_ok_PutValue:
  "txn_ok rd s c txn V \<Longrightarrow>
    txn_ok rd s c (PutValue txn k v) (V(k := (V k)\<lparr>vw_values := (vw_values (V k))(s \<mapsto> v)\<rparr>))"
  unfolding txn_ok_def PutValue_def using view_put_value [of "apply_batch (txn_writes txn) c" k s v]
  by (auto simp: apply_batch_snoc)

lemma txn_ok_DeleteValue:
  "txn_ok rd s c txn V \<Longrightarrow>
    txn_ok rd s c (DeleteValue txn k) (V(k := (V k)\<lparr>vw_values := (vw_values (V k))(s := None)\<rparr>))"
  unfolding txn_ok_def DeleteValue_def using view_delete_value [of "apply_batch (txn_writes txn) c" k s]
  by (auto simp: apply_batch_snoc)

lemma txn_ok_cong: "txn_ok rd s c txn V \<Longrightarrow> V = V' \<Longrightarrow> txn_ok rd s c txn V'"
  by simp

subsection \<open>The update each command makes on a key\<close>

definition own_lock :: "u64 \<Rightarrow> View \<Rightarrow> Lock option" where
  "own_lock s v = (case vw_lock v of None \<Rightarrow> None | Some l \<Rightarrow> if lock_Ts l \<noteq> s then None else Some l)"

definition own_write :: "u64 \<Rightarrow> View \<Rightarrow> bool" where
  "own_write s v \<longleftrightarrow> (\<exists>t w. s \<le> t \<and> vw_writes v t = Some w \<and> wr_StartTS w = s)"

definition committed_in :: "u64 \<Rightarrow> View \<Rightarrow> bool" where
  "committed_in s v \<longleftrightarrow>
     (\<exists>t w. vw_writes v t = Some w \<and> wr_StartTS w = s \<and> wr_Kind w \<noteq> WriteKindRollback)"

definition rolled_back :: "u64 \<Rightarrow> View \<Rightarrow> bool" where
  "rolled_back s v \<longleftrightarrow>
     (\<exists>t w. vw_writes v t = Some w \<and> wr_StartTS w = s \<and> wr_Kind w = WriteKindRollback)"

definition rollback_record :: "u64 \<Rightarrow> Write" where
  "rollback_record s = \<lparr>wr_StartTS = s, wr_Kind = WriteKindRollback\<rparr>"

text \<open>
  The updates are decided on the view \<open>v\<close> the reader shows and made on the view \<open>u\<close> with the
  earlier writes of the same transaction.
\<close>

definition commit_upd :: "u64 \<Rightarrow> u64 \<Rightarrow> View \<Rightarrow> View \<Rightarrow> View" where
  "commit_upd s ct v u =
     (case own_lock s v of
        None \<Rightarrow> u
      | Some l \<Rightarrow> u\<lparr>vw_writes := (vw_writes u)(ct \<mapsto> \<lparr>wr_StartTS = s, wr_Kind = lock_Kind l\<rparr>),
                   vw_lock := None\<rparr>)"

definition rollback_upd :: "u64 \<Rightarrow> View \<Rightarrow> View \<Rightarrow> View" where
  "rollback_upd s v u =
     (case own_lock s v of
        None \<Rightarrow> if own_write s v then u else u\<lparr>vw_writes := (vw_writes u)(s \<mapsto> rollback_record s)\<rparr>
      | Some l \<Rightarrow> u\<lparr>vw_values := if lock_Kind l = WriteKindPut then (vw_values u)(s := None) else vw_values u,
                   vw_writes := (vw_writes u)(s \<mapsto> rollback_record s), vw_lock := None\<rparr>)"

definition prewrite_guard :: "u64 \<Rightarrow> View \<Rightarrow> bool" where
  "prewrite_guard s v \<longleftrightarrow>
     (\<forall>t\<ge>s. vw_writes v t = None) \<and> (\<forall>l. vw_lock v = Some l \<longrightarrow> lock_Ts l = s)"

definition prewrite_upd :: "PrewriteRequest \<Rightarrow> u64 \<Rightarrow> Mutation \<Rightarrow> View \<Rightarrow> View" where
  "prewrite_upd req s m u =
     u\<lparr>vw_lock := Some \<lparr>lock_Primary = pw_PrimaryLock req, lock_Ts = s, lock_Ttl = pw_LockTtl req,
                        lock_Kind = int32 (mut_Op m + 1)\<rparr>,
       vw_values := if mut_Op m = Op_Put then (vw_values u)(s \<mapsto> mut_Value m)
                    else if mut_Op m = Op_Del then (vw_values u)(s := None) else vw_values u\<rparr>"

definition check_upd :: "CheckTxnStatusRequest \<Rightarrow> View \<Rightarrow> View" where
  "check_upd req v =
     (let s = ct_LockTs req in
      case own_lock s v of
        None \<Rightarrow> rollback_upd s v v
      | Some l \<Rightarrow> if physical (lock_Ts l) + lock_Ttl l < physical (ct_CurrentTs req)
                 then rollback_upd s v v else v)"

text \<open>The operations the protocol defines for a mutation.\<close>

definition valid_op :: "Op \<Rightarrow> bool" where
  "valid_op op \<longleftrightarrow> op \<in> {Op_Put, Op_Del, Op_Rollback, Op_Lock}"

lemma valid_op_kind: "valid_op op \<Longrightarrow> 0 \<le> int32 (op + 1) \<and> int32 (op + 1) < 256 \<and> int32 (op + 1) = op + 1"
  by (auto simp: valid_op_def Op_Put_def Op_Del_def Op_Rollback_def Op_Lock_def int32_id)

lemma commit_upd_idem: "commit_upd s ct v (commit_upd s ct v u) = commit_upd s ct v u"
  by (simp add: commit_upd_def split: option.split)

lemma rollback_upd_idem: "rollback_upd s v (rollback_upd s v u) = rollback_upd s v u"
  by (simp add: rollback_upd_def split: option.split)

lemma ParseLock_kind: "ParseLock b = Inr l \<Longrightarrow> 0 \<le> lock_Kind l \<and> lock_Kind l < 256"
  using uint_bounded [of "b ! (length b - 17)"]
  by (auto simp: ParseLock_def Let_def split: if_splits option.splits prod.splits)

lemma lock_at_kind: "lock_at c k = Some l \<Longrightarrow> 0 \<le> lock_Kind l \<and> lock_Kind l < 256"
  by (auto simp: lock_at_def ParseLock_kind split: option.splits sum.splits)

lemma rollback_record_kind: "0 \<le> wr_Kind (rollback_record s)" "wr_Kind (rollback_record s) < 256"
  by (simp_all add: rollback_record_def WriteKindRollback_def)

subsection \<open>Each operation makes its update\<close>

definition ts_ok :: "View \<Rightarrow> bool" where
  "ts_ok v \<longleftrightarrow> (\<forall>t w. vw_writes v t = Some w \<longrightarrow> wr_StartTS w \<le> t)"

text \<open>What \<^verbatim>\<open>CheckTxnStatus\<close> answers.\<close>

definition check_resp :: "CheckTxnStatusRequest \<Rightarrow> View \<Rightarrow> CheckTxnStatusResponse \<Rightarrow> bool" where
  "check_resp req v r \<longleftrightarrow>
     (let s = ct_LockTs req in
      case own_lock s v of
        Some l \<Rightarrow>
          if physical s + lock_Ttl l < physical (ct_CurrentTs req)
          then r = \<lparr>cr_LockTtl = 0, cr_CommitVersion = 0, cr_Action = TTLExpireRollback\<rparr>
          else r = \<lparr>cr_LockTtl = lock_Ttl l, cr_CommitVersion = 0, cr_Action = NoAction\<rparr>
      | None \<Rightarrow>
          if \<not> own_write s v then r = \<lparr>cr_LockTtl = 0, cr_CommitVersion = 0, cr_Action = LockNotExistRollback\<rparr>
          else \<exists>t w. vw_writes v t = Some w \<and> wr_StartTS w = s \<and>
                 r = \<lparr>cr_LockTtl = 0, cr_CommitVersion = if wr_Kind w = WriteKindRollback then 0 else t,
                      cr_Action = NoAction\<rparr>)"

lemma view_upd_swap: "v\<lparr>vw_writes := a, vw_values := b\<rparr> = v\<lparr>vw_values := b, vw_writes := a\<rparr>" for v :: View
  by simp

lemma own_writeI: "ts_ok v \<Longrightarrow> vw_writes v t = Some w \<Longrightarrow> wr_StartTS w = s \<Longrightarrow> own_write s v"
  unfolding own_write_def ts_ok_def by blast

context mvcc_reader
begin

lemma content_is_ok: "content_ok content"
  by (simp add: content_ok_def content_ascending wf)

lemma CurrentWrite_own:
  assumes "txn_Reader txn = rd" "txn_StartTS txn = s"
  obtains "CurrentWrite txn k = Some (Inr (None, 0))" "\<not> own_write s (view_of content k)"
  | w t where "CurrentWrite txn k = Some (Inr (Some w, t))" "write_at content k t = Some w"
      "wr_StartTS w = s"
proof -
  from CurrentWrite_current [OF assms(1), of k] obtain wo t where
    r: "CurrentWrite txn k = Some (Inr (wo, t))" "current_write content k s TsMax (wo, t)"
    using assms(2) by auto
  show ?thesis
  proof (cases wo)
    case None
    with r that(1) show ?thesis by (auto simp: current_write_def own_write_def)
  next
    case (Some w)
    with r that(2) show ?thesis by (auto simp: current_write_def)
  qed
qed

lemma MostRecentWrite_guard:
  assumes "txn_Reader txn = rd"
  obtains wo t where "MostRecentWrite txn k = Inr (wo, t)"
    "(wo \<noteq> None \<and> s \<le> t) \<longleftrightarrow> (\<exists>t\<ge>s. write_at content k t \<noteq> None)"
proof -
  from mostRecentWriteBefore_newest [OF assms, of k TsMax] obtain wo t where
    r: "MostRecentWrite txn k = Inr (wo, t)" "newest_write content k TsMax (wo, t)"
    by (auto simp: MostRecentWrite_def)
  have "(wo \<noteq> None \<and> s \<le> t) \<longleftrightarrow> (\<exists>t\<ge>s. write_at content k t \<noteq> None)"
  proof (cases wo)
    case None
    with r(2) show ?thesis by (auto simp: newest_write_def)
  next
    case (Some w)
    with r(2) have w: "write_at content k t = Some w" and new: "\<And>t'. t < t' \<Longrightarrow> write_at content k t' = None"
      by (simp_all add: newest_write_def)
    have "s \<le> t" if "s \<le> t'" "write_at content k t' \<noteq> None" for t'
      using new [of t'] that by (cases "t < t'") auto
    with w Some show ?thesis by blast
  qed
  with r(1) that show ?thesis by blast
qed

lemma own_lock_at:
  "own_lock s (view_of content k) =
    (case lock_at content k of None \<Rightarrow> None | Some l \<Rightarrow> if lock_Ts l \<noteq> s then None else Some l)"
  by (simp add: own_lock_def)

lemma commitKey_spec:
  assumes ok: "txn_ok rd s content txn V"
  shows "\<exists>ke txn'. commitKey k ct txn = Some (Inr (ke, txn')) \<and>
    txn_ok rd s content txn' (V(k := commit_upd s ct (view_of content k) (V k))) \<and>
    (ke = None \<longrightarrow> own_lock s (view_of content k) \<noteq> None \<or> committed_in s (view_of content k))"
proof -
  have rd: "txn_Reader txn = rd" "txn_StartTS txn = s" using ok by (auto simp: txn_ok_def)
  show ?thesis
  proof (cases "own_lock s (view_of content k)")
    case None
    have upd: "V(k := commit_upd s ct (view_of content k) (V k)) = V"
      by (simp add: commit_upd_def None)
    show ?thesis
      using CurrentWrite_own [OF rd, of k]
    proof cases
      case 1
      with None ok upd GetLock_eq [OF rd(1), of k] show ?thesis
        by (auto simp: commitKey_def rd own_lock_at split: if_splits option.splits)
    next
      case (2 w t)
      with None ok upd GetLock_eq [OF rd(1), of k] show ?thesis
        by (auto simp: commitKey_def rd own_lock_at committed_in_def split: if_splits option.splits)
    qed
  next
    case (Some l)
    then have l: "lock_at content k = Some l" "lock_Ts l = s"
      by (auto simp: own_lock_at split: option.splits if_splits)
    let ?w = "\<lparr>wr_StartTS = s, wr_Kind = lock_Kind l\<rparr>"
    have "txn_ok rd s content (DeleteLock (PutWrite txn k ct ?w) k)
        (V(k := commit_upd s ct (view_of content k) (V k)))"
      by (rule txn_ok_cong [OF txn_ok_DeleteLock [OF txn_ok_PutWrite [OF ok]]])
        (use lock_at_kind [OF l(1)] Some in \<open>auto simp: commit_upd_def\<close>)
    moreover have "commitKey k ct txn = Some (Inr (None, DeleteLock (PutWrite txn k ct ?w) k))"
      using l GetLock_eq [OF rd(1), of k] by (simp add: commitKey_def rd)
    ultimately show ?thesis using Some by auto
  qed
qed

lemma rollbackKey_spec:
  assumes ok: "txn_ok rd s content txn V" and ts: "ts_ok (view_of content k)"
  shows "\<exists>ke txn'. rollbackKey k txn = Some (Inr (ke, txn')) \<and>
    txn_ok rd s content txn' (V(k := rollback_upd s (view_of content k) (V k))) \<and>
    (ke = None \<longrightarrow> own_lock s (view_of content k) \<noteq> None \<or> \<not> own_write s (view_of content k) \<or>
      rolled_back s (view_of content k))"
proof -
  have rd: "txn_Reader txn = rd" "txn_StartTS txn = s" using ok by (auto simp: txn_ok_def)
  show ?thesis
  proof (cases "own_lock s (view_of content k)")
    case None
    show ?thesis
      using CurrentWrite_own [OF rd, of k]
    proof cases
      case 1
      have "txn_ok rd s content (PutWrite txn k s (rollback_record s))
          (V(k := rollback_upd s (view_of content k) (V k)))"
        by (rule txn_ok_cong [OF txn_ok_PutWrite [OF ok rollback_record_kind]])
          (simp add: rollback_upd_def None 1)
      with 1 None GetLock_eq [OF rd(1), of k] show ?thesis
        by (auto simp: rollbackKey_def rd own_lock_at rollback_record_def split: if_splits option.splits)
    next
      case (2 w t)
      then have "own_write s (view_of content k)" using own_writeI [OF ts] by simp
      then have "V(k := rollback_upd s (view_of content k) (V k)) = V"
        by (simp add: rollback_upd_def None)
      with 2 None ok GetLock_eq [OF rd(1), of k] show ?thesis
        by (auto simp: rollbackKey_def rd own_lock_at rolled_back_def split: if_splits option.splits)
    qed
  next
    case (Some l)
    then have l: "lock_at content k = Some l" "lock_Ts l = s"
      by (auto simp: own_lock_at split: option.splits if_splits)
    define txn1 where "txn1 = (if lock_Kind l = WriteKindPut then DeleteValue txn k else txn)"
    have "txn_ok rd s content txn1
        (if lock_Kind l = WriteKindPut then V(k := (V k)\<lparr>vw_values := (vw_values (V k))(s := None)\<rparr>) else V)"
      using ok by (simp add: txn1_def txn_ok_DeleteValue)
    from txn_ok_DeleteLock [OF txn_ok_PutWrite [OF this rollback_record_kind]]
    have "txn_ok rd s content (DeleteLock (PutWrite txn1 k s (rollback_record s)) k)
        (V(k := rollback_upd s (view_of content k) (V k)))"
      by (rule txn_ok_cong) (use Some in \<open>auto simp: rollback_upd_def\<close>)
    moreover have "rollbackKey k txn = Some (Inr (None, DeleteLock (PutWrite txn1 k s (rollback_record s)) k))"
      using l GetLock_eq [OF rd(1), of k]
      by (simp add: rollbackKey_def rd txn1_def rollback_record_def)
    ultimately show ?thesis using Some by auto
  qed
qed

lemma prewriteMutation_spec:
  assumes ok: "txn_ok rd s content txn V" and op: "valid_op (mut_Op m)"
  defines "k \<equiv> mut_Key m"
  shows "if prewrite_guard s (view_of content k)
    then \<exists>txn'. prewriteMutation req txn m = Inr (None, txn') \<and>
           txn_ok rd s content txn' (V(k := prewrite_upd req s m (V k)))
    else \<exists>ke. prewriteMutation req txn m = Inr (Some ke, txn) \<and> ke_Conflict ke \<noteq> None"
proof -
  have rd: "txn_Reader txn = rd" "txn_StartTS txn = s" using ok by (auto simp: txn_ok_def)
  obtain wo t where w: "MostRecentWrite txn k = Inr (wo, t)"
    "(wo \<noteq> None \<and> s \<le> t) \<longleftrightarrow> (\<exists>t\<ge>s. write_at content k t \<noteq> None)"
    using MostRecentWrite_guard [OF rd(1)] .
  have lk: "GetLock txn k = Inr (lock_at content k)" by (rule GetLock_eq [OF rd(1)])
  show ?thesis
  proof (cases "prewrite_guard s (view_of content k)")
    case True
    let ?l = "\<lparr>lock_Primary = pw_PrimaryLock req, lock_Ts = s, lock_Ttl = pw_LockTtl req,
      lock_Kind = int32 (mut_Op m + 1)\<rparr>"
    have 1: "txn_ok rd s content (PutLock txn k ?l) (V(k := (V k)\<lparr>vw_lock := Some ?l\<rparr>))"
      by (rule txn_ok_PutLock [OF ok]) (use valid_op_kind [OF op] in simp_all)
    define txn' where "txn' = (if mut_Op m = Op_Put then PutValue (PutLock txn k ?l) k (mut_Value m)
      else if mut_Op m = Op_Del then DeleteValue (PutLock txn k ?l) k else PutLock txn k ?l)"
    have "txn_ok rd s content txn' (V(k := prewrite_upd req s m (V k)))"
      using txn_ok_PutValue [OF 1, of k "mut_Value m"] txn_ok_DeleteValue [OF 1, of k] 1
      by (auto simp: txn'_def prewrite_upd_def elim!: txn_ok_cong)
    moreover have "prewriteMutation req txn m = Inr (None, txn')"
      using True w lk unfolding prewriteMutation_def Let_def k_def [symmetric]
      by (auto simp: prewrite_guard_def rd txn'_def split: option.splits)
    ultimately show ?thesis using True by simp
  next
    case False
    with w lk show ?thesis unfolding prewriteMutation_def Let_def k_def [symmetric]
      by (auto simp: prewrite_guard_def rd emptyKeyError_def split: option.splits)
  qed
qed

lemma CheckTxnStatus_spec:
  assumes ts: "ts_ok (view_of content (ct_PrimaryKey req))"
  shows "\<exists>resp txn'. CheckTxnStatus_PrepareWrites req (NewTxn rd (ct_LockTs req)) =
      Some (Inr (RespCheckTxnStatus resp, txn')) \<and>
    check_resp req (view_of content (ct_PrimaryKey req)) resp \<and>
    txn_ok rd (ct_LockTs req) content txn'
      ((view_of content)(ct_PrimaryKey req := check_upd req (view_of content (ct_PrimaryKey req))))"
proof -
  let ?s = "ct_LockTs req" and ?k = "ct_PrimaryKey req"
  let ?txn = "NewTxn rd ?s" and ?v = "view_of content ?k"
  have ok: "txn_ok rd ?s content ?txn (view_of content)" by (rule txn_ok_new [OF content_is_ok])
  have rd: "txn_Reader ?txn = rd" "txn_StartTS ?txn = ?s" by (simp_all add: NewTxn_def)
  have lk: "GetLock ?txn ?k = Inr (lock_at content ?k)" by (rule GetLock_eq [OF rd(1)])
  show ?thesis
  proof (cases "own_lock ?s ?v")
    case None
    show ?thesis
      using CurrentWrite_own [OF rd, of ?k]
    proof cases
      case 1
      have "txn_ok rd ?s content (PutWrite ?txn ?k ?s (rollback_record ?s))
          ((view_of content)(?k := check_upd req ?v))"
        by (rule txn_ok_cong [OF txn_ok_PutWrite [OF ok rollback_record_kind]])
          (simp add: rollback_upd_def check_upd_def Let_def None 1)
      with 1 None lk show ?thesis
        by (auto simp: CheckTxnStatus_PrepareWrites_def rd own_lock_at rollback_record_def check_resp_def
            Let_def split: if_splits option.splits)
    next
      case (2 w t)
      then have "own_write ?s ?v" using own_writeI [OF ts] by simp
      then have "(view_of content)(?k := check_upd req ?v) = view_of content"
        by (simp add: rollback_upd_def check_upd_def Let_def None)
      with 2 None lk ok \<open>own_write ?s ?v\<close> show ?thesis
        by (auto simp: CheckTxnStatus_PrepareWrites_def rd own_lock_at check_resp_def Let_def
            split: if_splits option.splits)
    qed
  next
    case (Some l)
    then have l: "lock_at content ?k = Some l" "lock_Ts l = ?s"
      by (auto simp: own_lock_at split: option.splits if_splits)
    define txn1 where "txn1 = PutWrite ?txn ?k ?s (rollback_record ?s)"
    define txn2 where "txn2 = (if lock_Kind l = WriteKindPut then DeleteValue txn1 ?k else txn1)"
    note 1 = txn_ok_PutWrite [OF ok rollback_record_kind, of ?k ?s ?s, folded txn1_def]
    note 2 = txn_ok_DeleteLock [OF txn_ok_DeleteValue [OF 1, of ?k], of ?k] txn_ok_DeleteLock [OF 1, of ?k]
    have "txn_ok rd ?s content (DeleteLock txn2 ?k)
        ((view_of content)(?k := rollback_upd ?s ?v ?v))"
      using 2 Some by (cases "lock_Kind l = WriteKindPut")
        (simp_all add: txn2_def rollback_upd_def view_upd_swap)
    then show ?thesis
      using l lk ok Some
      by (auto simp: CheckTxnStatus_PrepareWrites_def rd check_upd_def Let_def txn2_def txn1_def
          rollback_record_def check_resp_def)
  qed
qed

end

subsection \<open>The loops over the keys of a request\<close>

text \<open>
  A loop that makes an idempotent update on the view of every key of a list, possibly stopping
  early: \<open>touched\<close> relates the views before and after, \<open>all_touched\<close> holds if it did not stop.
\<close>

definition touched :: "(bytes \<Rightarrow> View \<Rightarrow> View) \<Rightarrow> bytes set \<Rightarrow> (bytes \<Rightarrow> View) \<Rightarrow> (bytes \<Rightarrow> View) \<Rightarrow> bool" where
  "touched U K V V' \<longleftrightarrow> (\<forall>k. V' k = V k \<or> k \<in> K \<and> V' k = U k (V k))"

definition all_touched :: "(bytes \<Rightarrow> View \<Rightarrow> View) \<Rightarrow> bytes set \<Rightarrow> (bytes \<Rightarrow> View) \<Rightarrow> (bytes \<Rightarrow> View) \<Rightarrow> bool" where
  "all_touched U K V V' \<longleftrightarrow> (\<forall>k\<in>K. V' k = U k (V k))"

lemma touched_refl: "touched U K V V"
  by (simp add: touched_def)

lemma touched_one: "touched U (insert k K) V (V(k := U k (V k)))"
  by (simp add: touched_def)

lemma touched_step:
  assumes idem: "\<And>k u. U k (U k u) = U k u" and t: "touched U K (V(k := U k (V k))) V'"
  shows "touched U (insert k K) V V'"
  unfolding touched_def
proof
  fix k'
  from t have "V' k' = (V(k := U k (V k))) k' \<or> k' \<in> K \<and> V' k' = U k' ((V(k := U k (V k))) k')"
    by (simp only: touched_def)
  then show "V' k' = V k' \<or> k' \<in> insert k K \<and> V' k' = U k' (V k')"
    by (cases "k' = k") (auto simp: idem)
qed

lemma all_touched_step:
  assumes idem: "\<And>k u. U k (U k u) = U k u" and t: "touched U K (V(k := U k (V k))) V'"
    and a: "all_touched U K (V(k := U k (V k))) V'"
  shows "all_touched U (insert k K) V V'"
  unfolding all_touched_def
proof
  fix k'
  assume "k' \<in> insert k K"
  moreover from t have "V' k = (V(k := U k (V k))) k \<or> k \<in> K \<and> V' k = U k ((V(k := U k (V k))) k)"
    by (simp only: touched_def)
  then have "V' k = U k (V k)" by (auto simp: idem)
  moreover have "V' k' = U k' (V k')" if "k' \<in> K" "k' \<noteq> k"
    using a that by (simp add: all_touched_def)
  ultimately show "V' k' = U k' (V k')" by blast
qed

definition resolve_upd :: "ResolveLockRequest \<Rightarrow> KlPair \<Rightarrow> View \<Rightarrow> View \<Rightarrow> View" where
  "resolve_upd req kl v u =
     (if lock_Ts (kl_Lock kl) \<le> rl_CommitVersion req \<and> rl_StartVersion req \<le> lock_Ts (kl_Lock kl)
      then commit_upd (rl_StartVersion req) (rl_CommitVersion req) v u
      else rollback_upd (rl_StartVersion req) v u)"

text \<open>
  What a successful prewrite leaves: a lock of the transaction on a key that had no newer record,
  and the value of a put.
\<close>

definition prewritten :: "u64 \<Rightarrow> View \<Rightarrow> View \<Rightarrow> bool" where
  "prewritten s v u \<longleftrightarrow>
     prewrite_guard s v \<and> vw_writes u = vw_writes v \<and> (\<forall>t. t \<noteq> s \<longrightarrow> vw_values u t = vw_values v t) \<and>
     (\<exists>l. vw_lock u = Some l \<and> lock_Ts l = s \<and> (lock_Kind l = WriteKindPut \<longrightarrow> vw_values u s \<noteq> None))"

lemma prewritten_upd:
  assumes "valid_op (mut_Op m)" "prewrite_guard s v" "u = v \<or> prewritten s v u"
  shows "prewritten s v (prewrite_upd req s m u)"
proof -
  have "mut_Op m = Op_Put" if "int32 (mut_Op m + 1) = WriteKindPut"
    using that valid_op_kind [OF assms(1)] by (simp add: WriteKindPut_def Op_Put_def)
  with assms(2,3) show ?thesis by (auto simp: prewritten_def prewrite_upd_def)
qed

context mvcc_reader
begin

lemma Commit_loop_spec:
  fixes ct :: u64
  assumes "txn_ok rd s content txn V"
  defines "U \<equiv> \<lambda>k. commit_upd s ct (view_of content k)"
  shows "\<exists>ke txn' V'. Commit_loop ks ct txn = Some (Inr (ke, txn')) \<and> txn_ok rd s content txn' V' \<and>
    touched U (set ks) V V' \<and>
    (ke = None \<longrightarrow> all_touched U (set ks) V V' \<and>
      (\<forall>k\<in>set ks. own_lock s (view_of content k) \<noteq> None \<or> committed_in s (view_of content k)))"
  using assms(1)
proof (induction ks arbitrary: txn V)
  case Nil
  then show ?case by (auto simp: touched_refl all_touched_def)
next
  case (Cons k ks)
  have idem: "U k (U k u) = U k u" for k u by (simp add: U_def commit_upd_idem)
  from commitKey_spec [OF Cons.prems, of k ct] obtain ke txn1 where
    1: "commitKey k ct txn = Some (Inr (ke, txn1))" "txn_ok rd s content txn1 (V(k := U k (V k)))"
      "ke = None \<longrightarrow> own_lock s (view_of content k) \<noteq> None \<or> committed_in s (view_of content k)"
    unfolding U_def by blast
  show ?case
  proof (cases ke)
    case None
    from Cons.IH [OF 1(2)] obtain ke' txn' V' where
      2: "Commit_loop ks ct txn1 = Some (Inr (ke', txn'))" "txn_ok rd s content txn' V'"
        "touched U (set ks) (V(k := U k (V k))) V'"
        "ke' = None \<longrightarrow> all_touched U (set ks) (V(k := U k (V k))) V' \<and>
          (\<forall>k\<in>set ks. own_lock s (view_of content k) \<noteq> None \<or> committed_in s (view_of content k))"
      by blast
    have "Commit_loop (k # ks) ct txn = Some (Inr (ke', txn'))" using 1(1) 2(1) None by simp
    with 2(2,4) 1(3) None touched_step [OF idem 2(3)] all_touched_step [OF idem 2(3)] show ?thesis by auto
  next
    case (Some e)
    with 1 touched_one [of U k "set ks" V] show ?thesis by auto
  qed
qed

lemma Rollback_loop_spec:
  assumes "txn_ok rd s content txn V" "\<And>k. ts_ok (view_of content k)"
  defines "U \<equiv> \<lambda>k. rollback_upd s (view_of content k)"
  shows "\<exists>ke txn' V'. Rollback_loop ks txn = Some (Inr (ke, txn')) \<and> txn_ok rd s content txn' V' \<and>
    touched U (set ks) V V' \<and>
    (ke = None \<longrightarrow> all_touched U (set ks) V V' \<and> (\<forall>k\<in>set ks. own_lock s (view_of content k) \<noteq> None \<or>
      \<not> own_write s (view_of content k) \<or> rolled_back s (view_of content k)))"
  using assms(1)
proof (induction ks arbitrary: txn V)
  case Nil
  then show ?case by (auto simp: touched_refl all_touched_def)
next
  case (Cons k ks)
  have idem: "U k (U k u) = U k u" for k u by (simp add: U_def rollback_upd_idem)
  from rollbackKey_spec [OF Cons.prems assms(2), of k] obtain ke txn1 where
    1: "rollbackKey k txn = Some (Inr (ke, txn1))" "txn_ok rd s content txn1 (V(k := U k (V k)))"
      "ke = None \<longrightarrow> own_lock s (view_of content k) \<noteq> None \<or> \<not> own_write s (view_of content k) \<or>
        rolled_back s (view_of content k)"
    unfolding U_def by blast
  show ?case
  proof (cases ke)
    case None
    from Cons.IH [OF 1(2)] obtain ke' txn' V' where
      2: "Rollback_loop ks txn1 = Some (Inr (ke', txn'))" "txn_ok rd s content txn' V'"
        "touched U (set ks) (V(k := U k (V k))) V'"
        "ke' = None \<longrightarrow> all_touched U (set ks) (V(k := U k (V k))) V' \<and>
          (\<forall>k\<in>set ks. own_lock s (view_of content k) \<noteq> None \<or>
            \<not> own_write s (view_of content k) \<or> rolled_back s (view_of content k))"
      by blast
    have "Rollback_loop (k # ks) txn = Some (Inr (ke', txn'))" using 1(1) 2(1) None by simp
    with 2(2,4) 1(3) None touched_step [OF idem 2(3)] all_touched_step [OF idem 2(3)] show ?thesis by auto
  next
    case (Some e)
    with 1 touched_one [of U k "set ks" V] show ?thesis by auto
  qed
qed

lemma ResolveLock_loop_spec:
  fixes l :: Lock
  assumes "txn_ok rd (rl_StartVersion req) content txn V" "\<And>k. ts_ok (view_of content k)"
    and ts: "\<And>kl. kl \<in> set kls \<Longrightarrow> lock_Ts (kl_Lock kl) = rl_StartVersion req"
  defines "U \<equiv> \<lambda>k. resolve_upd req \<lparr>kl_Key = k, kl_Lock = l\<rparr> (view_of content k)"
  assumes l: "lock_Ts l = rl_StartVersion req"
  shows "\<exists>ke txn' V'. ResolveLock_loop req kls err txn = Some (Inr (ke, txn')) \<and>
    txn_ok rd (rl_StartVersion req) content txn' V' \<and>
    touched U (kl_Key ` set kls) V V' \<and> all_touched U (kl_Key ` set kls) V V'"
  using assms(1) ts
proof (induction kls arbitrary: txn V err)
  case Nil
  then show ?case by (auto simp: touched_refl all_touched_def)
next
  case (Cons kl kls)
  let ?k = "kl_Key kl" and ?s = "rl_StartVersion req"
  have idem: "U k (U k u) = U k u" for k u
    by (simp add: U_def resolve_upd_def commit_upd_idem rollback_upd_idem)
  have kl: "lock_Ts (kl_Lock kl) = ?s" using Cons.prems(2) by simp
  define r where "r = (if lock_Ts (kl_Lock kl) \<le> rl_CommitVersion req \<and> ?s \<le> lock_Ts (kl_Lock kl)
    then commitKey ?k (rl_CommitVersion req) txn else rollbackKey ?k txn)"
  obtain ke txn1 where
    1: "r = Some (Inr (ke, txn1))" "txn_ok rd ?s content txn1 (V(?k := U ?k (V ?k)))"
    using commitKey_spec [OF Cons.prems(1), of ?k "rl_CommitVersion req"]
      rollbackKey_spec [OF Cons.prems(1) assms(2), of ?k]
    by (cases "?s \<le> rl_CommitVersion req") (auto simp: r_def U_def resolve_upd_def kl l)
  from Cons.IH [OF 1(2)] Cons.prems(2) obtain ke' txn' V' where
    2: "ResolveLock_loop req kls (case ke of None \<Rightarrow> err | Some e \<Rightarrow> Some e) txn1 = Some (Inr (ke', txn'))"
      "txn_ok rd ?s content txn' V'"
      "touched U (kl_Key ` set kls) (V(?k := U ?k (V ?k))) V'"
      "all_touched U (kl_Key ` set kls) (V(?k := U ?k (V ?k))) V'"
    by (metis list.set_intros(2))
  have "ResolveLock_loop req (kl # kls) err txn = Some (Inr (ke', txn'))"
    using 1(1) 2(1) by (simp add: r_def)
  with 2(2) touched_step [OF idem 2(3)] all_touched_step [OF idem 2(3,4)] show ?case by auto
qed

lemma Prewrite_loop_spec:
  assumes "txn_ok rd s content txn V" "\<forall>m\<in>set ms. valid_op (mut_Op m)"
    and "\<forall>k. V k = view_of content k \<or> prewritten s (view_of content k) (V k)"
  shows "\<exists>more txn' V'. Prewrite_loop req txn ms errs = Inr (errs @ more, txn') \<and>
    txn_ok rd s content txn' V' \<and>
    (\<forall>k. V' k = view_of content k \<or> prewritten s (view_of content k) (V' k)) \<and>
    (\<forall>k. k \<notin> mut_Key ` set ms \<longrightarrow> V' k = V k) \<and>
    (more = [] \<longleftrightarrow> (\<forall>m\<in>set ms. prewrite_guard s (view_of content (mut_Key m)))) \<and>
    (distinct (map mut_Key ms) \<longrightarrow> (\<forall>m\<in>set ms. V' (mut_Key m) =
      (if prewrite_guard s (view_of content (mut_Key m)) then prewrite_upd req s m (V (mut_Key m))
       else V (mut_Key m))))"
  using assms
proof (induction ms arbitrary: txn V errs)
  case Nil
  then show ?case by auto
next
  case (Cons m ms)
  let ?k = "mut_Key m"
  have op: "valid_op (mut_Op m)" "\<forall>m\<in>set ms. valid_op (mut_Op m)" using Cons.prems(2) by auto
  note spec = prewriteMutation_spec [OF Cons.prems(1) op(1), of req]
  define V1 where "V1 = (if prewrite_guard s (view_of content ?k) then V(?k := prewrite_upd req s m (V ?k)) else V)"
  obtain e txn1 where 1: "Prewrite_loop req txn (m # ms) errs = Prewrite_loop req txn1 ms (errs @ e)"
    "txn_ok rd s content txn1 V1" "e = [] \<longleftrightarrow> prewrite_guard s (view_of content ?k)"
    using spec Cons.prems(1) by (auto simp: V1_def split: if_splits)
  have V1: "\<forall>k. V1 k = view_of content k \<or> prewritten s (view_of content k) (V1 k)"
    using Cons.prems(3) prewritten_upd [OF op(1)] by (simp add: V1_def)
  from Cons.IH [OF 1(2) op(2) V1, of "errs @ e"] obtain more1 txn' V' where
    2: "Prewrite_loop req txn1 ms (errs @ e) = Inr ((errs @ e) @ more1, txn')"
      "txn_ok rd s content txn' V'"
      "\<forall>k. V' k = view_of content k \<or> prewritten s (view_of content k) (V' k)"
      "\<forall>k. k \<notin> mut_Key ` set ms \<longrightarrow> V' k = V1 k"
      "more1 = [] \<longleftrightarrow> (\<forall>m\<in>set ms. prewrite_guard s (view_of content (mut_Key m)))"
      "distinct (map mut_Key ms) \<longrightarrow> (\<forall>m\<in>set ms. V' (mut_Key m) =
        (if prewrite_guard s (view_of content (mut_Key m)) then prewrite_upd req s m (V1 (mut_Key m))
         else V1 (mut_Key m)))"
    by blast
  have "V' (mut_Key m') = (if prewrite_guard s (view_of content (mut_Key m'))
      then prewrite_upd req s m' (V (mut_Key m')) else V (mut_Key m'))"
    if d: "distinct (map mut_Key (m # ms))" and m': "m' \<in> set (m # ms)" for m'
  proof (cases "m' = m")
    case True
    moreover have "V' ?k = V1 ?k" using 2(4) d by simp
    ultimately show ?thesis by (simp add: V1_def)
  next
    case False
    then have "m' \<in> set ms" using m' by simp
    moreover from this have "mut_Key m' \<noteq> ?k" using d by (auto simp: image_iff)
    then have "V1 (mut_Key m') = V (mut_Key m')" by (simp add: V1_def)
    ultimately show ?thesis using 2(6) d by simp
  qed
  moreover have "\<forall>k. k \<notin> mut_Key ` set (m # ms) \<longrightarrow> V' k = V k"
    using 2(4) by (auto simp: V1_def)
  moreover have "e @ more1 = [] \<longleftrightarrow> (\<forall>m\<in>set (m # ms). prewrite_guard s (view_of content (mut_Key m)))"
    using 1(3) 2(5) by simp
  moreover have "Prewrite_loop req txn (m # ms) errs = Inr (errs @ (e @ more1), txn')" using 1(1) 2(1) by simp
  ultimately show ?case using 2(2,3) by (intro exI conjI) (assumption | blast)+
qed

end

end
