(* ===== verification/Txn_Safety.thy ===== *)
theory Txn_Safety
  imports Txn_Spec
begin

text \<open>
  Safety of the transaction protocol.  Every command that writes takes the view of each key it names
  through a step of \<open>key_step\<close>; the invariant \<open>view_inv\<close> of these steps gives the isolation and
  atomicity properties of the store, for every sequence of commands.
\<close>

subsection \<open>Steps of one key\<close>

text \<open>\<open>s\<close> is the start timestamp of the transaction and \<open>ct\<close> its commit timestamp, if it has one.\<close>

inductive key_step :: "u64 \<Rightarrow> u64 \<Rightarrow> View \<Rightarrow> View \<Rightarrow> bool" for s ct :: u64 where
  prewrite: "prewritten s v v' \<Longrightarrow> key_step s ct v v'"
| commit: "s \<le> ct \<Longrightarrow> own_lock s v = Some l \<Longrightarrow> key_step s ct v (commit_upd s ct v v)"
| rollback: "key_step s ct v (rollback_upd s v v)"

definition view_inv :: "View \<Rightarrow> bool" where
  "view_inv v \<longleftrightarrow>
     ts_ok v \<and>
     (\<forall>l. vw_lock v = Some l \<longrightarrow>
        (\<forall>t w. vw_writes v t = Some w \<longrightarrow> wr_StartTS w \<noteq> lock_Ts l) \<and>
        (\<forall>t w. vw_writes v t = Some w \<and> data_write w \<longrightarrow> t < lock_Ts l) \<and>
        (lock_Kind l = WriteKindPut \<longrightarrow> vw_values v (lock_Ts l) \<noteq> None)) \<and>
     (\<forall>t1 w1 t2 w2. vw_writes v t1 = Some w1 \<and> data_write w1 \<and> vw_writes v t2 = Some w2 \<and> data_write w2 \<and>
        t1 < t2 \<longrightarrow> t1 < wr_StartTS w2) \<and>
     (\<forall>t w. vw_writes v t = Some w \<and> wr_Kind w = WriteKindPut \<longrightarrow> vw_values v (wr_StartTS w) \<noteq> None) \<and>
     (\<forall>t1 w1 t2 w2. vw_writes v t1 = Some w1 \<and> vw_writes v t2 = Some w2 \<and> wr_StartTS w1 = wr_StartTS w2 \<longrightarrow>
        t1 = t2)"

lemma view_inv_empty: "view_inv \<lparr>vw_lock = None, vw_writes = (\<lambda>_. None), vw_values = (\<lambda>_. None)\<rparr>"
  by (simp add: view_inv_def ts_ok_def)

lemma view_invD:
  assumes "view_inv v"
  shows "vw_writes v t = Some w \<Longrightarrow> wr_StartTS w \<le> t"
    and "vw_lock v = Some l \<Longrightarrow> vw_writes v t = Some w \<Longrightarrow> wr_StartTS w \<noteq> lock_Ts l"
    and "vw_lock v = Some l \<Longrightarrow> vw_writes v t = Some w \<Longrightarrow> data_write w \<Longrightarrow> t < lock_Ts l"
    and "vw_lock v = Some l \<Longrightarrow> lock_Kind l = WriteKindPut \<Longrightarrow> vw_values v (lock_Ts l) \<noteq> None"
    and "vw_writes v t1 = Some w1 \<Longrightarrow> data_write w1 \<Longrightarrow> vw_writes v t2 = Some w2 \<Longrightarrow> data_write w2 \<Longrightarrow>
      t1 < t2 \<Longrightarrow> t1 < wr_StartTS w2"
    and "vw_writes v t = Some w \<Longrightarrow> wr_Kind w = WriteKindPut \<Longrightarrow> vw_values v (wr_StartTS w) \<noteq> None"
    and "vw_writes v t1 = Some w1 \<Longrightarrow> vw_writes v t2 = Some w2 \<Longrightarrow> wr_StartTS w1 = wr_StartTS w2 \<Longrightarrow> t1 = t2"
  using assms unfolding view_inv_def ts_ok_def by blast+

lemma view_invI:
  assumes "\<And>t w. vw_writes v t = Some w \<Longrightarrow> wr_StartTS w \<le> t"
    and "\<And>l t w. vw_lock v = Some l \<Longrightarrow> vw_writes v t = Some w \<Longrightarrow> wr_StartTS w \<noteq> lock_Ts l"
    and "\<And>l t w. vw_lock v = Some l \<Longrightarrow> vw_writes v t = Some w \<Longrightarrow> data_write w \<Longrightarrow> t < lock_Ts l"
    and "\<And>l. vw_lock v = Some l \<Longrightarrow> lock_Kind l = WriteKindPut \<Longrightarrow> vw_values v (lock_Ts l) \<noteq> None"
    and "\<And>t1 w1 t2 w2. vw_writes v t1 = Some w1 \<Longrightarrow> data_write w1 \<Longrightarrow> vw_writes v t2 = Some w2 \<Longrightarrow>
      data_write w2 \<Longrightarrow> t1 < t2 \<Longrightarrow> t1 < wr_StartTS w2"
    and "\<And>t w. vw_writes v t = Some w \<Longrightarrow> wr_Kind w = WriteKindPut \<Longrightarrow> vw_values v (wr_StartTS w) \<noteq> None"
    and "\<And>t1 w1 t2 w2. vw_writes v t1 = Some w1 \<Longrightarrow> vw_writes v t2 = Some w2 \<Longrightarrow>
      wr_StartTS w1 = wr_StartTS w2 \<Longrightarrow> t1 = t2"
  shows "view_inv v"
  using assms unfolding view_inv_def ts_ok_def by blast

lemma rollback_record_simps [simp]:
  "wr_StartTS (rollback_record s) = s" "\<not> data_write (rollback_record s)"
  "wr_Kind (rollback_record s) = WriteKindRollback" "wr_Kind (rollback_record s) \<noteq> WriteKindPut"
  by (simp_all add: rollback_record_def data_write_def)

lemma data_write_Put: "wr_Kind w = WriteKindPut \<Longrightarrow> data_write w"
  by (simp add: data_write_def)

lemma own_lockD: "own_lock s v = Some l \<Longrightarrow> vw_lock v = Some l \<and> lock_Ts l = s"
  by (auto simp: own_lock_def split: option.splits if_splits)

text \<open>A transaction that holds the lock of a key has no data record on it.\<close>

lemma own_lock_no_data:
  assumes "view_inv v" "own_lock s v = Some l" "vw_writes v t = Some w" "data_write w"
  shows "t < s" "wr_StartTS w < s"
proof -
  show "t < s" using view_invD(3) [OF assms(1) _ assms(3,4), of l] own_lockD [OF assms(2)] by simp
  with view_invD(1) [OF assms(1,3)] show "wr_StartTS w < s" by simp
qed

lemma prewrite_inv:
  assumes inv: "view_inv v" and p: "prewritten s v u"
  shows "view_inv u"
proof -
  have w: "vw_writes u = vw_writes v" and g: "\<And>t. s \<le> t \<Longrightarrow> vw_writes v t = None"
    and vals: "\<And>t. t \<noteq> s \<Longrightarrow> vw_values u t = vw_values v t"
    using p by (auto simp: prewritten_def prewrite_guard_def)
  from p obtain l where l: "vw_lock u = Some l" "lock_Ts l = s"
    "lock_Kind l = WriteKindPut \<longrightarrow> vw_values u s \<noteq> None" by (auto simp: prewritten_def)
  have old: "t < s" if "vw_writes v t = Some w" for t w
    using g [of t] that by (cases "s \<le> t") auto
  have start: "wr_StartTS w \<noteq> s" if "vw_writes v t = Some w" for t w
    using view_invD(1) [OF inv that] old [OF that] by auto
  show ?thesis
  proof (rule view_invI)
    show "vw_values u (wr_StartTS w) \<noteq> None"
      if "vw_writes u t = Some w" "wr_Kind w = WriteKindPut" for t w
      using view_invD(6) [OF inv, of t w] that start w vals by simp
    show "t < lock_Ts l'" if "vw_lock u = Some l'" "vw_writes u t = Some x" for l' t x
      using that l w old by simp
    show "wr_StartTS x \<noteq> lock_Ts l'" if "vw_lock u = Some l'" "vw_writes u t = Some x" for l' t x
      using that l w start by simp
  qed (use w l view_invD(1,5,7) [OF inv] in simp_all)
qed

lemma commit_inv:
  assumes inv: "view_inv v" and l: "own_lock s v = Some l" and ct: "s \<le> ct"
  shows "view_inv (commit_upd s ct v v)"
proof -
  note D = view_invD [OF inv]
  have old: "t < s" "wr_StartTS w < s" if "vw_writes v t = Some w" "data_write w" for t w
    using own_lock_no_data [OF inv l that] by auto
  have free: "wr_StartTS w \<noteq> s" if "vw_writes v t = Some w" for t w
    using D(2) [OF _ that, of l] own_lockD [OF l] by simp
  define w0 where "w0 = \<lparr>wr_StartTS = s, wr_Kind = lock_Kind l\<rparr>"
  define u where "u = commit_upd s ct v v"
  have u: "vw_lock u = None" "vw_writes u = (vw_writes v)(ct \<mapsto> w0)" "vw_values u = vw_values v"
    by (simp_all add: u_def commit_upd_def l w0_def)
  have "view_inv u"
  proof (rule view_invI)
    show "wr_StartTS w \<le> t" if "vw_writes u t = Some w" for t w
      using that D(1) ct by (auto simp: u w0_def split: if_splits)
    show "t1 < wr_StartTS w2" if "vw_writes u t1 = Some w1" "data_write w1"
      "vw_writes u t2 = Some w2" "data_write w2" "t1 < t2" for t1 w1 t2 w2
    proof (cases "t2 = ct")
      case True
      with that old [of t1 w1] show ?thesis by (auto simp: u w0_def split: if_splits)
    next
      case False
      then have "t2 < s" using that(3,4) old(1) by (simp add: u)
      then have "t1 \<noteq> ct" using that(5) ct by auto
      with False that D(5) show ?thesis by (simp add: u)
    qed
    show "vw_values u (wr_StartTS w) \<noteq> None"
      if "vw_writes u t = Some w" "wr_Kind w = WriteKindPut" for t w
      using that D(4) D(6) own_lockD [OF l] by (auto simp: u w0_def split: if_splits)
    show "t1 = t2" if "vw_writes u t1 = Some w1" "vw_writes u t2 = Some w2"
      "wr_StartTS w1 = wr_StartTS w2" for t1 w1 t2 w2
      using that free [of t1 w1] free [of t2 w2] D(7) [of t1 w1 t2 w2]
      by (cases "t1 = ct"; cases "t2 = ct") (auto simp: u w0_def)
  qed (simp_all add: u)
  then show ?thesis by (simp add: u_def)
qed

lemma rollback_inv:
  assumes inv: "view_inv v"
  shows "view_inv (rollback_upd s v v)"
proof (cases "own_lock s v = None \<and> own_write s v")
  case True
  with inv show ?thesis by (simp add: rollback_upd_def)
next
  case False
  note D = view_invD [OF inv]
  define u where "u = rollback_upd s v v"
  have w: "vw_writes u = (vw_writes v)(s \<mapsto> rollback_record s)"
    using False by (auto simp: u_def rollback_upd_def split: option.split)
  have start: "wr_StartTS w \<noteq> s" if "vw_writes v t = Some w" for t w
  proof (cases "own_lock s v")
    case None
    with False have "\<not> own_write s v" by simp
    with D(1) [OF that(1)] that show ?thesis by (auto simp: own_write_def)
  next
    case (Some l)
    with D(2) [OF _ that, of l] own_lockD [OF Some] show ?thesis by simp
  qed
  have lock: "vw_lock u = Some l \<Longrightarrow> vw_lock v = Some l \<and> lock_Ts l \<noteq> s" for l
    by (auto simp: u_def rollback_upd_def own_lock_def split: option.splits if_splits)
  have vals: "vw_values u t = vw_values v t" if "t \<noteq> s" for t
    using that by (auto simp: u_def rollback_upd_def split: option.split)
  have data: "vw_writes v t = Some x \<and> t \<noteq> s" if "vw_writes u t = Some x" "data_write x" for t x
    using that by (auto simp: w split: if_splits)
  have "view_inv u"
  proof (rule view_invI)
    show "vw_values u (wr_StartTS x) \<noteq> None"
      if "vw_writes u t = Some x" "wr_Kind x = WriteKindPut" for t x
      using data [OF that(1) data_write_Put [OF that(2)]] start [of t x] D(6) [of t x] that(2) vals
      by simp
    show "t1 < wr_StartTS w2" if "vw_writes u t1 = Some w1" "data_write w1"
      "vw_writes u t2 = Some w2" "data_write w2" "t1 < t2" for t1 w1 t2 w2
      using data that D(5) by metis
    show "t1 = t2" if "vw_writes u t1 = Some w1" "vw_writes u t2 = Some w2"
      "wr_StartTS w1 = wr_StartTS w2" for t1 w1 t2 w2
      using that start [of t1 w1] start [of t2 w2] D(7) [of t1 w1 t2 w2]
      by (cases "t1 = s"; cases "t2 = s") (auto simp: w)
    show "wr_StartTS x \<le> t" if "vw_writes u t = Some x" for t x
      using that D(1) [of t x] by (cases "t = s") (auto simp: w)
    show "wr_StartTS x \<noteq> lock_Ts l" if "vw_lock u = Some l" "vw_writes u t = Some x" for l t x
      using lock [OF that(1)] that(2) D(2) [of l t x] by (cases "t = s") (auto simp: w)
    show "t < lock_Ts l" if "vw_lock u = Some l" "vw_writes u t = Some x" "data_write x" for l t x
      using lock [OF that(1)] D(3) [of l t x] data [OF that(2,3)] that(3) by simp
    show "vw_values u (lock_Ts l) \<noteq> None" if "vw_lock u = Some l" "lock_Kind l = WriteKindPut" for l
      using lock [OF that(1)] D(4) [of l] that(2) vals [of "lock_Ts l"] by simp
  qed
  then show ?thesis by (simp add: u_def)
qed

lemma key_step_inv: "key_step s ct v v' \<Longrightarrow> view_inv v \<Longrightarrow> view_inv v'"
  by (induction rule: key_step.induct) (simp_all add: prewrite_inv commit_inv rollback_inv)

subsection \<open>Every command is a step on each of its keys\<close>

text \<open>
  The keys a command may write once its \<^verbatim>\<open>Read\<close> phase is over, and the requests the protocol
  allows: known operations in a prewrite, and in a \<^verbatim>\<open>ResolveLock\<close> the locks found by its own
  \<^verbatim>\<open>Read\<close>.
\<close>

fun cmd_keys :: "Command \<Rightarrow> bytes set" where
  "cmd_keys (Get req) = {}"
| "cmd_keys (Scan req) = {}"
| "cmd_keys (Prewrite req) = mut_Key ` set (pw_Mutations req)"
| "cmd_keys (Commit req) = set (case cm_Keys req of None \<Rightarrow> [] | Some ks \<Rightarrow> ks)"
| "cmd_keys (Rollback req) = set (case rb_Keys req of None \<Rightarrow> [] | Some ks \<Rightarrow> ks)"
| "cmd_keys (ResolveLock req kls) = kl_Key ` set kls"
| "cmd_keys (CheckTxnStatus req) = {ct_PrimaryKey req}"

fun cmd_ok :: "Command \<Rightarrow> bool" where
  "cmd_ok (Prewrite req) = (\<forall>m\<in>set (pw_Mutations req). valid_op (mut_Op m))"
| "cmd_ok (ResolveLock req kls) = (\<forall>kl\<in>set kls. lock_Ts (kl_Lock kl) = rl_StartVersion req)"
| "cmd_ok cmd = True"

definition steps_on :: "u64 \<Rightarrow> u64 \<Rightarrow> bytes set \<Rightarrow> (bytes \<Rightarrow> View) \<Rightarrow> (bytes \<Rightarrow> View) \<Rightarrow> bool" where
  "steps_on s ct K V V' \<longleftrightarrow> (\<forall>k. V' k = V k \<or> k \<in> K \<and> key_step s ct (V k) (V' k))"

lemma steps_on_refl: "steps_on s ct K V V"
  by (simp add: steps_on_def)

lemma steps_on_inv: "steps_on s ct K V V' \<Longrightarrow> \<forall>k. view_inv (V k) \<Longrightarrow> \<forall>k. view_inv (V' k)"
  unfolding steps_on_def using key_step_inv by metis

lemma touched_steps:
  assumes "touched U K V V'" "\<And>k. U k (V k) = V k \<or> key_step s ct (V k) (U k (V k))"
  shows "steps_on s ct K V V'"
  using assms unfolding touched_def steps_on_def by metis

lemma commit_upd_step:
  assumes "s \<le> ct"
  shows "commit_upd s ct v v = v \<or> key_step s ct v (commit_upd s ct v v)"
proof (cases "own_lock s v")
  case None
  then show ?thesis by (simp add: commit_upd_def)
next
  case (Some l)
  with assms show ?thesis by (blast intro: key_step.commit)
qed

fun CommitTs :: "Command \<Rightarrow> u64" where
  "CommitTs (Commit req) = cm_CommitVersion req"
| "CommitTs (ResolveLock req kls) = rl_CommitVersion req"
| "CommitTs cmd = 0"

text \<open>
  \<open>prepares rd c cmd\<close>: preparing the writes of \<open>cmd\<close> on a reader of the contents \<open>c\<close> returns, and if
  it does not fail the collected writes make a step on keys of the command only.
\<close>

definition prepares :: "'it StorageReader \<Rightarrow> (string \<Rightarrow> cf_content) \<Rightarrow> Command \<Rightarrow> bool" where
  "prepares rd c cmd \<longleftrightarrow>
     (\<exists>r. PrepareWrites cmd (NewTxn rd (StartTs cmd)) = Some r \<and>
        (\<forall>resp txn. r = Inr (resp, txn) \<longrightarrow>
           (\<exists>V. txn_ok rd (StartTs cmd) c txn V \<and> steps_on (StartTs cmd) (CommitTs cmd) (cmd_keys cmd) (view_of c) V)))"

lemma preparesI:
  "PrepareWrites cmd (NewTxn rd (StartTs cmd)) = Some (Inr (resp, txn)) \<Longrightarrow>
    txn_ok rd (StartTs cmd) c txn V \<Longrightarrow> steps_on (StartTs cmd) (CommitTs cmd) (cmd_keys cmd) (view_of c) V \<Longrightarrow>
    prepares rd c cmd"
  unfolding prepares_def by blast

context mvcc_reader
begin

lemma new_ok: "txn_ok rd s content (NewTxn rd s) (view_of content)"
  by (rule txn_ok_new [OF content_is_ok])

lemma Prewrite_prepares:
  assumes "cmd_ok (Prewrite req)"
  shows "prepares rd content (Prewrite req)"
proof -
  let ?s = "pw_StartVersion req" and ?ms = "pw_Mutations req"
  from Prewrite_loop_spec [OF new_ok, of ?ms ?s req "[]"] assms obtain more txn V where
    r: "Prewrite_loop req (NewTxn rd ?s) ?ms [] = Inr (more, txn)" "txn_ok rd ?s content txn V"
      "\<forall>k. V k = view_of content k \<or> prewritten ?s (view_of content k) (V k)"
      "\<forall>k. k \<notin> mut_Key ` set ?ms \<longrightarrow> V k = view_of content k" by auto
  then have "steps_on ?s 0 (mut_Key ` set ?ms) (view_of content) V"
    unfolding steps_on_def using key_step.prewrite by blast
  with r(1,2) show ?thesis by (intro preparesI) (simp_all add: Prewrite_PrepareWrites_def)
qed

lemma Commit_prepares: "prepares rd content (Commit req)"
proof (cases "cm_CommitVersion req \<le> cm_StartVersion req")
  case True
  then show ?thesis by (simp add: prepares_def Commit_PrepareWrites_def NewTxn_def)
next
  case False
  let ?s = "cm_StartVersion req" and ?ks = "case cm_Keys req of None \<Rightarrow> [] | Some ks \<Rightarrow> ks"
  let ?ct = "cm_CommitVersion req"
  from Commit_loop_spec [OF new_ok, of ?ks ?ct ?s] obtain ke txn V where
    r: "Commit_loop ?ks ?ct (NewTxn rd ?s) = Some (Inr (ke, txn))" "txn_ok rd ?s content txn V"
      "touched (\<lambda>k. commit_upd ?s ?ct (view_of content k)) (set ?ks) (view_of content) V" by blast
  have "steps_on ?s ?ct (set ?ks) (view_of content) V"
    by (rule touched_steps [OF r(3) commit_upd_step]) (use False in simp)
  moreover have "txn_StartTS (NewTxn rd ?s) = ?s" by (simp add: NewTxn_def)
  ultimately show ?thesis
    using r(1,2) False by (intro preparesI) (simp_all add: Commit_PrepareWrites_def)
qed

lemma Rollback_prepares:
  assumes "\<And>k. ts_ok (view_of content k)"
  shows "prepares rd content (Rollback req)"
proof -
  let ?s = "rb_StartVersion req" and ?ks = "case rb_Keys req of None \<Rightarrow> [] | Some ks \<Rightarrow> ks"
  from Rollback_loop_spec [OF new_ok assms, of ?ks ?s] obtain ke txn V where
    r: "Rollback_loop ?ks (NewTxn rd ?s) = Some (Inr (ke, txn))" "txn_ok rd ?s content txn V"
      "touched (\<lambda>k. rollback_upd ?s (view_of content k)) (set ?ks) (view_of content) V" by blast
  have "steps_on ?s 0 (set ?ks) (view_of content) V"
    by (rule touched_steps [OF r(3)]) (simp add: key_step.rollback)
  with r(1,2) show ?thesis by (intro preparesI) (simp_all add: Rollback_PrepareWrites_def)
qed

lemma ResolveLock_prepares:
  assumes "\<And>k. ts_ok (view_of content k)" "cmd_ok (ResolveLock req kls)"
  shows "prepares rd content (ResolveLock req kls)"
proof -
  let ?s = "rl_StartVersion req" and ?l = "sample_lock\<lparr>lock_Ts := rl_StartVersion req\<rparr>"
  let ?U = "\<lambda>k. resolve_upd req \<lparr>kl_Key = k, kl_Lock = ?l\<rparr> (view_of content k)"
  from ResolveLock_loop_spec [OF new_ok assms(1), of kls req ?l None] assms(2) obtain ke txn V where
    r: "ResolveLock_loop req kls None (NewTxn rd ?s) = Some (Inr (ke, txn))" "txn_ok rd ?s content txn V"
      "touched ?U (kl_Key ` set kls) (view_of content) V" by auto
  have "?U k (view_of content k) = view_of content k \<or>
      key_step ?s (rl_CommitVersion req) (view_of content k) (?U k (view_of content k))" for k
    using commit_upd_step [of ?s "rl_CommitVersion req"] key_step.rollback
    by (simp add: resolve_upd_def)
  from touched_steps [OF r(3) this] r(1,2) show ?thesis
    by (intro preparesI) (simp_all add: ResolveLock_PrepareWrites_def)
qed

lemma CheckTxnStatus_prepares:
  assumes "\<And>k. ts_ok (view_of content k)"
  shows "prepares rd content (CheckTxnStatus req)"
proof -
  let ?k = "ct_PrimaryKey req"
  let ?V = "(view_of content)(?k := check_upd req (view_of content ?k))"
  from CheckTxnStatus_spec [OF assms, of req] obtain resp txn where
    r: "CheckTxnStatus_PrepareWrites req (NewTxn rd (ct_LockTs req)) = Some (Inr (RespCheckTxnStatus resp, txn))"
      "txn_ok rd (ct_LockTs req) content txn ?V" by blast
  have "steps_on (ct_LockTs req) 0 {?k} (view_of content) ?V"
    by (auto simp: steps_on_def check_upd_def Let_def key_step.rollback split: option.split)
  with r show ?thesis by (intro preparesI) simp_all
qed

lemma PrepareWrites_prepares:
  assumes "\<And>k. ts_ok (view_of content k)" "cmd_ok cmd"
  shows "prepares rd content cmd"
proof (cases cmd)
  case (Get req)
  show ?thesis by (rule preparesI [OF _ new_ok steps_on_refl]) (simp add: Get)
next
  case (Scan req)
  show ?thesis by (rule preparesI [OF _ new_ok steps_on_refl]) (simp add: Scan)
qed (use assms in \<open>simp_all add: Prewrite_prepares Commit_prepares Rollback_prepares
  ResolveLock_prepares CheckTxnStatus_prepares\<close>)

end

subsection \<open>What later steps keep\<close>

text \<open>A data record and its value stay, unless a later transaction starts at the very commit timestamp.\<close>

lemma key_step_durable:
  assumes "key_step s ct v v'" "view_inv v" "vw_writes v t = Some w" "data_write w" "s \<noteq> t"
  shows "vw_writes v' t = Some w \<and> vw_values v' (wr_StartTS w) = vw_values v (wr_StartTS w)"
  using assms
proof (induction rule: key_step.induct)
  case (prewrite v v')
  then have "vw_writes v' = vw_writes v" "\<not> s \<le> t" "wr_StartTS w \<le> t"
    using view_invD(1) [OF prewrite(2,3)] by (auto simp: prewritten_def prewrite_guard_def)
  moreover have "vw_values v' (wr_StartTS w) = vw_values v (wr_StartTS w)"
    using prewrite(1) calculation(2,3) by (auto simp: prewritten_def)
  ultimately show ?case using prewrite by simp
next
  case (commit v l)
  have "t < s" by (rule own_lock_no_data [OF commit(3,2,4,5)])
  with commit show ?case by (auto simp: commit_upd_def)
next
  case (rollback v)
  then have "wr_StartTS w \<noteq> s" if "own_lock s v = Some l" for l
    using own_lock_no_data(2) [OF rollback(1) that rollback(2,3)] by simp
  with rollback show ?case by (auto simp: rollback_upd_def split: option.split)
qed

text \<open>\<open>dead s v\<close>: the transaction \<open>s\<close> can no longer put a record on this key.\<close>

definition dead :: "u64 \<Rightarrow> View \<Rightarrow> bool" where
  "dead s v \<longleftrightarrow> (\<exists>t\<ge>s. vw_writes v t \<noteq> None) \<and> own_lock s v = None \<and>
     (\<forall>t w. vw_writes v t = Some w \<and> data_write w \<longrightarrow> wr_StartTS w \<noteq> s)"

lemma key_step_dead:
  assumes "key_step s' ct v v'" "dead s v"
  shows "dead s v'"
  using assms
proof (induction rule: key_step.induct)
  case (prewrite v v')
  then have "s \<noteq> s'" by (auto simp: dead_def prewritten_def prewrite_guard_def)
  with prewrite show ?case by (auto simp: dead_def prewritten_def own_lock_def)
next
  case (commit v l)
  then have "s \<noteq> s'" by (auto simp: dead_def)
  with commit show ?case by (auto simp: dead_def commit_upd_def own_lock_def)
next
  case (rollback v)
  let ?u = "rollback_upd s' v v"
  have "vw_writes ?u t \<noteq> None" if "vw_writes v t \<noteq> None" for t
    using that by (auto simp: rollback_upd_def split: option.split)
  moreover have "own_lock s ?u = None"
    using rollback by (auto simp: dead_def rollback_upd_def own_lock_def split: option.splits if_splits)
  moreover have "vw_writes v t = Some w" if "vw_writes ?u t = Some w" "data_write w" for t w
    using that by (auto simp: rollback_upd_def split: option.splits if_splits)
  ultimately show ?case using rollback unfolding dead_def by blast
qed

text \<open>What a reader at \<open>ts\<close> sees, on a view.\<close>

definition view_snapshot :: "View \<Rightarrow> u64 \<Rightarrow> gobytes \<Rightarrow> bool" where
  "view_snapshot v ts x \<longleftrightarrow>
     (\<exists>ct w. ct \<le> ts \<and> vw_writes v ct = Some w \<and> data_write w \<and>
        (\<forall>t w'. ct < t \<and> t \<le> ts \<and> vw_writes v t = Some w' \<longrightarrow> \<not> data_write w') \<and>
        x = (if wr_Kind w = WriteKindPut then Option.bind (vw_values v (wr_StartTS w)) id else None)) \<or>
     (\<forall>t w. t \<le> ts \<and> vw_writes v t = Some w \<longrightarrow> \<not> data_write w) \<and> x = None"

lemma snapshot_value_view: "snapshot_value c k ts x \<longleftrightarrow> view_snapshot (view_of c k) ts x"
proof -
  have "value_at c k s = Option.bind (vw_values (view_of c k) s) id" for s
    by (simp add: value_at_def split: option.split)
  then show ?thesis by (simp add: snapshot_value_def view_snapshot_def)
qed

text \<open>Two views with the same data records up to \<open>ts\<close> show the same snapshots up to \<open>ts\<close>.\<close>

definition same_past :: "u64 \<Rightarrow> View \<Rightarrow> View \<Rightarrow> bool" where
  "same_past ts v v' \<longleftrightarrow> (\<forall>t w. t \<le> ts \<and> data_write w \<longrightarrow> (vw_writes v t = Some w \<longleftrightarrow> vw_writes v' t = Some w)) \<and>
     (\<forall>t w. t \<le> ts \<and> vw_writes v t = Some w \<and> data_write w \<longrightarrow>
        vw_values v' (wr_StartTS w) = vw_values v (wr_StartTS w))"

lemma same_past_sym: "same_past ts v v' \<Longrightarrow> same_past ts v' v"
  unfolding same_past_def by (intro conjI; metis)

lemma same_past_snapshot1:
  assumes "same_past ts v v'" "view_snapshot v ts x"
  shows "view_snapshot v' ts x"
proof -
  have eq: "vw_writes v t = Some w \<longleftrightarrow> vw_writes v' t = Some w" if "t \<le> ts" "data_write w" for t w
    using assms(1) that by (simp add: same_past_def)
  from assms(2) consider
    (seen) ct w where "ct \<le> ts" "vw_writes v ct = Some w" "data_write w"
      "\<forall>t w'. ct < t \<and> t \<le> ts \<and> vw_writes v t = Some w' \<longrightarrow> \<not> data_write w'"
      "x = (if wr_Kind w = WriteKindPut then Option.bind (vw_values v (wr_StartTS w)) id else None)"
  | (none) "\<forall>t w. t \<le> ts \<and> vw_writes v t = Some w \<longrightarrow> \<not> data_write w" "x = None"
    unfolding view_snapshot_def by blast
  then show ?thesis
  proof cases
    case seen
    have "vw_values v' (wr_StartTS w) = vw_values v (wr_StartTS w)"
      using assms(1) seen(1,2,3) unfolding same_past_def by blast
    moreover have "vw_writes v' ct = Some w" using eq seen(1,2,3) by blast
    moreover have "\<forall>t w'. ct < t \<and> t \<le> ts \<and> vw_writes v' t = Some w' \<longrightarrow> \<not> data_write w'"
      using eq seen(4) by blast
    ultimately show ?thesis
      unfolding view_snapshot_def using seen(1,3,5) by (intro disjI1 exI [of _ ct] exI [of _ w]) simp
  next
    case none
    then show ?thesis unfolding view_snapshot_def using eq by blast
  qed
qed

lemma same_past_snapshot: "same_past ts v v' \<Longrightarrow> view_snapshot v ts x \<longleftrightarrow> view_snapshot v' ts x"
  using same_past_snapshot1 same_past_sym by blast

lemma key_step_same_past:
  assumes "key_step s ct v v'" "view_inv v" "ts < ct \<or> ct < s"
    and "\<And>w. vw_writes v s = Some w \<Longrightarrow> \<not> data_write w"
  shows "same_past ts v v'"
proof -
  have kept: "vw_writes v' t = Some w \<and> vw_values v' (wr_StartTS w) = vw_values v (wr_StartTS w)"
    if "vw_writes v t = Some w" "data_write w" for t w
    using key_step_durable [OF assms(1,2) that] assms(4) that by blast
  moreover have "vw_writes v t = Some w" if "vw_writes v' t = Some w" "data_write w" "t \<le> ts" for t w
    using assms(1) that assms(3)
  proof cases
    case prewrite
    then show ?thesis using that by (simp add: prewritten_def)
  next
    case (commit l)
    then show ?thesis using that assms(3) by (auto simp: commit_upd_def split: if_splits)
  next
    case rollback
    then show ?thesis using that
      by (auto simp: rollback_upd_def split: option.splits if_splits)
  qed
  ultimately show ?thesis unfolding same_past_def by blast
qed

subsection \<open>Serial runs\<close>

text \<open>
  \<open>serial st s cs s'\<close>: the commands \<open>cs\<close> that had to write were run one after the other, each to
  its end, and took the store from \<open>s\<close> to \<open>s'\<close>.  \<open>store_good\<close> is the invariant of such runs.
\<close>

inductive serial :: "('s, 'it) Storage \<Rightarrow> 's \<Rightarrow> Command list \<Rightarrow> 's \<Rightarrow> bool" for st where
  serial_Nil: "serial st s [] s"
| serial_snoc: "serial st s cs s1 \<Longrightarrow> cmd_ok cmd \<Longrightarrow> RunCommand_write st cmd s1 = Some (r, s2) \<Longrightarrow>
    serial st s (cs @ [cmd]) s2"

inductive_cases serial_snocE: "serial st s (cs @ [cmd]) s2"

definition store_good :: "('s \<Rightarrow> bool) \<Rightarrow> ('s \<Rightarrow> string \<Rightarrow> cf_content) \<Rightarrow> 's \<Rightarrow> bool" where
  "store_good ok contents s \<longleftrightarrow>
     ok s \<and> mvcc_wf (contents s) \<and> (\<forall>k. view_inv (view_of (contents s) k))"

lemma view_of_empty: "view_of (\<lambda>_. []) k = \<lparr>vw_lock = None, vw_writes = (\<lambda>_. None), vw_values = (\<lambda>_. None)\<rparr>"
  by (simp add: view_of_def lock_at_def write_at_def fun_eq_iff)

lemma store_good_empty: "ok s \<Longrightarrow> contents s = (\<lambda>_. []) \<Longrightarrow> store_good ok contents s"
  by (simp add: store_good_def mvcc_wf_def view_of_empty view_inv_empty)

context kv_storage
begin

lemma good_reader:
  assumes "store_good inv abs s"
  obtains rd where "Reader st s = Inr rd" "mvcc_reader rd (abs s) (iter_on s) (rest s)"
proof -
  from assms reader_ok obtain rd where "Reader st s = Inr rd" by (auto simp: store_good_def)
  moreover from this assms reader_laws have "mvcc_reader rd (abs s) (iter_on s) (rest s)"
    by (auto simp: store_good_def intro: mvcc_reader.intro mvcc_reader_axioms.intro)
  ultimately show ?thesis by (rule that)
qed

lemma good_prepares:
  assumes "store_good inv abs s" "cmd_ok cmd" "Reader st s = Inr rd"
  shows "prepares rd (abs s) cmd"
proof -
  from assms have "mvcc_reader rd (abs s) (iter_on s) (rest s)"
    using good_reader by (metis sum.inject(2))
  then show ?thesis
    using assms by (intro mvcc_reader.PrepareWrites_prepares) (auto simp: store_good_def view_inv_def)
qed

lemma good_write:
  assumes good: "store_good inv abs s" and rd: "Reader st s = Inr rd" and cmd: "cmd_ok cmd"
    and p: "PrepareWrites cmd (NewTxn rd (StartTs cmd)) = Some (Inr (resp, txn))"
    and w: "WriteBatch st s (txn_writes txn) = Inr s'"
  shows "store_good inv abs s'"
    and "steps_on (StartTs cmd) (CommitTs cmd) (cmd_keys cmd) (view_of (abs s)) (view_of (abs s'))"
proof -
  from good_prepares [OF good cmd rd] p obtain V where
    V: "txn_ok rd (StartTs cmd) (abs s) txn V"
      "steps_on (StartTs cmd) (CommitTs cmd) (cmd_keys cmd) (view_of (abs s)) V"
    by (auto simp: prepares_def)
  have inv: "inv s" using good by (simp add: store_good_def)
  have s': "abs s' = apply_batch (txn_writes txn) (abs s)" by (rule write_abs [OF inv _ w]) (use V(1) in \<open>simp add: txn_ok_def\<close>)
  then have V': "view_of (abs s') = V" "content_ok (abs s')" using V(1) by (simp_all add: txn_ok_def)
  with V(2) show "steps_on (StartTs cmd) (CommitTs cmd) (cmd_keys cmd) (view_of (abs s)) (view_of (abs s'))"
    by simp
  then have "\<forall>k. view_inv (view_of (abs s') k)"
    by (rule steps_on_inv) (use good in \<open>simp add: store_good_def\<close>)
  with V'(2) write_inv [OF inv w] show "store_good inv abs s'"
    by (simp add: store_good_def content_ok_def)
qed

lemma RunCommand_write_step:
  assumes "store_good inv abs s" "cmd_ok cmd" "RunCommand_write st cmd s = Some (r, s')"
  shows "store_good inv abs s'"
    and "steps_on (StartTs cmd) (CommitTs cmd) (cmd_keys cmd) (view_of (abs s)) (view_of (abs s'))"
proof -
  obtain rd where rd: "Reader st s = Inr rd" using good_reader [OF assms(1)] by blast
  with assms(3) consider "s' = s"
    | resp txn where "PrepareWrites cmd (NewTxn rd (StartTs cmd)) = Some (Inr (resp, txn))"
      "WriteBatch st s (txn_writes txn) = Inr s'"
    by (auto simp: RunCommand_write_def split: option.splits sum.splits)
  then have "store_good inv abs s' \<and>
    steps_on (StartTs cmd) (CommitTs cmd) (cmd_keys cmd) (view_of (abs s)) (view_of (abs s'))"
    by cases (use assms steps_on_refl good_write [OF assms(1) rd assms(2)] in auto)
  then show "store_good inv abs s'"
    and "steps_on (StartTs cmd) (CommitTs cmd) (cmd_keys cmd) (view_of (abs s)) (view_of (abs s'))"
    by auto
qed

lemma RunCommand_write_returns:
  assumes "store_good inv abs s" "cmd_ok cmd"
  shows "RunCommand_write st cmd s \<noteq> None"
proof -
  obtain rd where rd: "Reader st s = Inr rd" using good_reader [OF assms(1)] by blast
  from good_prepares [OF assms rd] show ?thesis
    by (auto simp: RunCommand_write_def rd prepares_def split: sum.splits)
qed

lemma serial_good: "serial st s cs s' \<Longrightarrow> store_good inv abs s \<Longrightarrow> store_good inv abs s'"
  by (induction rule: serial.induct) (auto intro: RunCommand_write_step)

text \<open>A property of one view that every step of a permitted command keeps is kept by a serial run.\<close>

lemma serial_keeps:
  assumes "serial st s cs s'" "store_good inv abs s" "P (view_of (abs s) k)" "\<forall>cmd\<in>set cs. ok cmd"
    and step: "\<And>cmd v v'. ok cmd \<Longrightarrow> view_inv v \<Longrightarrow> key_step (StartTs cmd) (CommitTs cmd) v v' \<Longrightarrow> P v \<Longrightarrow> P v'"
  shows "P (view_of (abs s') k)"
  using assms(1-4)
proof (induction rule: serial.induct)
  case (serial_snoc s cs s1 cmd r s2)
  have good: "store_good inv abs s1" using serial_good serial_snoc by blast
  note steps = RunCommand_write_step(2) [OF good serial_snoc(2,3)]
  have P: "P (view_of (abs s1) k)" using serial_snoc by simp
  from steps consider "view_of (abs s2) k = view_of (abs s1) k"
    | "key_step (StartTs cmd) (CommitTs cmd) (view_of (abs s1) k) (view_of (abs s2) k)"
    by (auto simp: steps_on_def)
  then show ?case
    by cases (use P good step [of cmd "view_of (abs s1) k" "view_of (abs s2) k"] serial_snoc.prems in
        \<open>auto simp: store_good_def\<close>)
qed

end

subsection \<open>Responses\<close>

lemma rollback_dead:
  assumes inv: "view_inv v"
    and ok: "own_lock s v \<noteq> None \<or> \<not> own_write s v \<or> rolled_back s v"
  shows "dead s (rollback_upd s v v)"
proof (cases "own_lock s v = None \<and> own_write s v")
  case True
  with ok obtain t w where w: "vw_writes v t = Some w" "wr_StartTS w = s" "wr_Kind w = WriteKindRollback"
    by (auto simp: rolled_back_def)
  have "wr_StartTS w' \<noteq> s" if "vw_writes v t' = Some w'" "data_write w'" for t' w'
  proof
    assume "wr_StartTS w' = s"
    with view_invD(7) [OF inv that(1) w(1)] w(2) have "t' = t" by simp
    with that w show False by (simp add: data_write_def)
  qed
  moreover have "\<exists>t\<ge>s. vw_writes v t \<noteq> None" using view_invD(1) [OF inv w(1)] w(1,2) by auto
  moreover have "rollback_upd s v v = v" using True by (simp add: rollback_upd_def)
  ultimately show ?thesis using True unfolding dead_def by auto
next
  case False
  define u where "u = rollback_upd s v v"
  have w: "vw_writes u = (vw_writes v)(s \<mapsto> rollback_record s)"
    using False by (auto simp: u_def rollback_upd_def split: option.split)
  have "wr_StartTS w' \<noteq> s" if "vw_writes v t' = Some w'" for t' w'
  proof (cases "own_lock s v")
    case None
    with False view_invD(1) [OF inv that] that show ?thesis by (auto simp: own_write_def)
  next
    case (Some l)
    with view_invD(2) [OF inv _ that, of l] own_lockD [OF Some] show ?thesis by simp
  qed
  moreover have "own_lock s u = None"
    by (auto simp: u_def rollback_upd_def own_lock_def split: option.splits if_splits)
  ultimately have "dead s u" by (auto simp: dead_def w)
  then show ?thesis by (simp add: u_def)
qed

lemma snapshot_unique:
  assumes "view_snapshot v ts x" "view_snapshot v ts y"
  shows "x = y"
proof -
  have same: "ct = ct' \<and> w = w'"
    if "ct \<le> ts" "vw_writes v ct = Some w" "data_write w"
      "\<forall>t w'. ct < t \<and> t \<le> ts \<and> vw_writes v t = Some w' \<longrightarrow> \<not> data_write w'"
      "ct' \<le> ts" "vw_writes v ct' = Some w'" "data_write w'"
      "\<forall>t w. ct' < t \<and> t \<le> ts \<and> vw_writes v t = Some w \<longrightarrow> \<not> data_write w" for ct w ct' w'
  proof -
    have "\<not> ct < ct'" "\<not> ct' < ct" using that by blast+
    then show ?thesis using that by (simp add: not_less antisym)
  qed
  from assms(1) show ?thesis
    unfolding view_snapshot_def
  proof (elim disjE exE conjE)
    fix ct w
    assume *: "ct \<le> ts" "vw_writes v ct = Some w" "data_write w"
      "\<forall>t w'. ct < t \<and> t \<le> ts \<and> vw_writes v t = Some w' \<longrightarrow> \<not> data_write w'"
      "x = (if wr_Kind w = WriteKindPut then Option.bind (vw_values v (wr_StartTS w)) id else None)"
    with assms(2) obtain ct' w' where "ct' \<le> ts" "vw_writes v ct' = Some w'" "data_write w'"
      "\<forall>t w. ct' < t \<and> t \<le> ts \<and> vw_writes v t = Some w \<longrightarrow> \<not> data_write w"
      "y = (if wr_Kind w' = WriteKindPut then Option.bind (vw_values v (wr_StartTS w')) id else None)"
      unfolding view_snapshot_def by blast
    with same [OF *(1-4)] *(5) show "x = y" by blast
  next
    assume "\<forall>t w. t \<le> ts \<and> vw_writes v t = Some w \<longrightarrow> \<not> data_write w" "x = None"
    with assms(2) show "x = y" unfolding view_snapshot_def by blast
  qed
qed

context kv_storage
begin

lemma write_views:
  assumes "inv s" "Reader st s = Inr rd" "txn_ok rd t (abs s) txn V"
    "WriteBatch st s (txn_writes txn) = Inr s'"
  shows "view_of (abs s') = V"
  using write_abs [OF assms(1) _ assms(4)] assms(3) by (simp add: txn_ok_def)

lemma RunCommand_write_Inr:
  assumes "store_good inv abs s" "RunCommand_write st cmd s = Some (Inr resp, s')"
  obtains rd txn where "Reader st s = Inr rd" "mvcc_reader rd (abs s) (iter_on s) (rest s)"
    "PrepareWrites cmd (NewTxn rd (StartTs cmd)) = Some (Inr (resp, txn))"
    "\<forall>V. txn_ok rd (StartTs cmd) (abs s) txn V \<longrightarrow> view_of (abs s') = V"
proof -
  from good_reader [OF assms(1)] obtain rd where
    rd: "Reader st s = Inr rd" "mvcc_reader rd (abs s) (iter_on s) (rest s)" by blast
  with assms(2) obtain txn where
    p: "PrepareWrites cmd (NewTxn rd (StartTs cmd)) = Some (Inr (resp, txn))"
      "WriteBatch st s (txn_writes txn) = Inr s'"
    by (auto simp: RunCommand_write_def split: option.splits sum.splits)
  have "inv s" using assms(1) by (simp add: store_good_def)
  from write_views [OF this rd(1) _ p(2)] show ?thesis by (intro that [OF rd p(1)]) blast
qed

lemma good_ts_ok: "store_good inv abs s \<Longrightarrow> ts_ok (view_of (abs s) k)"
  by (simp add: store_good_def view_inv_def)

lemma Commit_success:
  assumes good: "store_good inv abs s" and keys: "cm_Keys req = Some ks" "k \<in> set ks"
    and run: "RunCommand_write st (Commit req) s = Some (Inr (RespCommit None), s')"
  defines "v \<equiv> view_of (abs s) k"
  shows "view_of (abs s') k = commit_upd (cm_StartVersion req) (cm_CommitVersion req) v v"
    and "own_lock (cm_StartVersion req) v \<noteq> None \<or> committed_in (cm_StartVersion req) v"
proof -
  let ?s = "cm_StartVersion req" and ?ct = "cm_CommitVersion req"
  from RunCommand_write_Inr [OF good run, unfolded StartTs.simps PrepareWrites.simps] obtain rd txn where
    rd: "mvcc_reader rd (abs s) (iter_on s) (rest s)"
    and p: "Commit_PrepareWrites req (NewTxn rd ?s) = Some (Inr (RespCommit None, txn))"
    and V: "\<forall>V. txn_ok rd ?s (abs s) txn V \<longrightarrow> view_of (abs s') = V" by blast
  from mvcc_reader.Commit_loop_spec [OF rd mvcc_reader.new_ok [OF rd], of ks ?ct ?s] p keys
  obtain V where "txn_ok rd ?s (abs s) txn V"
    "all_touched (\<lambda>k. commit_upd ?s ?ct (view_of (abs s) k)) (set ks) (view_of (abs s)) V"
    and own: "\<forall>k\<in>set ks. own_lock ?s (view_of (abs s) k) \<noteq> None \<or> committed_in ?s (view_of (abs s) k)"
    by (auto simp: Commit_PrepareWrites_def Let_def split: if_splits option.splits sum.splits)
  with V keys(2) show "view_of (abs s') k = commit_upd ?s ?ct v v"
    by (auto simp: all_touched_def v_def)
  show "own_lock ?s v \<noteq> None \<or> committed_in ?s v" using own keys(2) by (simp add: v_def)
qed

lemma Rollback_success:
  assumes good: "store_good inv abs s" and keys: "rb_Keys req = Some ks" "k \<in> set ks"
    and run: "RunCommand_write st (Rollback req) s = Some (Inr (RespRollback None), s')"
  shows "dead (rb_StartVersion req) (view_of (abs s') k)"
proof -
  let ?s = "rb_StartVersion req"
  from RunCommand_write_Inr [OF good run, unfolded StartTs.simps PrepareWrites.simps] obtain rd txn where
    rd: "mvcc_reader rd (abs s) (iter_on s) (rest s)"
    and p: "Rollback_PrepareWrites req (NewTxn rd ?s) = Some (Inr (RespRollback None, txn))"
    and V: "\<forall>V. txn_ok rd ?s (abs s) txn V \<longrightarrow> view_of (abs s') = V" by blast
  from mvcc_reader.Rollback_loop_spec [OF rd mvcc_reader.new_ok [OF rd] good_ts_ok [OF good], of ks ?s] p keys
  obtain V where "txn_ok rd ?s (abs s) txn V"
    "all_touched (\<lambda>k. rollback_upd ?s (view_of (abs s) k)) (set ks) (view_of (abs s)) V"
    "\<forall>k\<in>set ks. own_lock ?s (view_of (abs s) k) \<noteq> None \<or> \<not> own_write ?s (view_of (abs s) k) \<or>
      rolled_back ?s (view_of (abs s) k)"
    by (auto simp: Rollback_PrepareWrites_def split: if_splits option.splits sum.splits)
  with V keys(2) good rollback_dead [of "view_of (abs s) k" ?s] show ?thesis
    by (auto simp: all_touched_def store_good_def)
qed

lemma Prewrite_exact:
  assumes good: "store_good inv abs s" and ops: "cmd_ok (Prewrite req)"
    and dist: "distinct (map mut_Key (pw_Mutations req))"
    and run: "RunCommand_write st (Prewrite req) s = Some (Inr (RespPrewrite errs), s')"
  shows "\<forall>m\<in>set (pw_Mutations req). view_of (abs s') (mut_Key m) =
      (if prewrite_guard (pw_StartVersion req) (view_of (abs s) (mut_Key m))
       then prewrite_upd req (pw_StartVersion req) m (view_of (abs s) (mut_Key m))
       else view_of (abs s) (mut_Key m))"
    and "errs = [] \<longleftrightarrow> (\<forall>m\<in>set (pw_Mutations req).
      prewrite_guard (pw_StartVersion req) (view_of (abs s) (mut_Key m)))"
proof -
  let ?s = "pw_StartVersion req" and ?ms = "pw_Mutations req"
  from RunCommand_write_Inr [OF good run, unfolded StartTs.simps PrepareWrites.simps] obtain rd txn where
    rd: "mvcc_reader rd (abs s) (iter_on s) (rest s)"
    and p: "Prewrite_PrepareWrites req (NewTxn rd ?s) = Some (Inr (RespPrewrite errs, txn))"
    and V: "\<forall>V. txn_ok rd ?s (abs s) txn V \<longrightarrow> view_of (abs s') = V" by blast
  from mvcc_reader.Prewrite_loop_spec [OF rd mvcc_reader.new_ok [OF rd], of ?ms ?s req "[]"] ops
  obtain errs' txn' V' where
    1: "Prewrite_loop req (NewTxn rd ?s) ?ms [] = Inr (errs', txn')" "txn_ok rd ?s (abs s) txn' V'"
      "errs' = [] \<longleftrightarrow> (\<forall>m\<in>set ?ms. prewrite_guard ?s (view_of (abs s) (mut_Key m)))"
    and 2: "distinct (map mut_Key ?ms) \<longrightarrow> (\<forall>m\<in>set ?ms. V' (mut_Key m) =
      (if prewrite_guard ?s (view_of (abs s) (mut_Key m)) then prewrite_upd req ?s m (view_of (abs s) (mut_Key m))
       else view_of (abs s) (mut_Key m)))"
    by auto
  have "errs' = errs" "txn' = txn" using p 1(1) by (simp_all add: Prewrite_PrepareWrites_def)
  with 1(3) show "errs = [] \<longleftrightarrow> (\<forall>m\<in>set ?ms. prewrite_guard ?s (view_of (abs s) (mut_Key m)))" by simp
  from 2 dist V 1(2) \<open>txn' = txn\<close> show "\<forall>m\<in>set ?ms. view_of (abs s') (mut_Key m) =
      (if prewrite_guard ?s (view_of (abs s) (mut_Key m))
       then prewrite_upd req ?s m (view_of (abs s) (mut_Key m)) else view_of (abs s) (mut_Key m))"
    by simp
qed

lemma CheckTxnStatus_exact:
  assumes good: "store_good inv abs s"
    and run: "RunCommand_write st (CheckTxnStatus req) s = Some (Inr resp, s')"
  defines "v \<equiv> view_of (abs s) (ct_PrimaryKey req)"
  shows "view_of (abs s') (ct_PrimaryKey req) = check_upd req v"
    and "\<exists>r. resp = RespCheckTxnStatus r \<and> check_resp req v r"
proof -
  from RunCommand_write_Inr [OF good run, unfolded StartTs.simps PrepareWrites.simps] obtain rd txn where
    rd: "mvcc_reader rd (abs s) (iter_on s) (rest s)"
    and p: "CheckTxnStatus_PrepareWrites req (NewTxn rd (ct_LockTs req)) = Some (Inr (resp, txn))"
    and V: "\<forall>V. txn_ok rd (ct_LockTs req) (abs s) txn V \<longrightarrow> view_of (abs s') = V" by blast
  from mvcc_reader.CheckTxnStatus_spec [OF rd good_ts_ok [OF good], of req] p obtain r where
    "resp = RespCheckTxnStatus r" "check_resp req v r"
    "txn_ok rd (ct_LockTs req) (abs s) txn
      ((view_of (abs s))(ct_PrimaryKey req := check_upd req v))" by (auto simp: v_def)
  with V show "view_of (abs s') (ct_PrimaryKey req) = check_upd req v"
    and "\<exists>r. resp = RespCheckTxnStatus r \<and> check_resp req v r" by auto
qed

end

text \<open>New data records appear at the commit timestamp only.\<close>

lemma key_step_new_data:
  assumes "key_step s ct v v'" "vw_writes v' t = Some w" "data_write w" "t \<noteq> ct"
  shows "vw_writes v t = Some w"
  using assms
  by cases (auto simp: prewritten_def commit_upd_def rollback_upd_def split: option.splits if_splits)

lemma same_past_trans: "same_past ts u v \<Longrightarrow> same_past ts v w \<Longrightarrow> same_past ts u w"
  unfolding same_past_def by metis

context kv_storage
begin

lemma good_GetValue:
  assumes "store_good inv abs s" "Reader st s = Inr rd"
  shows "\<exists>x. GetValue \<lparr>txn_Reader = rd, txn_StartTS = ts\<rparr> k = Some (Inr x) \<and> view_snapshot (view_of (abs s) k) ts x"
proof -
  from good_reader [OF assms(1)] assms(2) have r: "mvcc_reader rd (abs s) (iter_on s) (rest s)" by auto
  from mvcc_reader.GetValue_snapshot [OF r, of "\<lparr>txn_Reader = rd, txn_StartTS = ts\<rparr>" k] show ?thesis
    by (simp add: snapshot_value_view)
qed

lemma RunCommand_read_returns:
  assumes good: "store_good inv abs s" and scan: "\<And>req. cmd \<noteq> Scan req"
  shows "\<exists>r. RunCommand_read st cmd s = Some r"
proof -
  from good_reader [OF good] obtain rd where
    rd: "Reader st s = Inr rd" "mvcc_reader rd (abs s) (iter_on s) (rest s)" by blast
  show ?thesis
  proof (cases cmd)
    case (Get req)
    let ?txn = "\<lparr>txn_Reader = rd, txn_StartTS = get_Version req\<rparr>"
    obtain x where "GetValue ?txn (get_Key req) = Some (Inr x)" using good_GetValue [OF good rd(1)] by blast
    with rd Get mvcc_reader.GetLock_eq [OF rd(2), of ?txn "get_Key req"] show ?thesis
      by (auto simp: RunCommand_read_def Get_Read_def Let_def split: option.split)
  next
    case (ResolveLock req kls)
    with rd mvcc_reader.AllLocksForTxn_eq [OF rd(2), of "\<lparr>txn_Reader = rd, txn_StartTS = rl_StartVersion req\<rparr>"]
    show ?thesis by (simp add: RunCommand_read_def ResolveLock_Read_def)
  qed (use scan rd in \<open>auto simp: RunCommand_read_def split: option.split\<close>)
qed

end

lemma latches_taken_and_released:
  assumes "\<forall>k. latchMap l k = None"
  shows "\<exists>l1 l2. WaitForLatches l keys = Some l1 \<and> ReleaseLatches l1 keys = Some l2 \<and> (\<forall>k. latchMap l2 k = None)"
proof -
  have inv: "latches_inv l (\<lambda>_ :: nat. None)" using assms by (simp add: latches_inv_def)
  have "first_latched l keys = None" using assms by (simp add: first_latched_None)
  then obtain l1 where l1: "AcquireLatches l keys = (None, l1)" by (simp add: AcquireLatches_def Let_def)
  from ReleaseLatches_inv [OF AcquireLatches_inv [OF inv l1 refl, of 0], of 0 keys "wg_new l"] obtain l2 where
    "ReleaseLatches l1 keys = Some l2" "latches_inv l2 ((\<lambda>_ :: nat. None)(0 \<mapsto> (keys, wg_new l), 0 := None))"
    by auto
  moreover from this(2) have "latchMap l2 k = None" for k
    by (cases "latchMap l2 k") (auto simp: latches_inv_def split: if_splits)
  moreover have "WaitForLatches l keys = Some l1" by (simp add: WaitForLatches.simps [of l] l1)
  ultimately show ?thesis by blast
qed

end
