(* ===== verification/Txn_Concurrency.thy ===== *)
theory Txn_Concurrency
  imports Txn_Safety
begin

text \<open>
  Commands of many clients running at the same time.  Each server thread goes through the stages of
  \<^verbatim>\<open>RunCommand\<close>: it finds its keys, takes their latches, prepares its writes on a reader, writes
  them, and releases the latches.  The stages of different threads interleave in any order.  The
  theory shows that the latches make every such run equivalent to a serial one.
\<close>

subsection \<open>The system\<close>

datatype Thread =
    Idle
  | Waiting Command "bytes list"
  | Latched Command "bytes list"
  | Prepared Command "bytes list" Response "Modify list"
  | Releasing "bytes list" "go_error + Response"
  | Done "go_error + Response"

record 's System =
  sys_store :: 's
  sys_latches :: Latches
  sys_threads :: "nat \<Rightarrow> Thread"

text \<open>What a client may send: a \<^verbatim>\<open>ResolveLock\<close> has no locks before its own \<^verbatim>\<open>Read\<close>.\<close>

fun request_ok :: "Command \<Rightarrow> bool" where
  "request_ok (ResolveLock req kls) = (kls = [])"
| "request_ok cmd = cmd_ok cmd"

definition set_thread :: "nat \<Rightarrow> Thread \<Rightarrow> 's System \<Rightarrow> 's System" where
  "set_thread i t sys = sys\<lparr>sys_threads := (sys_threads sys)(i := t)\<rparr>"

text \<open>The label of a step is the command whose writes it applies, if any.\<close>

inductive sys_step :: "('s, 'it) Storage \<Rightarrow> 's System \<Rightarrow> Command option \<Rightarrow> 's System \<Rightarrow> bool" for st where
  answer: "sys_threads sys i = Idle \<Longrightarrow> request_ok cmd \<Longrightarrow>
    RunCommand_read st cmd (sys_store sys) = Some (Inr (resp, None, cmd')) \<Longrightarrow>
    sys_step st sys None (set_thread i (Done (Inr resp)) sys)"
| fail: "sys_threads sys i = Idle \<Longrightarrow> request_ok cmd \<Longrightarrow>
    RunCommand_read st cmd (sys_store sys) = Some (Inl e) \<Longrightarrow>
    sys_step st sys None (set_thread i (Done (Inl e)) sys)"
| start: "sys_threads sys i = Idle \<Longrightarrow> request_ok cmd \<Longrightarrow>
    RunCommand_read st cmd (sys_store sys) = Some (Inr (resp, Some keys, cmd')) \<Longrightarrow>
    sys_step st sys None (set_thread i (Waiting cmd' keys) sys)"
| acquire: "sys_threads sys i = Waiting cmd keys \<Longrightarrow>
    AcquireLatches (sys_latches sys) keys = (None, l) \<Longrightarrow>
    sys_step st sys None (set_thread i (Latched cmd keys) (sys\<lparr>sys_latches := l\<rparr>))"
| prepare: "sys_threads sys i = Latched cmd keys \<Longrightarrow> Reader st (sys_store sys) = Inr rd \<Longrightarrow>
    PrepareWrites cmd (NewTxn rd (StartTs cmd)) = Some (Inr (resp, txn)) \<Longrightarrow>
    sys_step st sys None (set_thread i (Prepared cmd keys resp (txn_writes txn)) sys)"
| reject: "sys_threads sys i = Latched cmd keys \<Longrightarrow> Reader st (sys_store sys) = Inr rd \<Longrightarrow>
    PrepareWrites cmd (NewTxn rd (StartTs cmd)) = Some (Inl e) \<Longrightarrow>
    sys_step st sys None (set_thread i (Releasing keys (Inl e)) sys)"
| no_reader: "sys_threads sys i = Latched cmd keys \<Longrightarrow> Reader st (sys_store sys) = Inl e \<Longrightarrow>
    sys_step st sys None (set_thread i (Releasing keys (Inl (ErrStorage e))) sys)"
| apply_writes: "sys_threads sys i = Prepared cmd keys resp batch \<Longrightarrow>
    WriteBatch st (sys_store sys) batch = Inr s \<Longrightarrow>
    sys_step st sys (Some cmd) (set_thread i (Releasing keys (Inr resp)) (sys\<lparr>sys_store := s\<rparr>))"
| write_fail: "sys_threads sys i = Prepared cmd keys resp batch \<Longrightarrow>
    WriteBatch st (sys_store sys) batch = Inl e \<Longrightarrow>
    sys_step st sys None (set_thread i (Releasing keys (Inl (ErrStorage e))) sys)"
| release: "sys_threads sys i = Releasing keys r \<Longrightarrow>
    ReleaseLatches (sys_latches sys) keys = Some l \<Longrightarrow>
    sys_step st sys None (set_thread i (Done r) (sys\<lparr>sys_latches := l\<rparr>))"
| next_request: "sys_threads sys i = Done r \<Longrightarrow> sys_step st sys None (set_thread i Idle sys)"

inductive sys_run :: "('s, 'it) Storage \<Rightarrow> 's System \<Rightarrow> Command list \<Rightarrow> 's System \<Rightarrow> bool" for st where
  run_Nil: "sys_run st sys [] sys"
| run_snoc: "sys_run st sys cs sys1 \<Longrightarrow> sys_step st sys1 lab sys2 \<Longrightarrow>
    sys_run st sys (cs @ (case lab of None \<Rightarrow> [] | Some cmd \<Rightarrow> [cmd])) sys2"

definition sys_init :: "'s \<Rightarrow> 's System" where
  "sys_init s = \<lparr>sys_store = s, sys_latches = NewLatches, sys_threads = (\<lambda>_. Idle)\<rparr>"

subsection \<open>Preparing writes depends on the views of the command's keys only\<close>

text \<open>Two readers that agree on the keys in \<open>K\<close>, and transactions at the same point on them.\<close>

definition two_readers ::
    "'it StorageReader \<Rightarrow> (string \<Rightarrow> cf_content) \<Rightarrow> 'it StorageReader \<Rightarrow> (string \<Rightarrow> cf_content) \<Rightarrow> bytes set \<Rightarrow> bool" where
  "two_readers rd1 c1 rd2 c2 K \<longleftrightarrow>
     (\<exists>iter1 rest1. mvcc_reader rd1 c1 iter1 rest1) \<and> (\<exists>iter2 rest2. mvcc_reader rd2 c2 iter2 rest2) \<and>
     (\<forall>k. ts_ok (view_of c1 k)) \<and> (\<forall>k\<in>K. view_of c1 k = view_of c2 k)"

definition sim :: "'it StorageReader \<Rightarrow> 'it StorageReader \<Rightarrow> 'it MvccTxn \<Rightarrow> 'it MvccTxn \<Rightarrow> bool" where
  "sim rd1 rd2 t1 t2 \<longleftrightarrow> txn_Reader t1 = rd1 \<and> txn_Reader t2 = rd2 \<and> txn_StartTS t1 = txn_StartTS t2 \<and>
     txn_writes t1 = txn_writes t2"

lemma two_readersD:
  assumes "two_readers rd1 c1 rd2 c2 K" "k \<in> K"
  shows "lock_at c1 k = lock_at c2 k" "write_at c1 k = write_at c2 k"
proof -
  from assms have "view_of c1 k = view_of c2 k" by (simp add: two_readers_def)
  then show "lock_at c1 k = lock_at c2 k" "write_at c1 k = write_at c2 k"
    by (metis view_of_simps(1), metis view_of_simps(2))
qed

lemma sim_GetLock:
  assumes "two_readers rd1 c1 rd2 c2 K" "sim rd1 rd2 t1 t2" "k \<in> K"
  shows "GetLock t1 k = GetLock t2 k"
proof -
  have "GetLock t1 k = Inr (lock_at c1 k)" "GetLock t2 k = Inr (lock_at c2 k)"
    using assms(1,2) by (auto simp: two_readers_def sim_def mvcc_reader.GetLock_eq)
  then show ?thesis by (simp add: two_readersD(1) [OF assms(1,3)])
qed

lemma newest_unique:
  assumes "newest_write c k ts p" "newest_write c k ts q"
  shows "p = q"
proof -
  obtain wp tp wq tq where p: "p = (wp, tp)" "q = (wq, tq)" by (cases p; cases q)
  show ?thesis
  proof (cases wp)
    case None
    then have "wq = None" using assms p by (cases wq) (auto simp: newest_write_def)
    with None assms p show ?thesis by (simp add: newest_write_def)
  next
    case (Some w)
    with assms p obtain w' where w': "wq = Some w'" by (cases wq) (auto simp: newest_write_def)
    have "\<not> tp < tq" "\<not> tq < tp" using assms p Some w' by (auto simp: newest_write_def)
    then have "tp = tq" by simp
    with assms p Some w' show ?thesis by (simp add: newest_write_def)
  qed
qed

lemma sim_MostRecentWrite:
  assumes two: "two_readers rd1 c1 rd2 c2 K" and "sim rd1 rd2 t1 t2" "k \<in> K"
  shows "MostRecentWrite t1 k = MostRecentWrite t2 k"
proof -
  obtain p where p: "MostRecentWrite t1 k = Inr p" "newest_write c1 k TsMax p"
    using assms mvcc_reader.mostRecentWriteBefore_newest [of rd1 c1 _ _ t1 k TsMax]
    unfolding MostRecentWrite_def two_readers_def sim_def by blast
  obtain q where q: "MostRecentWrite t2 k = Inr q" "newest_write c2 k TsMax q"
    using assms mvcc_reader.mostRecentWriteBefore_newest [of rd2 c2 _ _ t2 k TsMax]
    unfolding MostRecentWrite_def two_readers_def sim_def by blast
  have "newest_write c1 k TsMax q"
    using q(2) unfolding newest_write_def two_readersD(2) [OF two assms(3)] .
  with p q newest_unique show ?thesis by metis
qed

lemma current_unique:
  assumes "\<And>t w. write_at c k t = Some w \<Longrightarrow> wr_StartTS w \<le> t"
    and "current_write c k s b p" "current_write c k s b q"
  shows "p = q"
proof -
  obtain wp tp wq tq where p: "p = (wp, tp)" "q = (wq, tq)" by (cases p; cases q)
  have own: "write_at c k t = Some w \<and> wr_StartTS w = s \<and> s \<le> t \<and> t \<le> b \<and>
      (\<forall>t' w'. t < t' \<and> t' \<le> b \<and> write_at c k t' = Some w' \<longrightarrow> wr_StartTS w' \<noteq> s)"
    if "current_write c k s b (Some w, t)" for w t
    using that assms(1) [of t w] by (auto simp: current_write_def)
  have none: "tr = 0 \<and> (\<forall>t w. s \<le> t \<and> t \<le> b \<and> write_at c k t = Some w \<longrightarrow> wr_StartTS w \<noteq> s)"
    if "current_write c k s b (None, tr)" for tr
    using that by (simp add: current_write_def)
  show ?thesis
  proof (cases wp)
    case None
    with none [of tp] assms(2) p have np: "tp = 0" "\<forall>t w. s \<le> t \<and> t \<le> b \<and> write_at c k t = Some w \<longrightarrow> wr_StartTS w \<noteq> s"
      by auto
    have "wq = None"
    proof (cases wq)
      case (Some w)
      with own [of w tq] assms(3) p np(2) show ?thesis by blast
    qed
    with none [of tq] assms(3) p np(1) None show ?thesis by simp
  next
    case (Some w)
    note w = own [OF assms(2) [unfolded p Some]]
    obtain w' where w': "wq = Some w'"
    proof (cases wq)
      case None
      with none [of tq] assms(3) p w have False by blast
      then show thesis ..
    qed
    note v = own [OF assms(3) [unfolded p w']]
    have "\<not> tp < tq" "\<not> tq < tp" using w v by blast+
    then have "tp = tq" by simp
    with w v Some w' p show ?thesis by simp
  qed
qed

lemma sim_CurrentWrite:
  assumes two: "two_readers rd1 c1 rd2 c2 K" and "sim rd1 rd2 t1 t2" "k \<in> K"
  shows "CurrentWrite t1 k = CurrentWrite t2 k"
proof -
  let ?s = "txn_StartTS t1"
  obtain p where p: "CurrentWrite t1 k = Some (Inr p)" "current_write c1 k ?s TsMax p"
    using assms mvcc_reader.CurrentWrite_current [of rd1 c1 _ _ t1 k]
    unfolding two_readers_def sim_def by blast
  obtain q where q: "CurrentWrite t2 k = Some (Inr q)" "current_write c2 k ?s TsMax q"
    using assms mvcc_reader.CurrentWrite_current [of rd2 c2 _ _ t2 k]
    unfolding two_readers_def sim_def by metis
  have "current_write c1 k ?s TsMax q"
    using q(2) unfolding current_write_def two_readersD(2) [OF two assms(3)] .
  moreover have "wr_StartTS w \<le> t" if "write_at c1 k t = Some w" for t w
    using two that by (simp add: two_readers_def ts_ok_def)
  ultimately have "p = q" using current_unique p(2) by blast
  with p q show ?thesis by simp
qed

abbreviation sim_step ::
    "'it StorageReader \<Rightarrow> 'it StorageReader \<Rightarrow> (go_error + 'r \<times> 'it MvccTxn) option \<Rightarrow>
     (go_error + 'r \<times> 'it MvccTxn) option \<Rightarrow> bool" where
  "sim_step rd1 rd2 \<equiv> rel_option (rel_sum (=) (rel_prod (=) (sim rd1 rd2)))"

lemma sim_sumE:
  assumes "rel_sum (=) (rel_prod (=) (sim rd1 rd2)) r1 r2"
  obtains e where "r1 = Inl e" "r2 = Inl e"
  | x t1 t2 where "r1 = Inr (x, t1)" "r2 = Inr (x, t2)" "sim rd1 rd2 t1 t2"
  using assms by (auto elim!: rel_sum.cases rel_prod.cases)

lemma sim_stepE:
  assumes "sim_step rd1 rd2 r1 r2"
  obtains "r1 = None" "r2 = None"
  | e where "r1 = Some (Inl e)" "r2 = Some (Inl e)"
  | x t1 t2 where "r1 = Some (Inr (x, t1))" "r2 = Some (Inr (x, t2))" "sim rd1 rd2 t1 t2"
  using assms by (auto elim!: option.rel_cases rel_sum.cases rel_prod.cases)

lemma sim_StartTS: "sim rd1 rd2 t1 t2 \<Longrightarrow> txn_StartTS t1 = txn_StartTS t2"
  by (simp add: sim_def)

lemma sim_puts:
  assumes "sim rd1 rd2 t1 t2"
  shows "sim rd1 rd2 (PutWrite t1 k ts w) (PutWrite t2 k ts w)"
    and "sim rd1 rd2 (PutLock t1 k l) (PutLock t2 k l)"
    and "sim rd1 rd2 (DeleteLock t1 k) (DeleteLock t2 k)"
    and "sim rd1 rd2 (PutValue t1 k v) (PutValue t2 k v)"
    and "sim rd1 rd2 (DeleteValue t1 k) (DeleteValue t2 k)"
  using assms by (simp_all add: sim_def PutWrite_def PutLock_def DeleteLock_def PutValue_def DeleteValue_def)

lemma sim_commitKey:
  assumes "two_readers rd1 c1 rd2 c2 K" "sim rd1 rd2 t1 t2" "k \<in> K"
  shows "sim_step rd1 rd2 (commitKey k ct t1) (commitKey k ct t2)"
  unfolding commitKey_def sim_GetLock [OF assms] sim_CurrentWrite [OF assms] sim_StartTS [OF assms(2)] Let_def
  using assms(2) sim_puts [OF assms(2)]
  by (auto split: option.split sum.split prod.split intro: sim_puts)

lemma sim_rollbackKey:
  assumes "two_readers rd1 c1 rd2 c2 K" "sim rd1 rd2 t1 t2" "k \<in> K"
  shows "sim_step rd1 rd2 (rollbackKey k t1) (rollbackKey k t2)"
  unfolding rollbackKey_def sim_GetLock [OF assms] sim_CurrentWrite [OF assms] sim_StartTS [OF assms(2)] Let_def
  using assms(2)
  by (auto split: option.split sum.split prod.split intro: sim_puts)

lemma sim_CheckTxnStatus:
  assumes "two_readers rd1 c1 rd2 c2 K" "sim rd1 rd2 t1 t2" "ct_PrimaryKey req \<in> K"
  shows "sim_step rd1 rd2 (CheckTxnStatus_PrepareWrites req t1) (CheckTxnStatus_PrepareWrites req t2)"
  unfolding CheckTxnStatus_PrepareWrites_def sim_GetLock [OF assms] sim_CurrentWrite [OF assms]
    sim_StartTS [OF assms(2)] Let_def
  using assms(2)
  by (auto split: option.split sum.split prod.split intro: sim_puts)

lemma sim_prewriteMutation:
  assumes "two_readers rd1 c1 rd2 c2 K" "sim rd1 rd2 t1 t2" "mut_Key m \<in> K"
  shows "rel_sum (=) (rel_prod (=) (sim rd1 rd2)) (prewriteMutation req t1 m) (prewriteMutation req t2 m)"
  unfolding prewriteMutation_def sim_GetLock [OF assms] sim_MostRecentWrite [OF assms]
    sim_StartTS [OF assms(2)] Let_def
  using assms(2)
  by (auto split: option.split sum.split prod.split intro!: sim_puts)

lemma sim_Commit_loop:
  assumes "two_readers rd1 c1 rd2 c2 K"
  shows "sim rd1 rd2 t1 t2 \<Longrightarrow> set ks \<subseteq> K \<Longrightarrow>
    sim_step rd1 rd2 (Commit_loop ks ct t1) (Commit_loop ks ct t2)"
proof (induction ks arbitrary: t1 t2)
  case (Cons k ks)
  from sim_commitKey [OF assms Cons.prems(1), of k ct] Cons show ?case
    by (auto elim!: sim_stepE split: option.split)
qed simp

lemma sim_Rollback_loop:
  assumes "two_readers rd1 c1 rd2 c2 K"
  shows "sim rd1 rd2 t1 t2 \<Longrightarrow> set ks \<subseteq> K \<Longrightarrow>
    sim_step rd1 rd2 (Rollback_loop ks t1) (Rollback_loop ks t2)"
proof (induction ks arbitrary: t1 t2)
  case (Cons k ks)
  from sim_rollbackKey [OF assms Cons.prems(1), of k] Cons show ?case
    by (auto elim!: sim_stepE split: option.split)
qed simp

lemma sim_ResolveLock_loop:
  assumes "two_readers rd1 c1 rd2 c2 K"
  shows "sim rd1 rd2 t1 t2 \<Longrightarrow> kl_Key ` set kls \<subseteq> K \<Longrightarrow>
    sim_step rd1 rd2 (ResolveLock_loop req kls err t1) (ResolveLock_loop req kls err t2)"
proof (induction kls arbitrary: t1 t2 err)
  case (Cons kl kls)
  let ?r = "\<lambda>t. if lock_Ts (kl_Lock kl) \<le> rl_CommitVersion req \<and> rl_StartVersion req \<le> lock_Ts (kl_Lock kl)
    then commitKey (kl_Key kl) (rl_CommitVersion req) t else rollbackKey (kl_Key kl) t"
  have "sim_step rd1 rd2 (?r t1) (?r t2)"
    using sim_commitKey [OF assms Cons.prems(1)] sim_rollbackKey [OF assms Cons.prems(1)] Cons.prems(2) by simp
  with Cons show ?case
    unfolding ResolveLock_loop.simps
    by (elim sim_stepE) simp_all
qed simp

lemma sim_Prewrite_loop:
  assumes "two_readers rd1 c1 rd2 c2 K"
  shows "sim rd1 rd2 t1 t2 \<Longrightarrow> mut_Key ` set ms \<subseteq> K \<Longrightarrow>
    rel_sum (=) (rel_prod (=) (sim rd1 rd2)) (Prewrite_loop req t1 ms errs) (Prewrite_loop req t2 ms errs)"
proof (induction ms arbitrary: t1 t2 errs)
  case (Cons m ms)
  from sim_prewriteMutation [OF assms Cons.prems(1), of m req] Cons show ?case
    by (auto elim!: sim_sumE split: option.split)
qed simp

lemma sim_PrepareWrites:
  assumes two: "two_readers rd1 c1 rd2 c2 (cmd_keys cmd)"
  shows "sim_step rd1 rd2 (PrepareWrites cmd (NewTxn rd1 s)) (PrepareWrites cmd (NewTxn rd2 s))"
proof -
  have new: "sim rd1 rd2 (NewTxn rd1 s) (NewTxn rd2 s)" by (simp add: sim_def NewTxn_def)
  show ?thesis
  proof (cases cmd)
    case (Prewrite req)
    with sim_Prewrite_loop [OF two new, of "pw_Mutations req" req "[]"] show ?thesis
      by (auto simp: Prewrite_PrepareWrites_def elim!: sim_sumE)
  next
    case (Commit req)
    with sim_Commit_loop [OF two new, of "case cm_Keys req of None \<Rightarrow> [] | Some ks \<Rightarrow> ks" "cm_CommitVersion req"]
    show ?thesis by (auto simp: Commit_PrepareWrites_def Let_def sim_StartTS [OF new] elim!: sim_stepE)
  next
    case (Rollback req)
    with sim_Rollback_loop [OF two new, of "case rb_Keys req of None \<Rightarrow> [] | Some ks \<Rightarrow> ks"]
    show ?thesis by (auto simp: Rollback_PrepareWrites_def elim!: sim_stepE)
  next
    case (ResolveLock req kls)
    with sim_ResolveLock_loop [OF two new, of kls req None] show ?thesis
      by (auto simp: ResolveLock_PrepareWrites_def elim!: sim_stepE)
  next
    case (CheckTxnStatus req)
    with sim_CheckTxnStatus [OF two new, of req] show ?thesis by simp
  qed (simp_all add: new)
qed

subsection \<open>The invariant of the system\<close>

fun held_keys :: "Thread \<Rightarrow> bytes list option" where
  "held_keys (Latched cmd keys) = Some keys"
| "held_keys (Prepared cmd keys resp batch) = Some keys"
| "held_keys (Releasing keys r) = Some keys"
| "held_keys t = None"

text \<open>
  What a thread knows: its keys cover the keys of its command, and writes it has prepared are those
  it would prepare now.
\<close>

fun thread_ok :: "('s, 'it) Storage \<Rightarrow> 's \<Rightarrow> Thread \<Rightarrow> bool" where
  "thread_ok st s (Waiting cmd keys) = (cmd_ok cmd \<and> cmd_keys cmd \<subseteq> set keys)"
| "thread_ok st s (Latched cmd keys) = (cmd_ok cmd \<and> cmd_keys cmd \<subseteq> set keys)"
| "thread_ok st s (Prepared cmd keys resp batch) =
     (cmd_ok cmd \<and> cmd_keys cmd \<subseteq> set keys \<and>
      (\<exists>rd txn. Reader st s = Inr rd \<and> PrepareWrites cmd (NewTxn rd (StartTs cmd)) = Some (Inr (resp, txn)) \<and>
         txn_writes txn = batch))"
| "thread_ok st s t = True"

definition sys_inv :: "('s, 'it) Storage \<Rightarrow> ('s \<Rightarrow> bool) \<Rightarrow> ('s \<Rightarrow> string \<Rightarrow> cf_content) \<Rightarrow> 's System \<Rightarrow> bool" where
  "sys_inv st ok contents sys \<longleftrightarrow>
     store_good ok contents (sys_store sys) \<and>
     (\<exists>held. latches_inv (sys_latches sys) held \<and>
        (\<forall>i. map_option fst (held i) = held_keys (sys_threads sys i))) \<and>
     (\<forall>i. thread_ok st (sys_store sys) (sys_threads sys i))"

lemma sys_inv_init: "store_good ok contents s \<Longrightarrow> sys_inv st ok contents (sys_init s)"
  using latches_inv_new by (fastforce simp: sys_inv_def sys_init_def)

text \<open>A step that keeps the store and the latches only has to respect its own thread.\<close>

lemma sys_inv_set_thread:
  assumes "sys_inv st ok contents sys" "held_keys t = held_keys (sys_threads sys i)"
    "thread_ok st (sys_store sys) t"
  shows "sys_inv st ok contents (set_thread i t sys)"
proof -
  from assms(1) obtain held where "latches_inv (sys_latches sys) held"
    "\<forall>j. map_option fst (held j) = held_keys (sys_threads sys j)" by (auto simp: sys_inv_def)
  with assms show ?thesis
    by (auto simp: sys_inv_def set_thread_def intro!: exI [of _ held])
qed

lemma held_SomeE:
  assumes "\<forall>j. map_option fst (held j) = f j" "f i = Some ks"
  obtains w where "held i = Some (ks, w)"
proof -
  from assms have "map_option fst (held i) = Some ks" by simp
  with that show ?thesis by (cases "held i") auto
qed

lemma sys_inv_disjoint:
  assumes "sys_inv st ok contents sys" "held_keys (sys_threads sys i) = Some ks"
    "held_keys (sys_threads sys j) = Some ks'" "i \<noteq> j"
  shows "set ks \<inter> set ks' = {}"
proof -
  from assms(1) obtain held where h: "latches_inv (sys_latches sys) held"
    "\<forall>j. map_option fst (held j) = held_keys (sys_threads sys j)" by (auto simp: sys_inv_def)
  obtain w where i: "held i = Some (ks, w)" by (rule held_SomeE [OF h(2) assms(2)])
  obtain w' where j: "held j = Some (ks', w')" by (rule held_SomeE [OF h(2) assms(3)])
  show ?thesis by (rule latches_inv_exclusive [OF h(1) i j assms(4)])
qed

lemma sys_inv_acquire:
  assumes inv: "sys_inv st ok contents sys" and t: "sys_threads sys i = Waiting cmd keys"
    and acq: "AcquireLatches (sys_latches sys) keys = (None, l)"
  shows "sys_inv st ok contents (set_thread i (Latched cmd keys) (sys\<lparr>sys_latches := l\<rparr>))"
proof -
  from inv obtain held where h: "latches_inv (sys_latches sys) held"
    "\<forall>j. map_option fst (held j) = held_keys (sys_threads sys j)" by (auto simp: sys_inv_def)
  then have "held i = None" using t by (metis held_keys.simps(5) map_option_is_None)
  with AcquireLatches_inv [OF h(1) acq] have "latches_inv l (held(i \<mapsto> (keys, wg_new (sys_latches sys))))" .
  moreover have "thread_ok st (sys_store sys) (Latched cmd keys)"
    using inv t by (metis sys_inv_def thread_ok.simps(1,2))
  ultimately show ?thesis
    using inv h(2) unfolding sys_inv_def set_thread_def
    by (auto intro!: exI [of _ "held(i \<mapsto> (keys, wg_new (sys_latches sys)))"])
qed

lemma sys_inv_release:
  assumes inv: "sys_inv st ok contents sys" and t: "sys_threads sys i = Releasing keys r"
    and rel: "ReleaseLatches (sys_latches sys) keys = Some l"
  shows "sys_inv st ok contents (set_thread i (Done r) (sys\<lparr>sys_latches := l\<rparr>))"
proof -
  from inv obtain held where h: "latches_inv (sys_latches sys) held"
    "\<forall>j. map_option fst (held j) = held_keys (sys_threads sys j)" by (auto simp: sys_inv_def)
  obtain w where "held i = Some (keys, w)" using held_SomeE [OF h(2), of i keys] t by auto
  with ReleaseLatches_inv [OF h(1)] rel have "latches_inv l (held(i := None))" by fastforce
  then show ?thesis
    using inv h(2) unfolding sys_inv_def set_thread_def by (auto intro!: exI [of _ "held(i := None)"])
qed

definition step_effect :: "('s, 'it) Storage \<Rightarrow> 's System \<Rightarrow> Command option \<Rightarrow> 's System \<Rightarrow> bool" where
  "step_effect st sys lab sys' \<longleftrightarrow> (case lab of
     None \<Rightarrow> sys_store sys' = sys_store sys
   | Some cmd \<Rightarrow> cmd_ok cmd \<and> (\<exists>r. RunCommand_write st cmd (sys_store sys) = Some (r, sys_store sys')))"

lemma sys_inv_thread:
  "sys_inv st ok contents sys \<Longrightarrow> sys_threads sys i = t \<Longrightarrow> thread_ok st (sys_store sys) t"
  by (auto simp: sys_inv_def)

lemma sys_quiet:
  "sys_inv st ok contents sys \<Longrightarrow> held_keys t = held_keys (sys_threads sys i) \<Longrightarrow>
    thread_ok st (sys_store sys) t \<Longrightarrow>
    sys_inv st ok contents (set_thread i t sys) \<and> step_effect st sys None (set_thread i t sys)"
  by (simp add: sys_inv_set_thread) (simp add: step_effect_def set_thread_def)

context kv_storage
begin

text \<open>The writes of one thread leave the writes another thread has prepared valid.\<close>

lemma thread_ok_other:
  assumes good: "store_good inv abs s" and good': "store_good inv abs s'"
    and same: "\<And>k. k \<notin> K \<Longrightarrow> view_of (abs s') k = view_of (abs s) k"
    and t: "thread_ok st s t" and disj: "\<And>ks. held_keys t = Some ks \<Longrightarrow> set ks \<inter> K = {}"
  shows "thread_ok st s' t"
proof (cases t)
  case (Prepared cmd keys resp batch)
  with t obtain rd txn where r: "Reader st s = Inr rd" "cmd_keys cmd \<subseteq> set keys"
    "PrepareWrites cmd (NewTxn rd (StartTs cmd)) = Some (Inr (resp, txn))" "txn_writes txn = batch" by auto
  from good_reader [OF good'] obtain rd' where
    r': "Reader st s' = Inr rd'" "mvcc_reader rd' (abs s') (iter_on s') (rest s')" by blast
  from good_reader [OF good] r(1) have "mvcc_reader rd (abs s) (iter_on s) (rest s)" by auto
  moreover have "view_of (abs s) k = view_of (abs s') k" if "k \<in> cmd_keys cmd" for k
  proof -
    have "k \<notin> K" using disj [of keys] r(2) that Prepared by auto
    then show ?thesis by (simp add: same)
  qed
  ultimately have "two_readers rd (abs s) rd' (abs s') (cmd_keys cmd)"
    using r'(2) good_ts_ok [OF good] unfolding two_readers_def by blast
  from sim_PrepareWrites [OF this, of "StartTs cmd"] r(3) obtain txn' where
    "PrepareWrites cmd (NewTxn rd' (StartTs cmd)) = Some (Inr (resp, txn'))" "txn_writes txn' = batch"
    using r(4) by (auto elim!: sim_stepE simp: sim_def)
  with r' t Prepared show ?thesis by simp
qed (use t in simp_all)

lemma RunCommand_read_ok:
  assumes good: "store_good inv abs s" and cmd: "request_ok cmd"
    and r: "RunCommand_read st cmd s = Some (Inr (resp, Some keys, cmd'))"
  shows "cmd_ok cmd' \<and> cmd_keys cmd' \<subseteq> set keys"
proof (cases cmd)
  case (ResolveLock req kls)
  from good_reader [OF good] obtain rd where
    rd: "Reader st s = Inr rd" "mvcc_reader rd (abs s) (iter_on s) (rest s)" by blast
  let ?txn = "\<lparr>txn_Reader = rd, txn_StartTS = rl_StartVersion req\<rparr>"
  have "AllLocksForTxn ?txn = Some (Inr (locks_in (rl_StartVersion req) (abs s CfLock)))"
    using mvcc_reader.AllLocksForTxn_eq [OF rd(2), of ?txn] by simp
  with r rd(1) ResolveLock have
    "cmd' = ResolveLock req (locks_in (rl_StartVersion req) (abs s CfLock))"
    "keys = map kl_Key (locks_in (rl_StartVersion req) (abs s CfLock))"
    by (auto simp: RunCommand_read_def ResolveLock_Read_def)
  moreover have "lock_Ts (kl_Lock kl) = v" if "kl \<in> set (locks_in v es)" for kl v es
    using that by (induction v es rule: locks_in.induct) (auto split: option.splits sum.splits if_splits)
  ultimately show ?thesis by auto
qed (use r cmd in \<open>auto simp: RunCommand_read_def Prewrite_WillWrite_def
  split: option.splits sum.splits\<close>)

text \<open>The step that applies the writes of a thread is \<open>RunCommand_write\<close> on the current store.\<close>

lemma sys_inv_write:
  assumes sysinv: "sys_inv st inv abs sys" and t: "sys_threads sys i = Prepared cmd keys resp batch"
    and w: "WriteBatch st (sys_store sys) batch = Inr s"
  shows "sys_inv st inv abs (set_thread i (Releasing keys (Inr resp)) (sys\<lparr>sys_store := s\<rparr>))"
    and "RunCommand_write st cmd (sys_store sys) = Some (Inr resp, s)" and "cmd_ok cmd"
proof -
  have "thread_ok st (sys_store sys) (Prepared cmd keys resp batch)"
    using sysinv t by (metis sys_inv_def)
  then obtain rd txn where r: "cmd_ok cmd" "cmd_keys cmd \<subseteq> set keys" "Reader st (sys_store sys) = Inr rd"
    "PrepareWrites cmd (NewTxn rd (StartTs cmd)) = Some (Inr (resp, txn))" "txn_writes txn = batch" by auto
  then show run: "RunCommand_write st cmd (sys_store sys) = Some (Inr resp, s)" and "cmd_ok cmd"
    using w by (simp_all add: RunCommand_write_def)
  have good: "store_good inv abs (sys_store sys)" using sysinv by (simp add: sys_inv_def)
  note step = RunCommand_write_step [OF good r(1) run]
  have same: "view_of (abs s) k = view_of (abs (sys_store sys)) k" if "k \<notin> set keys" for k
    using step(2) that r(2) by (auto simp: steps_on_def)
  have other: "thread_ok st s (sys_threads sys j)" if "j \<noteq> i" for j
  proof (rule thread_ok_other [OF good step(1) same])
    show "thread_ok st (sys_store sys) (sys_threads sys j)" using sysinv by (simp add: sys_inv_def)
    show "set ks \<inter> set keys = {}" if "held_keys (sys_threads sys j) = Some ks" for ks
      using sys_inv_disjoint [OF sysinv that, of i keys] t \<open>j \<noteq> i\<close> by simp
  qed
  from sysinv obtain held where h: "latches_inv (sys_latches sys) held"
    "\<forall>j. map_option fst (held j) = held_keys (sys_threads sys j)" by (auto simp: sys_inv_def)
  then have "map_option fst (held j) = held_keys (((sys_threads sys)(i := Releasing keys (Inr resp))) j)" for j
    using h(2) [THEN spec, of j] t by (cases "j = i") simp_all
  with h(1) other step(1) t
  show "sys_inv st inv abs (set_thread i (Releasing keys (Inr resp)) (sys\<lparr>sys_store := s\<rparr>))"
    unfolding sys_inv_def set_thread_def by (auto simp del: fun_upd_apply) (simp_all add: fun_upd_def)
qed

lemma sys_step_inv:
  assumes "sys_step st sys lab sys'" "sys_inv st inv abs sys"
  shows "sys_inv st inv abs sys' \<and> step_effect st sys lab sys'"
  using assms
proof (induction rule: sys_step.induct)
  case (start sys i cmd resp keys cmd')
  then have "cmd_ok cmd' \<and> cmd_keys cmd' \<subseteq> set keys"
    using RunCommand_read_ok [OF _ start(2,3)] by (simp add: sys_inv_def)
  with start(1,4) show ?case by (intro sys_quiet) simp_all
next
  case (acquire sys i cmd keys l)
  with sys_inv_acquire [OF acquire(3,1,2)] show ?case by (simp add: step_effect_def set_thread_def)
next
  case (prepare sys i cmd keys rd resp txn)
  with sys_inv_thread [OF prepare(4,1)] show ?case by (intro sys_quiet) auto
next
  case (apply_writes sys i cmd keys resp batch s)
  with sys_inv_write [OF apply_writes(3,1,2)] show ?case by (auto simp: step_effect_def set_thread_def)
next
  case (release sys i keys r l)
  with sys_inv_release [OF release(3,1,2)] show ?case by (simp add: step_effect_def set_thread_def)
qed (intro sys_quiet; simp)+

lemma sys_run_serial:
  assumes "sys_run st sys cs sys'" "sys_inv st inv abs sys"
  shows "sys_inv st inv abs sys' \<and> serial st (sys_store sys) cs (sys_store sys')"
  using assms
proof (induction rule: sys_run.induct)
  case (run_Nil sys)
  then show ?case by (simp add: serial_Nil)
next
  case (run_snoc sys cs sys1 lab sys2)
  then have "sys_inv st inv abs sys1" "serial st (sys_store sys) cs (sys_store sys1)" by auto
  with sys_step_inv [OF run_snoc(2)] show ?case
    by (auto simp: step_effect_def split: option.splits intro: serial_snoc)
qed

text \<open>A thread that holds latches can always go on; in particular the release never panics.\<close>

lemma holder_steps:
  assumes inv: "sys_inv st inv abs sys" and h: "held_keys (sys_threads sys j) = Some ks"
  shows "\<exists>lab sys'. sys_step st sys lab sys' \<and> sys_threads sys' j \<noteq> sys_threads sys j"
proof (cases "sys_threads sys j")
  case (Latched cmd keys)
  have good: "store_good inv abs (sys_store sys)" and cmd: "cmd_ok cmd"
    using inv sys_inv_thread [OF inv Latched] by (auto simp: sys_inv_def)
  obtain rd where rd: "Reader st (sys_store sys) = Inr rd" using good_reader [OF good] by blast
  from good_prepares [OF good cmd rd] obtain r where
    r: "PrepareWrites cmd (NewTxn rd (StartTs cmd)) = Some r" by (auto simp: prepares_def)
  show ?thesis
  proof (cases r)
    case (Inl e)
    with sys_step.reject [OF Latched rd] r Latched show ?thesis by (fastforce simp: set_thread_def)
  next
    case (Inr p)
    obtain resp txn where "p = (resp, txn)" by (cases p)
    with sys_step.prepare [OF Latched rd] r Inr Latched show ?thesis by (fastforce simp: set_thread_def)
  qed
next
  case (Prepared cmd keys resp batch)
  show ?thesis
  proof (cases "WriteBatch st (sys_store sys) batch")
    case (Inl e)
    with sys_step.write_fail [OF Prepared] Prepared show ?thesis by (fastforce simp: set_thread_def)
  next
    case (Inr s)
    with sys_step.apply_writes [OF Prepared] Prepared show ?thesis by (fastforce simp: set_thread_def)
  qed
next
  case (Releasing keys r)
  from inv obtain held where l: "latches_inv (sys_latches sys) held"
    "\<forall>j. map_option fst (held j) = held_keys (sys_threads sys j)" by (auto simp: sys_inv_def)
  obtain w where "held j = Some (keys, w)" using held_SomeE [OF l(2), of j keys] Releasing by auto
  with ReleaseLatches_inv [OF l(1)] obtain l' where "ReleaseLatches (sys_latches sys) keys = Some l'" by blast
  with sys_step.release [OF Releasing] Releasing show ?thesis by (fastforce simp: set_thread_def)
qed (use h in simp_all)

lemma waiting_progress:
  assumes inv: "sys_inv st inv abs sys" and t: "sys_threads sys i = Waiting cmd keys"
  shows "\<exists>j lab sys'. sys_step st sys lab sys' \<and> sys_threads sys' j \<noteq> sys_threads sys j \<and>
    (j = i \<or> (\<exists>ks. held_keys (sys_threads sys j) = Some ks \<and> set ks \<inter> set keys \<noteq> {}))"
proof (cases "fst (AcquireLatches (sys_latches sys) keys)")
  case None
  then obtain l where "AcquireLatches (sys_latches sys) keys = (None, l)" by (metis prod.collapse)
  from sys_step.acquire [OF t this]
  have "sys_step st sys None (set_thread i (Latched cmd keys) (sys\<lparr>sys_latches := l\<rparr>))" .
  moreover have "sys_threads (set_thread i (Latched cmd keys) (sys\<lparr>sys_latches := l\<rparr>)) i \<noteq> sys_threads sys i"
    by (simp add: set_thread_def t)
  ultimately show ?thesis by blast
next
  case (Some wg)
  then obtain k where k: "k \<in> set keys" "latchMap (sys_latches sys) k = Some wg"
    by (auto simp: AcquireLatches_def Let_def split: option.splits dest: first_latched_Some)
  from inv obtain held where l: "latches_inv (sys_latches sys) held"
    "\<forall>j. map_option fst (held j) = held_keys (sys_threads sys j)" by (auto simp: sys_inv_def)
  from l(1) k(2) obtain j ks where "held j = Some (ks, wg)" "k \<in> set ks"
    unfolding latches_inv_def by blast
  moreover from this l(2) [THEN spec, of j] have "held_keys (sys_threads sys j) = Some ks" by simp
  ultimately show ?thesis using holder_steps [OF inv, of j ks] k(1) by blast
qed

end

end
