(* ===== verification/Txn_Properties.thy ===== *)
theory Txn_Properties
  imports Txn_Concurrency
begin


text \<open>
  The properties of the transaction layer, stated over any storage that fulfils the storage contract
  and starts empty.  The witnesses run the commands on the in-memory storage.
\<close>

subsection \<open>A run for the witnesses\<close>

fun run_all :: "('s, 'it) Storage \<Rightarrow> Command list \<Rightarrow> 's \<Rightarrow> 's option" where
  "run_all st [] s = Some s"
| "run_all st (cmd # cmds) s =
     (case RunCommand_write st cmd s of None \<Rightarrow> None | Some (r, s') \<Rightarrow> run_all st cmds s')"

lemma run_all_serial:
  "serial st s0 pre s \<Longrightarrow> list_all cmd_ok cs \<Longrightarrow> run_all st cs s = Some s' \<Longrightarrow> serial st s0 (pre @ cs) s'"
proof (induction cs arbitrary: pre s)
  case (Cons cmd cs)
  then obtain r s1 where r: "RunCommand_write st cmd s = Some (r, s1)" "run_all st cs s1 = Some s'"
    by (auto split: option.splits)
  with Cons have "serial st s0 (pre @ [cmd]) s1" by (auto intro: serial_snoc)
  with Cons.IH [of "pre @ [cmd]" s1] Cons.prems r show ?case by simp
qed simp

definition demo_prewrite :: "bytes \<Rightarrow> Op \<Rightarrow> gobytes \<Rightarrow> u64 \<Rightarrow> Command" where
  "demo_prewrite k op v s =
     Prewrite \<lparr>pw_Mutations = [\<lparr>mut_Op = op, mut_Key = k, mut_Value = v\<rparr>], pw_PrimaryLock = k,
               pw_StartVersion = s, pw_LockTtl = 100\<rparr>"

definition demo_commit :: "bytes \<Rightarrow> u64 \<Rightarrow> u64 \<Rightarrow> Command" where
  "demo_commit k s ct = Commit \<lparr>cm_StartVersion = s, cm_Keys = Some [k], cm_CommitVersion = ct\<rparr>"



definition demo_start :: "memItem list MemStorage" where
  "demo_start = NewMemStorage slist_ops"

abbreviation demo_contents :: "memItem list MemStorage \<Rightarrow> string \<Rightarrow> cf_content" where
  "demo_contents \<equiv> mem_content (\<lambda>t. t)"


abbreviation demo_ok :: "memItem list MemStorage \<Rightarrow> bool" where
  "demo_ok \<equiv> mem_wf (sorted_wrt memItem_Less)"

lemma demo_storage:
  "kv_storage slist_storage demo_ok demo_contents (mem_iter_on (\<lambda>t. t)) (\<lambda>_. mem_rest (\<lambda>t. t))"
  by (rule slist.mem_storage.kv_storage_axioms)

lemma demo_start_ok: "demo_ok demo_start" "demo_contents demo_start = (\<lambda>_. [])"
  using slist.NewMemStorage_ok by (auto simp: demo_start_def)




subsection \<open>Isolation\<close>

lemma serial_view_inv:
  assumes "kv_storage st ok contents iter_on rest" "ok s0" "contents s0 = (\<lambda>_. [])" "serial st s0 cs s"
  shows "store_good ok contents s" "view_inv (view_of (contents s) k)"
  using kv_storage.serial_good [OF assms(1,4) store_good_empty [of ok s0 contents, OF assms(2,3)]]
  by (auto simp: store_good_def)













subsection \<open>What the responses promise\<close>

text \<open>
  C13.  A commit answered without an error has committed every key of the request: the key carries a
  record of the transaction, at the requested commit timestamp with the kind of its lock, or an
  earlier commit of the same transaction; and the transaction's lock is gone.
\<close>

theorem commit_response_means_committed:
  assumes "kv_storage st ok contents iter_on rest" "ok s0" "contents s0 = (\<lambda>_. [])" "serial st s0 cs s"
    and "cm_Keys req = Some ks" "k \<in> set ks"
    and "RunCommand_write st (Commit req) s = Some (Inr (RespCommit None), s')"
  shows "(\<forall>l. lock_at (contents s') k = Some l \<longrightarrow> lock_Ts l \<noteq> cm_StartVersion req) \<and>
    ((\<exists>l. lock_at (contents s) k = Some l \<and> lock_Ts l = cm_StartVersion req \<and>
       write_at (contents s') k (cm_CommitVersion req) =
         Some \<lparr>wr_StartTS = cm_StartVersion req, wr_Kind = lock_Kind l\<rparr>) \<or>
     (\<exists>t w. write_at (contents s') k t = Some w \<and> wr_StartTS w = cm_StartVersion req \<and>
       wr_Kind w \<noteq> WriteKindRollback))"
proof -
  let ?s = "cm_StartVersion req" and ?v = "view_of (contents s) k"
  note c = kv_storage.Commit_success [OF assms(1) serial_view_inv(1) [OF assms(1-4)] assms(5-7)]
  have lk: "lock_at (contents s') k = vw_lock (commit_upd ?s (cm_CommitVersion req) ?v ?v)"
    "write_at (contents s') k = vw_writes (commit_upd ?s (cm_CommitVersion req) ?v ?v)"
    using c(1) by (metis view_of_simps(1), metis view_of_simps(2))
  show ?thesis
  proof (cases "own_lock ?s ?v")
    case None
    with c(2) lk show ?thesis
      by (auto simp: commit_upd_def committed_in_def own_lock_def split: option.splits if_splits)
  next
    case (Some l)
    with own_lockD [OF Some] lk show ?thesis by (auto simp: commit_upd_def)
  qed
qed

lemma demo_commit_eval:
  "case run_all slist_storage [demo_prewrite [97] Op_Put (Some [1]) 3] demo_start of
     None \<Rightarrow> False
   | Some s \<Rightarrow> map_option fst (RunCommand_write slist_storage (demo_commit [97] 3 5) s) =
       Some (Inr (RespCommit None))"
  by code_simp

theorem commit_response_means_committed_witness:
  "\<exists>s s'. serial slist_storage demo_start [demo_prewrite [97] Op_Put (Some [1]) 3] s \<and>
     RunCommand_write slist_storage (demo_commit [97] 3 5) s = Some (Inr (RespCommit None), s') \<and>
     (\<forall>l. lock_at (demo_contents s') [97] = Some l \<longrightarrow> lock_Ts l \<noteq> 3)"
proof -
  have ok: "list_all cmd_ok [demo_prewrite [97] Op_Put (Some [1]) 3]"
    by (simp add: demo_prewrite_def valid_op_def)
  from demo_commit_eval obtain s s' where
    "run_all slist_storage [demo_prewrite [97] Op_Put (Some [1]) 3] demo_start = Some s"
    and c: "RunCommand_write slist_storage (demo_commit [97] 3 5) s = Some (Inr (RespCommit None), s')"
    by (auto split: option.splits)
  then have s: "serial slist_storage demo_start [demo_prewrite [97] Op_Put (Some [1]) 3] s"
    using run_all_serial [OF serial_Nil ok] by (metis append_Nil)
  from commit_response_means_committed [OF demo_storage demo_start_ok s _ _ c [unfolded demo_commit_def],
      of "[[97]]" "[97]"] s c show ?thesis by auto
qed


definition demo_pw :: PrewriteRequest where
  "demo_pw = \<lparr>pw_Mutations = [\<lparr>mut_Op = Op_Put, mut_Key = [97], mut_Value = Some [1]\<rparr>,
     \<lparr>mut_Op = Op_Del, mut_Key = [98], mut_Value = None\<rparr>], pw_PrimaryLock = [97],
     pw_StartVersion = 3, pw_LockTtl = 100\<rparr>"



text \<open>
  C15.  \<open>CheckTxnStatus\<close> answers truthfully and acts as it says: an expired lock of the transaction is
  rolled back, a live one is left alone and its time to live returned, a finished transaction's
  outcome is returned, and an unknown transaction is rolled back in advance.
\<close>

theorem check_txn_status_exact:
  assumes "kv_storage st ok contents iter_on rest" "ok s0" "contents s0 = (\<lambda>_. [])" "serial st s0 cs s"
    and "RunCommand_write st (CheckTxnStatus req) s = Some (Inr resp, s')"
  shows "view_of (contents s') (ct_PrimaryKey req) = check_upd req (view_of (contents s) (ct_PrimaryKey req)) \<and>
    (\<exists>r. resp = RespCheckTxnStatus r \<and> check_resp req (view_of (contents s) (ct_PrimaryKey req)) r)"
  using kv_storage.CheckTxnStatus_exact [OF assms(1) serial_view_inv(1) [OF assms(1-4)] assms(5)] by blast

definition demo_check :: CheckTxnStatusRequest where
  "demo_check = \<lparr>ct_PrimaryKey = [97], ct_LockTs = 3, ct_CurrentTs = 4\<rparr>"

lemma demo_check_eval:
  "\<exists>r. map_option fst (RunCommand_write slist_storage (CheckTxnStatus demo_check) demo_start) = Some (Inr r)"
  by (rule exI [of _ "RespCheckTxnStatus \<lparr>cr_LockTtl = 0, cr_CommitVersion = 0, cr_Action = LockNotExistRollback\<rparr>"])
    code_simp

theorem check_txn_status_exact_witness:
  "\<exists>s r. RunCommand_write slist_storage (CheckTxnStatus demo_check) demo_start =
       Some (Inr (RespCheckTxnStatus r), s) \<and> cr_Action r = LockNotExistRollback"
proof -
  from demo_check_eval obtain r s where
    s: "RunCommand_write slist_storage (CheckTxnStatus demo_check) demo_start = Some (Inr r, s)" by auto
  have "own_lock 3 (view_of (\<lambda>_. []) [97]) = None" "\<not> own_write 3 (view_of (\<lambda>_. []) [97])"
    by (simp_all add: view_of_empty own_lock_def own_write_def)
  with check_txn_status_exact [OF demo_storage demo_start_ok serial_Nil s] s show ?thesis
    by (auto simp: check_resp_def demo_check_def demo_start_ok(2) Let_def)
qed

subsection \<open>Running commands\<close>






text \<open>
  C11.  No deadlock: in every reachable state, a thread that waits for latches can take them, or a
  thread that holds one of the latches it waits for can take its next step.
\<close>

theorem no_latch_deadlock:
  assumes "kv_storage st ok contents iter_on rest" "ok s0" "contents s0 = (\<lambda>_. [])"
    and "sys_run st (sys_init s0) cs sys" "sys_threads sys i = Waiting cmd keys"
  shows "\<exists>j lab sys'. sys_step st sys lab sys' \<and> sys_threads sys' j \<noteq> sys_threads sys j \<and>
    (j = i \<or> (\<exists>ks. held_keys (sys_threads sys j) = Some ks \<and> set ks \<inter> set keys \<noteq> {}))"
proof -
  have "sys_inv st ok contents sys"
    using kv_storage.sys_run_serial [OF assms(1,4)
      sys_inv_init [OF store_good_empty [of ok s0 contents, OF assms(2,3)]]] by blast
  from kv_storage.waiting_progress [OF assms(1) this assms(5)] show ?thesis .
qed

theorem no_latch_deadlock_witness:
  "\<exists>j lab sys'. sys_step slist_storage (set_thread 0 (Waiting (Prewrite demo_pw) [[97], [98]]) (sys_init demo_start)) lab sys' \<and>
     sys_threads sys' j \<noteq>
       sys_threads (set_thread 0 (Waiting (Prewrite demo_pw) [[97], [98]]) (sys_init demo_start)) j"
proof -
  let ?s = "set_thread 0 (Waiting (Prewrite demo_pw) [[97], [98]]) (sys_init demo_start)"
  have "sys_step slist_storage (sys_init demo_start) None ?s"
    by (rule sys_step.start [of _ _ "Prewrite demo_pw" _ RespNil])
      (simp_all add: sys_init_def RunCommand_read_def Prewrite_WillWrite_def demo_pw_def valid_op_def)
  from run_snoc [OF run_Nil this] have "sys_run slist_storage (sys_init demo_start) [] ?s" by simp
  moreover have "sys_threads ?s 0 = Waiting (Prewrite demo_pw) [[97], [98]]" by (simp add: set_thread_def)
  ultimately show ?thesis using no_latch_deadlock [OF demo_storage demo_start_ok] by blast
qed

end
