(* ===== verification/Engine.thy ===== *)
theory Engine
  imports KV_Storage
begin

text \<open>
  The engine utilities of TinyKV, \<^verbatim>\<open>kv/util/engine_util\<close>: column families inside one key space
  (\<^verbatim>\<open>util.go\<close>), write batches (\<^verbatim>\<open>write_batch.go\<close>) and iterators over a column family (\<^verbatim>\<open>cf_iterator.go\<close>), on top of
  the embedded store \<^verbatim>\<open>badger\<close>.  The contract of that store is the locale \<open>badger_db\<close>; under it the
  theory shows what batches, lookups, iterators and range deletion do to the ordered map in the store.
\<close>

subsection \<open>The embedded store\<close>

text \<open>
  \<^verbatim>\<open>badger\<close> is a third-party package: its databases, transactions and iterators are values of unknown types, and its
  operations are a parameter.  An item carries what \<^verbatim>\<open>Value\<close> and \<^verbatim>\<open>ValueCopy\<close> return.
\<close>

datatype badger_error = ErrKeyNotFound | BadgerError string

record badger_item =
  it_Key :: bytes
  it_Value :: "badger_error + gobytes"

record ('d, 't, 'i) badger =
  bg_NewTransaction :: "'d \<Rightarrow> bool \<Rightarrow> 't"
  bg_Update :: "'d \<Rightarrow> ('t \<Rightarrow> badger_error + 't) \<Rightarrow> badger_error + 'd"
  bg_Get :: "'t \<Rightarrow> bytes \<Rightarrow> badger_error + badger_item"
  bg_Set :: "'t \<Rightarrow> bytes \<Rightarrow> gobytes \<Rightarrow> badger_error + 't"
  bg_Delete :: "'t \<Rightarrow> bytes \<Rightarrow> badger_error + 't"
  bg_NewIterator :: "'t \<Rightarrow> 'i"
  bg_Seek :: "'i \<Rightarrow> bytes \<Rightarrow> 'i"
  bg_Next :: "'i \<Rightarrow> 'i"
  bg_Rewind :: "'i \<Rightarrow> 'i"
  bg_Valid :: "'i \<Rightarrow> bool"
  bg_ValidForPrefix :: "'i \<Rightarrow> bytes \<Rightarrow> bool"
  bg_Item :: "'i \<Rightarrow> badger_item"

definition bg_View :: "('d, 't, 'i) badger \<Rightarrow> 'd \<Rightarrow> ('t \<Rightarrow> 'a) \<Rightarrow> 'a" where
  "bg_View B db f = f (bg_NewTransaction B db False)"

subsection \<open>Keys with a column family\<close>

definition bytes_of_string :: "string \<Rightarrow> bytes" where
  "bytes_of_string s = map (\<lambda>c. of_nat (of_char c)) s"

definition KeyWithCF :: "string \<Rightarrow> bytes \<Rightarrow> bytes" where
  "KeyWithCF cf key = bytes_of_string (cf @ ''_'') @ key"

definition GetCFFromTxn :: "('d, 't, 'i) badger \<Rightarrow> 't \<Rightarrow> string \<Rightarrow> bytes \<Rightarrow> badger_error + gobytes" where
  "GetCFFromTxn B txn cf key =
     (case bg_Get B txn (KeyWithCF cf key) of Inl err \<Rightarrow> Inl err | Inr item \<Rightarrow> it_Value item)"

definition eng_GetCF :: "('d, 't, 'i) badger \<Rightarrow> 'd \<Rightarrow> string \<Rightarrow> bytes \<Rightarrow> badger_error + gobytes" where
  "eng_GetCF B db cf key = bg_View B db (\<lambda>txn. GetCFFromTxn B txn cf key)"

definition PutCF :: "('d, 't, 'i) badger \<Rightarrow> 'd \<Rightarrow> string \<Rightarrow> bytes \<Rightarrow> gobytes \<Rightarrow> badger_error + 'd" where
  "PutCF B engine cf key val = bg_Update B engine (\<lambda>txn. bg_Set B txn (KeyWithCF cf key) val)"

definition eng_DeleteCF :: "('d, 't, 'i) badger \<Rightarrow> 'd \<Rightarrow> string \<Rightarrow> bytes \<Rightarrow> badger_error + 'd" where
  "eng_DeleteCF B engine cf key = bg_Update B engine (\<lambda>txn. bg_Delete B txn (KeyWithCF cf key))"

text \<open>Messages are stored through \<^verbatim>\<open>proto.Marshal\<close> and \<^verbatim>\<open>proto.Unmarshal\<close>, which are parameters.\<close>

definition GetMetaFromTxn ::
  "('d, 't, 'i) badger \<Rightarrow> (gobytes \<Rightarrow> badger_error + 'm) \<Rightarrow> 't \<Rightarrow> bytes \<Rightarrow> badger_error + 'm" where
  "GetMetaFromTxn B unmarshal txn key =
     (case bg_Get B txn key of
        Inl err \<Rightarrow> Inl err
      | Inr item \<Rightarrow> (case it_Value item of Inl err \<Rightarrow> Inl err | Inr val \<Rightarrow> unmarshal val))"

definition GetMeta :: "('d, 't, 'i) badger \<Rightarrow> (gobytes \<Rightarrow> badger_error + 'm) \<Rightarrow> 'd \<Rightarrow> bytes \<Rightarrow> badger_error + 'm" where
  "GetMeta B unmarshal engine key = bg_View B engine (\<lambda>txn. GetMetaFromTxn B unmarshal txn key)"

definition PutMeta ::
  "('d, 't, 'i) badger \<Rightarrow> ('m \<Rightarrow> badger_error + gobytes) \<Rightarrow> 'd \<Rightarrow> bytes \<Rightarrow> 'm \<Rightarrow> badger_error + 'd" where
  "PutMeta B marshal engine key msg =
     (case marshal msg of Inl err \<Rightarrow> Inl err | Inr val \<Rightarrow> bg_Update B engine (\<lambda>txn. bg_Set B txn key val))"

definition ExceedEndKey :: "bytes \<Rightarrow> bytes \<Rightarrow> bool" where
  "ExceedEndKey current endKey = (if length endKey = 0 then False else bytes_Compare current endKey \<ge> 0)"

subsection \<open>Write batches\<close>

record badger_Entry =
  en_Key :: bytes
  en_Value :: gobytes

record eng_WriteBatch =
  wb_entries :: "badger_Entry list"
  wb_size :: int
  wb_safePoint :: nat
  wb_safePointSize :: int
  wb_safePointUndo :: int

definition new_WriteBatch :: eng_WriteBatch where
  "new_WriteBatch = \<lparr>wb_entries = [], wb_size = 0, wb_safePoint = 0, wb_safePointSize = 0, wb_safePointUndo = 0\<rparr>"

definition golen :: "gobytes \<Rightarrow> nat" where
  "golen b = (case b of None \<Rightarrow> 0 | Some xs \<Rightarrow> length xs)"

definition WriteBatch_Len :: "eng_WriteBatch \<Rightarrow> nat" where
  "WriteBatch_Len wb = length (wb_entries wb)"

definition WriteBatch_SetCF :: "string \<Rightarrow> bytes \<Rightarrow> gobytes \<Rightarrow> eng_WriteBatch \<Rightarrow> eng_WriteBatch" where
  "WriteBatch_SetCF cf key val wb =
     wb\<lparr>wb_entries := wb_entries wb @ [\<lparr>en_Key = KeyWithCF cf key, en_Value = val\<rparr>], wb_size := wb_size wb + int (length key + golen val)\<rparr>"

definition WriteBatch_DeleteMeta :: "bytes \<Rightarrow> eng_WriteBatch \<Rightarrow> eng_WriteBatch" where
  "WriteBatch_DeleteMeta key wb =
     wb\<lparr>wb_entries := wb_entries wb @ [\<lparr>en_Key = key, en_Value = None\<rparr>], wb_size := wb_size wb + int (length key)\<rparr>"

definition WriteBatch_DeleteCF :: "string \<Rightarrow> bytes \<Rightarrow> eng_WriteBatch \<Rightarrow> eng_WriteBatch" where
  "WriteBatch_DeleteCF cf key wb =
     wb\<lparr>wb_entries := wb_entries wb @ [\<lparr>en_Key = KeyWithCF cf key, en_Value = None\<rparr>], wb_size := wb_size wb + int (length key)\<rparr>"

definition WriteBatch_SetMeta ::
  "('m \<Rightarrow> badger_error + gobytes) \<Rightarrow> bytes \<Rightarrow> 'm \<Rightarrow> eng_WriteBatch \<Rightarrow> badger_error + eng_WriteBatch" where
  "WriteBatch_SetMeta marshal key msg wb =
     (case marshal msg of
        Inl err \<Rightarrow> Inl err
      | Inr val \<Rightarrow> Inr (wb\<lparr>wb_entries := wb_entries wb @ [\<lparr>en_Key = key, en_Value = val\<rparr>],
          wb_size := wb_size wb + int (length key + golen val)\<rparr>))"

definition WriteBatch_SetSafePoint :: "eng_WriteBatch \<Rightarrow> eng_WriteBatch" where
  "WriteBatch_SetSafePoint wb = wb\<lparr>wb_safePoint := length (wb_entries wb), wb_safePointSize := wb_size wb\<rparr>"

definition WriteBatch_RollbackToSafePoint :: "eng_WriteBatch \<Rightarrow> eng_WriteBatch option" where
  "WriteBatch_RollbackToSafePoint wb =
     (if wb_safePoint wb \<le> length (wb_entries wb)
      then Some (wb\<lparr>wb_entries := take (wb_safePoint wb) (wb_entries wb), wb_size := wb_safePointSize wb\<rparr>) else None)"

text \<open>An entry with an empty value is a deletion.\<close>

fun WriteToDB_loop :: "('d, 't, 'i) badger \<Rightarrow> badger_Entry list \<Rightarrow> 't \<Rightarrow> badger_error + 't" where
  "WriteToDB_loop B [] txn = Inr txn"
| "WriteToDB_loop B (entry # entries) txn =
     (case (if golen (en_Value entry) = 0 then bg_Delete B txn (en_Key entry) else bg_Set B txn (en_Key entry) (en_Value entry)) of
        Inl err \<Rightarrow> Inl err
      | Inr txn \<Rightarrow> WriteToDB_loop B entries txn)"

definition WriteBatch_WriteToDB :: "('d, 't, 'i) badger \<Rightarrow> 'd \<Rightarrow> eng_WriteBatch \<Rightarrow> badger_error + 'd" where
  "WriteBatch_WriteToDB B db wb =
     (if length (wb_entries wb) > 0 then bg_Update B db (WriteToDB_loop B (wb_entries wb)) else Inr db)"

definition WriteBatch_MustWriteToDB :: "('d, 't, 'i) badger \<Rightarrow> 'd \<Rightarrow> eng_WriteBatch \<Rightarrow> 'd option" where
  "WriteBatch_MustWriteToDB B db wb = (case WriteBatch_WriteToDB B db wb of Inl err \<Rightarrow> None | Inr db \<Rightarrow> Some db)"

definition WriteBatch_Reset :: "eng_WriteBatch \<Rightarrow> eng_WriteBatch" where
  "WriteBatch_Reset wb = wb\<lparr>wb_entries := [], wb_size := 0, wb_safePoint := 0, wb_safePointSize := 0, wb_safePointUndo := 0\<rparr>"

subsection \<open>Iterators of a column family\<close>

record 'i BadgerIterator =
  bi_iter :: 'i
  bi_prefix :: bytes

definition NewCFIterator :: "('d, 't, 'i) badger \<Rightarrow> string \<Rightarrow> 't \<Rightarrow> 'i BadgerIterator" where
  "NewCFIterator B cf txn = \<lparr>bi_iter = bg_NewIterator B txn, bi_prefix = bytes_of_string (cf @ ''_'')\<rparr>"

text \<open>The key and the value of the current item; the key is cut by the length of the prefix, which panics on a shorter key.\<close>

definition CFItem_Key :: "('d, 't, 'i) badger \<Rightarrow> 'i BadgerIterator \<Rightarrow> bytes option" where
  "CFItem_Key B it =
     (let key = it_Key (bg_Item B (bi_iter it)); prefixLen = length (bi_prefix it)
      in if prefixLen \<le> length key then Some (drop prefixLen key) else None)"

definition CFItem_Value :: "('d, 't, 'i) badger \<Rightarrow> 'i BadgerIterator \<Rightarrow> badger_error + gobytes" where
  "CFItem_Value B it = it_Value (bg_Item B (bi_iter it))"

definition BadgerIterator_Valid :: "('d, 't, 'i) badger \<Rightarrow> 'i BadgerIterator \<Rightarrow> bool" where
  "BadgerIterator_Valid B it = bg_ValidForPrefix B (bi_iter it) (bi_prefix it)"

definition BadgerIterator_ValidForPrefix :: "('d, 't, 'i) badger \<Rightarrow> 'i BadgerIterator \<Rightarrow> bytes \<Rightarrow> bool" where
  "BadgerIterator_ValidForPrefix B it prfx = bg_ValidForPrefix B (bi_iter it) (prfx @ bi_prefix it)"

definition BadgerIterator_Next :: "('d, 't, 'i) badger \<Rightarrow> 'i BadgerIterator \<Rightarrow> 'i BadgerIterator" where
  "BadgerIterator_Next B it = it\<lparr>bi_iter := bg_Next B (bi_iter it)\<rparr>"

definition BadgerIterator_Seek :: "('d, 't, 'i) badger \<Rightarrow> 'i BadgerIterator \<Rightarrow> bytes \<Rightarrow> 'i BadgerIterator" where
  "BadgerIterator_Seek B it key = it\<lparr>bi_iter := bg_Seek B (bi_iter it) (bi_prefix it @ key)\<rparr>"

definition BadgerIterator_Rewind :: "('d, 't, 'i) badger \<Rightarrow> 'i BadgerIterator \<Rightarrow> 'i BadgerIterator" where
  "BadgerIterator_Rewind B it = it\<lparr>bi_iter := bg_Rewind B (bi_iter it)\<rparr>"

subsection \<open>Deleting a range\<close>

text \<open>The loop over one column family; the iterator may never become invalid as far as its type tells.\<close>

partial_function (option) deleteRangeCF_loop ::
  "('d, 't, 'i) badger \<Rightarrow> string \<Rightarrow> bytes \<Rightarrow> 'i BadgerIterator \<Rightarrow> eng_WriteBatch \<Rightarrow> eng_WriteBatch option" where
  "deleteRangeCF_loop B cf endKey it batch =
     (if BadgerIterator_Valid B it
      then CFItem_Key B it \<bind> (\<lambda>key.
        if ExceedEndKey key endKey then Some batch
        else deleteRangeCF_loop B cf endKey (BadgerIterator_Next B it) (WriteBatch_DeleteCF cf key batch))
      else Some batch)"

definition deleteRangeCF ::
  "('d, 't, 'i) badger \<Rightarrow> 't \<Rightarrow> eng_WriteBatch \<Rightarrow> string \<Rightarrow> bytes \<Rightarrow> bytes \<Rightarrow> eng_WriteBatch option" where
  "deleteRangeCF B txn batch cf startKey endKey =
     deleteRangeCF_loop B cf endKey (BadgerIterator_Seek B (NewCFIterator B cf txn) startKey) batch"

fun DeleteRange_loop ::
  "('d, 't, 'i) badger \<Rightarrow> 't \<Rightarrow> bytes \<Rightarrow> bytes \<Rightarrow> string list \<Rightarrow> eng_WriteBatch \<Rightarrow> eng_WriteBatch option" where
  "DeleteRange_loop B txn startKey endKey [] batch = Some batch"
| "DeleteRange_loop B txn startKey endKey (cf # cfs) batch =
     deleteRangeCF B txn batch cf startKey endKey \<bind> DeleteRange_loop B txn startKey endKey cfs"

definition DeleteRange :: "('d, 't, 'i) badger \<Rightarrow> 'd \<Rightarrow> bytes \<Rightarrow> bytes \<Rightarrow> (badger_error + 'd) option" where
  "DeleteRange B db startKey endKey =
     (let txn = bg_NewTransaction B db False
      in DeleteRange_loop B txn startKey endKey CFs new_WriteBatch \<bind> (\<lambda>batch. Some (WriteBatch_WriteToDB B db batch)))"

subsection \<open>One ordered map holds all column families\<close>

text \<open>The part of an ordered map under a prefix, without the prefix.\<close>

definition has_prefix :: "bytes \<Rightarrow> bytes \<times> 'a \<Rightarrow> bool" where
  "has_prefix p e \<longleftrightarrow> take (length p) (fst e) = p"

definition strip :: "bytes \<Rightarrow> bytes \<times> 'a \<Rightarrow> bytes \<times> 'a" where
  "strip p e = (drop (length p) (fst e), snd e)"

definition view :: "bytes \<Rightarrow> (bytes \<times> 'a) list \<Rightarrow> (bytes \<times> 'a) list" where
  "view p c = map (strip p) (filter (has_prefix p) c)"

definition view_rest :: "bytes \<Rightarrow> (bytes \<times> 'a) list \<Rightarrow> (bytes \<times> 'a) list" where
  "view_rest p c = map (strip p) (takeWhile (has_prefix p) c)"

lemma has_prefix_append [simp]: "has_prefix p (p @ k, v)"
  by (simp add: has_prefix_def)

lemma has_prefixE: "has_prefix p e \<Longrightarrow> (\<And>k v. e = (p @ k, v) \<Longrightarrow> thesis) \<Longrightarrow> thesis"
  by (cases e) (metis append_take_drop_id fst_conv has_prefix_def)

lemma strip_append [simp]: "strip p (p @ k, v) = (k, v)"
  by (simp add: strip_def)

lemma ascending_ext:
  assumes "ascending xs" "ascending ys" "map_of xs = map_of ys"
  shows "xs = ys"
proof -
  have "set xs = set ys" using assms by (auto simp: ascending_map_of)
  with assms(1,2) show ?thesis
  proof (induction xs arbitrary: ys)
    case (Cons x xs)
    then obtain y ys' where ys: "ys = y # ys'" by (cases ys) auto
    have "x = y" using Cons.prems ys by (metis ascending_Cons less_asym list.set_intros(1) set_ConsD)
    moreover have "x \<notin> set xs" "y \<notin> set ys'" using Cons.prems(1,2) ys by auto
    ultimately have "set xs = set ys'" using Cons.prems(3) ys by (metis insert_ident list.simps(15))
    with Cons \<open>x = y\<close> ys show ?case by simp
  qed simp
qed

lemma strip_less: "has_prefix p x \<Longrightarrow> has_prefix p e \<Longrightarrow> fst (strip p x) < fst (strip p e) \<longleftrightarrow> fst x < fst e"
  by (elim has_prefixE) simp

lemma ascending_view: "ascending c \<Longrightarrow> ascending (view p c)"
proof (induction c)
  case (Cons x c)
  then show ?case by (auto simp: view_def strip_less)
qed (simp add: view_def)

lemma map_of_view: "map_of (view p c) k = map_of c (p @ k)"
proof (induction c)
  case (Cons e c)
  show ?case
  proof (cases "has_prefix p e")
    case True
    then show ?thesis using Cons by (auto simp: view_def elim!: has_prefixE)
  next
    case False
    then have "fst e \<noteq> p @ k" by (cases e) (auto simp: has_prefix_def)
    with False Cons show ?thesis by (cases e) (simp add: view_def)
  qed
qed (simp add: view_def)

lemma view_put:
  assumes "ascending c"
  shows "view p (put_kv (p @ k) v c) = put_kv k v (view p c)"
  using assms by (intro ascending_ext)
    (auto simp: ascending_view ascending_put_kv map_of_view map_of_put_kv fun_eq_iff)

lemma view_put_other:
  assumes "ascending c" "take (length p) k \<noteq> p"
  shows "view p (put_kv k v c) = view p c"
  using assms by (intro ascending_ext) (auto simp: ascending_view ascending_put_kv map_of_view map_of_put_kv fun_eq_iff)

lemma view_del:
  assumes "ascending c"
  shows "view p (del_kv (p @ k) c) = del_kv k (view p c)"
  using assms by (intro ascending_ext) (auto simp: ascending_view ascending_del_kv map_of_view map_of_del_kv fun_eq_iff)

lemma view_del_other:
  assumes "ascending c" "take (length p) k \<noteq> p"
  shows "view p (del_kv k c) = view p c"
  using assms by (intro ascending_ext) (auto simp: ascending_view ascending_del_kv map_of_view map_of_del_kv fun_eq_iff)

lemma beyond_prefix:
  fixes p x :: bytes
  shows "p \<le> x \<Longrightarrow> take (length p) x \<noteq> p \<Longrightarrow> p @ z < x"
proof (induction p arbitrary: x)
  case (Cons a p)
  then show ?case by (cases x) auto
qed simp

text \<open>Behind the first key without the prefix, no key has it.\<close>

lemma takeWhile_prefix:
  "ascending xs \<Longrightarrow> \<forall>e \<in> set xs. p \<le> fst e \<Longrightarrow> takeWhile (has_prefix p) xs = filter (has_prefix p) xs"
proof (induction xs)
  case (Cons x xs)
  show ?case
  proof (cases "has_prefix p x")
    case False
    have "\<not> has_prefix p e" if "e \<in> set xs" for e
    proof
      assume "has_prefix p e"
      then obtain z v where e: "e = (p @ z, v)" by (rule has_prefixE)
      have "p @ z < fst x" using False Cons.prems(2) by (intro beyond_prefix) (auto simp: has_prefix_def)
      then show False using Cons.prems(1) that e by force
    qed
    with False show ?thesis by (simp add: filter_empty_conv)
  qed (use Cons in simp)
qed simp

lemma prefix_le: "p \<le> p @ (k :: bytes)"
  by (induction p) simp_all

lemma view_seek:
  assumes "ascending c"
  shows "view_rest p (seek_from (p @ k) c) = seek_from k (view p c)"
proof -
  have "takeWhile (has_prefix p) (seek_from (p @ k) c) = filter (has_prefix p) (filter (\<lambda>e. p @ k \<le> fst e) c)"
    using assms prefix_le [of p k] unfolding seek_from_eq_filter [OF assms]
    by (intro takeWhile_prefix) (auto simp: ascending_filter intro: order_trans)
  moreover have "seek_from k (view p c) = map (strip p) (filter (\<lambda>e. has_prefix p e \<and> k \<le> fst (strip p e)) c)"
    using seek_from_eq_filter [OF ascending_view [OF assms], of k p] by (simp add: view_def filter_map comp_def conj_commute)
  moreover have "filter (\<lambda>e. has_prefix p e \<and> k \<le> fst (strip p e)) c = filter (\<lambda>e. has_prefix p e \<and> p @ k \<le> fst e) c"
    by (intro filter_cong) (auto elim!: has_prefixE simp: not_less [symmetric])
  ultimately show ?thesis by (simp add: view_rest_def conj_commute)
qed

lemma view_rest_Cons:
  "view_rest p c = e # es \<Longrightarrow> \<exists>k v c'. c = (p @ k, v) # c' \<and> e = (k, v) \<and> es = view_rest p c'"
  by (cases c) (auto simp: view_rest_def elim!: has_prefixE split: if_splits)

lemma view_rest_Nil: "view_rest p c \<noteq> [] \<longleftrightarrow> (\<exists>k v c'. c = (p @ k, v) # c')"
  by (cases c) (auto simp: view_rest_def elim!: has_prefixE split: if_splits)

definition cf_prefix :: "string \<Rightarrow> bytes" where
  "cf_prefix cf = bytes_of_string (cf @ ''_'')"

lemma KeyWithCF_prefix: "KeyWithCF cf k = cf_prefix cf @ k"
  by (simp add: KeyWithCF_def cf_prefix_def)

lemma cf_prefix_other:
  "cf \<in> set CFs \<Longrightarrow> cf' \<in> set CFs \<Longrightarrow> cf \<noteq> cf' \<Longrightarrow> take (length (cf_prefix cf)) (cf_prefix cf' @ k) \<noteq> cf_prefix cf"
  by (auto simp: CFs_def cf_prefix_def bytes_of_string_def CfDefault_def CfWrite_def CfLock_def)

subsection \<open>What the embedded store promises\<close>

text \<open>
  A database and a transaction hold an ordered map.  A transaction starts from the database; its reads see its own
  writes; \<^verbatim>\<open>Update\<close> installs the result of a transaction as a whole if it returns without an error.  An iterator walks the map in
  key order.  Writes may fail.
\<close>

locale badger_db =
  fixes B :: "('d, 't, 'i) badger" and db_content :: "'d \<Rightarrow> cf_content" and txn_content :: "'t \<Rightarrow> cf_content"
    and it_on :: "'t \<Rightarrow> 'i \<Rightarrow> bool" and it_rest :: "'i \<Rightarrow> cf_content"
  assumes db_ascending: "ascending (db_content d)" and txn_ascending: "ascending (txn_content t)"
    and new_txn: "txn_content (bg_NewTransaction B d u) = db_content d"
    and txn_get: "bg_Get B t k =
      (case map_of (txn_content t) k of None \<Rightarrow> Inl ErrKeyNotFound | Some v \<Rightarrow> Inr \<lparr>it_Key = k, it_Value = Inr v\<rparr>)"
    and txn_set: "bg_Set B t k v = Inr t' \<Longrightarrow> txn_content t' = put_kv k v (txn_content t)"
    and txn_delete: "bg_Delete B t k = Inr t' \<Longrightarrow> txn_content t' = del_kv k (txn_content t)"
    and update: "bg_Update B d f = Inr d' \<Longrightarrow> \<exists>t'. f (bg_NewTransaction B d True) = Inr t' \<and> db_content d' = txn_content t'"
    and it_new: "it_on t (bg_NewIterator B t)"
    and it_seek: "it_on t it \<Longrightarrow> it_on t (bg_Seek B it k) \<and> it_rest (bg_Seek B it k) = seek_from k (txn_content t)"
    and it_next: "it_on t it \<Longrightarrow> it_rest it = e # es \<Longrightarrow> it_on t (bg_Next B it) \<and> it_rest (bg_Next B it) = es"
    and it_valid: "it_on t it \<Longrightarrow> bg_Valid B it \<longleftrightarrow> it_rest it \<noteq> []"
    and it_valid_prefix: "it_on t it \<Longrightarrow> bg_ValidForPrefix B it p \<longleftrightarrow> (\<exists>k v es. it_rest it = (p @ k, v) # es)"
    and it_item: "it_on t it \<Longrightarrow> it_rest it = (k, v) # es \<Longrightarrow> bg_Item B it = \<lparr>it_Key = k, it_Value = Inr v\<rparr>"

text \<open>The effect of one batch entry.\<close>

definition apply_entry :: "badger_Entry \<Rightarrow> cf_content \<Rightarrow> cf_content" where
  "apply_entry e c = (if golen (en_Value e) = 0 then del_kv (en_Key e) c else put_kv (en_Key e) (en_Value e) c)"

definition in_range :: "bytes \<Rightarrow> bytes \<Rightarrow> bytes \<times> 'a \<Rightarrow> bool" where
  "in_range startKey endKey e \<longleftrightarrow> startKey \<le> fst e \<and> (endKey = [] \<or> fst e < endKey)"

definition deletion :: "string \<Rightarrow> bytes \<times> 'a \<Rightarrow> badger_Entry" where
  "deletion cf e = \<lparr>en_Key = KeyWithCF cf (fst e), en_Value = None\<rparr>"

definition deleted_keys :: "badger_Entry list \<Rightarrow> bytes \<Rightarrow> bool" where
  "deleted_keys es k \<longleftrightarrow> k \<in> en_Key ` set es"

lemma range_takeWhile:
  "ascending c \<Longrightarrow> takeWhile (\<lambda>e. \<not> ExceedEndKey (fst e) endKey) (seek_from startKey c) = filter (in_range startKey endKey) c"
proof -
  assume c: "ascending c"
  have "takeWhile (\<lambda>e. \<not> ExceedEndKey (fst e) endKey) xs = filter (\<lambda>e. \<not> ExceedEndKey (fst e) endKey) xs"
    if "ascending xs" for xs :: "(bytes \<times> 'a) list"
    using that by (induction xs) (auto simp: ExceedEndKey_def bytes_Compare_ge intro!: filter_False [symmetric])
  from this [OF ascending_filter [OF c]] show ?thesis
    by (simp add: seek_from_eq_filter [OF c]) (intro filter_cong, auto simp: in_range_def ExceedEndKey_def bytes_Compare_ge)
qed

lemma fold_DeleteCF:
  "fold (WriteBatch_DeleteCF cf) (map fst es) batch =
     batch\<lparr>wb_entries := wb_entries batch @ map (deletion cf) es, wb_size := wb_size batch + sum_list (map (int \<circ> length \<circ> fst) es)\<rparr>"
  by (induction es arbitrary: batch) (simp_all add: WriteBatch_DeleteCF_def deletion_def)

lemma fold_deletions:
  "\<forall>e\<in>set es. en_Value e = None \<Longrightarrow> fold apply_entry es c = filter (\<lambda>e. \<not> deleted_keys es (fst e)) c"
proof (induction es arbitrary: c)
  case (Cons e es)
  then show ?case by (simp add: apply_entry_def golen_def del_kv_def deleted_keys_def conj_commute)
qed (simp add: deleted_keys_def)

lemma deletions_concat: "e \<in> set (concat (map (\<lambda>cf. map (deletion cf) (f cf)) cfs)) \<Longrightarrow> en_Value e = None"
  by (auto simp: deletion_def)

lemma deleted_keys_view:
  assumes "e \<in> set c"
  shows "deleted_keys (concat (map (\<lambda>cf. map (deletion cf) (filter (in_range startKey endKey) (view (cf_prefix cf) c))) cfs)) (fst e)
    \<longleftrightarrow> (\<exists>cf\<in>set cfs. has_prefix (cf_prefix cf) e \<and> in_range startKey endKey (strip (cf_prefix cf) e))" (is "?l \<longleftrightarrow> ?r")
proof
  assume ?l
  then obtain cf x where x: "cf \<in> set cfs" "x \<in> set (view (cf_prefix cf) c)" "in_range startKey endKey x" "fst e = cf_prefix cf @ fst x"
    by (auto simp: deleted_keys_def deletion_def KeyWithCF_prefix)
  then have "has_prefix (cf_prefix cf) e" "fst (strip (cf_prefix cf) e) = fst x" by (simp_all add: has_prefix_def strip_def)
  with x show ?r by (intro bexI [of _ cf]) (simp_all add: in_range_def)
next
  assume ?r
  then obtain cf where cf: "cf \<in> set cfs" "has_prefix (cf_prefix cf) e" "in_range startKey endKey (strip (cf_prefix cf) e)" by blast
  then have "strip (cf_prefix cf) e \<in> set (view (cf_prefix cf) c)" using assms by (simp add: view_def)
  moreover have "fst e = en_Key (deletion cf (strip (cf_prefix cf) e))"
    using cf(2) by (auto simp: deletion_def KeyWithCF_prefix elim!: has_prefixE)
  ultimately show ?l using cf(1,3) by (auto simp: deleted_keys_def intro!: bexI [of _ cf] image_eqI)
qed

context badger_db
begin

lemma WriteToDB_loop_content: "WriteToDB_loop B es t = Inr t' \<Longrightarrow> txn_content t' = fold apply_entry es (txn_content t)"
proof (induction es arbitrary: t)
  case (Cons e es)
  from Cons.prems obtain t1 where t1: "(if golen (en_Value e) = 0 then bg_Delete B t (en_Key e) else bg_Set B t (en_Key e) (en_Value e)) = Inr t1"
    "WriteToDB_loop B es t1 = Inr t'" by (auto split: sum.splits if_splits)
  have "txn_content t1 = apply_entry e (txn_content t)"
    using t1(1) txn_set txn_delete by (auto simp: apply_entry_def split: if_splits)
  with Cons.IH [OF t1(2)] show ?case by simp
qed simp

lemma WriteToDB_content:
  assumes "WriteBatch_WriteToDB B d wb = Inr d'"
  shows "db_content d' = fold apply_entry (wb_entries wb) (db_content d)"
proof (cases "wb_entries wb = []")
  case False
  with assms update [of d "WriteToDB_loop B (wb_entries wb)" d'] show ?thesis
    by (auto simp: WriteBatch_WriteToDB_def new_txn dest!: WriteToDB_loop_content)
qed (use assms in \<open>simp add: WriteBatch_WriteToDB_def\<close>)

lemma PutCF_content: "PutCF B d cf k v = Inr d' \<Longrightarrow> db_content d' = put_kv (cf_prefix cf @ k) v (db_content d)"
  unfolding PutCF_def KeyWithCF_prefix using update txn_set new_txn by metis

lemma DeleteCF_content: "eng_DeleteCF B d cf k = Inr d' \<Longrightarrow> db_content d' = del_kv (cf_prefix cf @ k) (db_content d)"
  unfolding eng_DeleteCF_def KeyWithCF_prefix using update txn_delete new_txn by metis

lemma GetCFFromTxn_eq:
  "GetCFFromTxn B t cf k = (case map_of (view (cf_prefix cf) (txn_content t)) k of None \<Rightarrow> Inl ErrKeyNotFound | Some v \<Rightarrow> Inr v)"
  by (simp add: GetCFFromTxn_def KeyWithCF_prefix txn_get map_of_view split: option.splits)

text \<open>The iterator of a column family walks the view of that family.\<close>

definition cf_on :: "'t \<Rightarrow> string \<Rightarrow> 'i BadgerIterator \<Rightarrow> bool" where
  "cf_on t cf it \<longleftrightarrow> it_on t (bi_iter it) \<and> bi_prefix it = cf_prefix cf"

definition cf_rest :: "'i BadgerIterator \<Rightarrow> cf_content" where
  "cf_rest it = view_rest (bi_prefix it) (it_rest (bi_iter it))"

lemma cf_new: "cf_on t cf (NewCFIterator B cf t)"
  by (simp add: cf_on_def NewCFIterator_def it_new cf_prefix_def)

lemma cf_seek:
  assumes "cf_on t cf it"
  shows "cf_on t cf (BadgerIterator_Seek B it k)" "cf_rest (BadgerIterator_Seek B it k) = seek_from k (view (cf_prefix cf) (txn_content t))"
  using assms it_seek [of t "bi_iter it"] by (simp_all add: cf_on_def cf_rest_def BadgerIterator_Seek_def view_seek txn_ascending)

lemma cf_next:
  assumes "cf_on t cf it" "cf_rest it = e # es"
  shows "cf_on t cf (BadgerIterator_Next B it)" "cf_rest (BadgerIterator_Next B it) = es"
  using assms it_next view_rest_Cons [of "bi_prefix it" "it_rest (bi_iter it)" e es]
  by (auto simp: cf_on_def cf_rest_def BadgerIterator_Next_def)

lemma cf_valid: "cf_on t cf it \<Longrightarrow> BadgerIterator_Valid B it \<longleftrightarrow> cf_rest it \<noteq> []"
  using it_valid_prefix [of t "bi_iter it"] by (simp add: cf_on_def cf_rest_def BadgerIterator_Valid_def view_rest_Nil)

lemma cf_item:
  assumes "cf_on t cf it" "cf_rest it = (k, v) # es"
  shows "CFItem_Key B it = Some k" "CFItem_Value B it = Inr v"
  using assms it_item view_rest_Cons [of "bi_prefix it" "it_rest (bi_iter it)" "(k, v)" es]
  by (auto simp: cf_on_def cf_rest_def CFItem_Key_def CFItem_Value_def)

lemma deleteRangeCF_loop_eq:
  "cf_on t cf it \<Longrightarrow> cf_rest it = es \<Longrightarrow> deleteRangeCF_loop B cf endKey it batch =
     Some (fold (WriteBatch_DeleteCF cf) (map fst (takeWhile (\<lambda>e. \<not> ExceedEndKey (fst e) endKey) es)) batch)"
proof (induction es arbitrary: it batch)
  case Nil
  then show ?case by (subst deleteRangeCF_loop.simps) (simp add: cf_valid)
next
  case (Cons e es)
  obtain k v where e: "e = (k, v)" by (cases e)
  with Cons cf_next [OF Cons.prems] cf_item [of t cf it k v es] show ?case
    by (subst deleteRangeCF_loop.simps) (simp add: cf_valid)
qed

lemma deleteRangeCF_eq:
  "deleteRangeCF B t batch cf startKey endKey =
     Some (fold (WriteBatch_DeleteCF cf)
       (map fst (filter (in_range startKey endKey) (view (cf_prefix cf) (txn_content t)))) batch)"
  unfolding deleteRangeCF_def
  by (subst deleteRangeCF_loop_eq [OF cf_seek(1) [OF cf_new] cf_seek(2) [OF cf_new]])
    (simp add: range_takeWhile ascending_view txn_ascending)

lemma DeleteRange_loop_eq:
  "DeleteRange_loop B t startKey endKey cfs batch = Some (batch
     \<lparr>wb_entries := wb_entries batch @ concat (map (\<lambda>cf. map (deletion cf)
        (filter (in_range startKey endKey) (view (cf_prefix cf) (txn_content t)))) cfs),
      wb_size := wb_size batch + sum_list (map (\<lambda>cf. sum_list (map (int \<circ> length \<circ> fst)
        (filter (in_range startKey endKey) (view (cf_prefix cf) (txn_content t))))) cfs)\<rparr>)"
  by (induction cfs arbitrary: batch) (simp_all add: deleteRangeCF_eq fold_DeleteCF)

lemma DeleteRange_content:
  "\<exists>r. DeleteRange B d startKey endKey = Some r \<and>
     (\<forall>d'. r = Inr d' \<longrightarrow> db_content d' =
       filter (\<lambda>e. \<not> (\<exists>cf\<in>set CFs. has_prefix (cf_prefix cf) e \<and> in_range startKey endKey (strip (cf_prefix cf) e))) (db_content d))"
proof -
  let ?es = "concat (map (\<lambda>cf. map (deletion cf) (filter (in_range startKey endKey) (view (cf_prefix cf) (db_content d)))) CFs)"
  have "fold apply_entry ?es (db_content d) = filter (\<lambda>e. \<not> deleted_keys ?es (fst e)) (db_content d)"
    by (intro fold_deletions ballI) (rule deletions_concat)
  also have "\<dots> = filter (\<lambda>e. \<not> (\<exists>cf\<in>set CFs. has_prefix (cf_prefix cf) e \<and> in_range startKey endKey (strip (cf_prefix cf) e))) (db_content d)"
    by (intro filter_cong refl) (simp only: deleted_keys_view)
  finally have eq: "fold apply_entry ?es (db_content d) = \<dots>" .
  show ?thesis
    unfolding DeleteRange_def Let_def DeleteRange_loop_eq new_txn
    using eq by (auto simp: new_WriteBatch_def dest!: WriteToDB_content)
qed

end

subsection \<open>A log of writes as a store\<close>

text \<open>
  The simplest store that fulfils the contract: databases and transactions are the list of the writes so far, and the
  content is what the list amounts to.
\<close>

fun replay :: "(bytes \<times> gobytes option) list \<Rightarrow> cf_content \<Rightarrow> cf_content" where
  "replay [] c = c"
| "replay ((k, None) # ws) c = replay ws (del_kv k c)"
| "replay ((k, Some v) # ws) c = replay ws (put_kv k v c)"

type_synonym wlog = "(bytes \<times> gobytes option) list"

definition wlog_content :: "wlog \<Rightarrow> cf_content" where
  "wlog_content ws = replay ws []"

definition wlog_badger :: "(wlog, wlog, wlog \<times> cf_content) badger" where
  "wlog_badger =
     \<lparr>bg_NewTransaction = (\<lambda>d u. d),
      bg_Update = (\<lambda>d f. f d),
      bg_Get = (\<lambda>t k. case map_of (wlog_content t) k of
        None \<Rightarrow> Inl ErrKeyNotFound | Some v \<Rightarrow> Inr \<lparr>it_Key = k, it_Value = Inr v\<rparr>),
      bg_Set = (\<lambda>t k v. Inr (t @ [(k, Some v)])),
      bg_Delete = (\<lambda>t k. Inr (t @ [(k, None)])),
      bg_NewIterator = (\<lambda>t. (t, [])),
      bg_Seek = (\<lambda>it k. (fst it, seek_from k (wlog_content (fst it)))),
      bg_Next = (\<lambda>it. (fst it, tl (snd it))),
      bg_Rewind = (\<lambda>it. (fst it, wlog_content (fst it))),
      bg_Valid = (\<lambda>it. snd it \<noteq> []),
      bg_ValidForPrefix = (\<lambda>it p. case snd it of [] \<Rightarrow> False | e # es \<Rightarrow> take (length p) (fst e) = p),
      bg_Item = (\<lambda>it. case snd it of
        [] \<Rightarrow> \<lparr>it_Key = [], it_Value = Inr None\<rparr> | e # es \<Rightarrow> \<lparr>it_Key = fst e, it_Value = Inr (snd e)\<rparr>)\<rparr>"

lemma replay_ascending: "ascending c \<Longrightarrow> ascending (replay ws c)"
  by (induction ws c rule: replay.induct) (simp_all add: ascending_del_kv ascending_put_kv)

lemma replay_append: "replay (ws @ ws') c = replay ws' (replay ws c)"
  by (induction ws c rule: replay.induct) simp_all

lemma take_prefix_iff: "take (length (p :: bytes)) (fst e) = p \<longleftrightarrow> (\<exists>k v. e = (p @ k, v))"
proof
  assume "take (length p) (fst e) = p"
  then have "has_prefix p e" by (simp add: has_prefix_def)
  then show "\<exists>k v. e = (p @ k, v)" by (elim has_prefixE) blast
qed auto

lemma valid_prefix_list:
  "(case xs of [] \<Rightarrow> False | e # es \<Rightarrow> take (length (p :: bytes)) (fst e) = p) \<longleftrightarrow> (\<exists>k v es. xs = (p @ k, v) # es)"
  by (cases xs) (simp_all add: take_prefix_iff)

interpretation wlog: badger_db wlog_badger wlog_content wlog_content "\<lambda>t it. fst it = t" snd
  by unfold_locales
    (simp_all add: wlog_badger_def wlog_content_def replay_ascending replay_append valid_prefix_list)

end
