(* ===== verification/StandAlone.thy ===== *)
theory StandAlone
  imports Engine
begin

text \<open>
  The stand-alone storage, \<^verbatim>\<open>kv/storage/standalone_storage/standalone_storage.go\<close>: column families in one
  \<^verbatim>\<open>badger\<close> database, read through \<^verbatim>\<open>BadgerReader\<close>.  Over any store with the contract \<open>badger_db\<close> it
  fulfils the storage contract \<open>kv_storage\<close>, so everything shown of the transaction layer holds on it.  Its method table
  answers a failed write with the error alone; \<open>Write_prefix\<close> says which part of the batch such a write leaves behind.
\<close>

subsection \<open>Readers\<close>

fun badger_storage_error :: "badger_error \<Rightarrow> storage_error" where
  "badger_storage_error ErrKeyNotFound = StorageError ''Key not found''"
| "badger_storage_error (BadgerError msg) = StorageError msg"

definition lift_badger :: "badger_error + 'a \<Rightarrow> storage_error + 'a" where
  "lift_badger r = (case r of Inl err \<Rightarrow> Inl (badger_storage_error err) | Inr a \<Rightarrow> Inr a)"

record 't BadgerReader =
  br_txn :: 't

definition BadgerReader_GetCF :: "('d, 't, 'i) badger \<Rightarrow> 't BadgerReader \<Rightarrow> string \<Rightarrow> bytes \<Rightarrow> storage_error + gobytes" where
  "BadgerReader_GetCF B b cf key =
     (case GetCFFromTxn B (br_txn b) cf key of
        Inl err \<Rightarrow> if err = ErrKeyNotFound then Inr None else Inl (badger_storage_error err)
      | Inr val \<Rightarrow> Inr val)"

definition BadgerReader_IterCF :: "('d, 't, 'i) badger \<Rightarrow> 't BadgerReader \<Rightarrow> string \<Rightarrow> 'i BadgerIterator" where
  "BadgerReader_IterCF B b cf = NewCFIterator B cf (br_txn b)"

text \<open>The reader as a value of the interface.  The key of an item that is too short to be cut has no meaning.\<close>

definition BadgerReader_methods :: "('d, 't, 'i) badger \<Rightarrow> 't BadgerReader \<Rightarrow> 'i BadgerIterator StorageReader" where
  "BadgerReader_methods B b =
     \<lparr>GetCF = BadgerReader_GetCF B b, IterCF = BadgerReader_IterCF B b,
      Seek = BadgerIterator_Seek B, Valid = BadgerIterator_Valid B, Next = BadgerIterator_Next B,
      ItemKey = (\<lambda>it. case CFItem_Key B it of None \<Rightarrow> [] | Some key \<Rightarrow> key),
      ItemValue = (\<lambda>it. lift_badger (CFItem_Value B it))\<rparr>"

subsection \<open>The stand-alone storage\<close>

record 'd StandAloneStorage =
  sa_db :: 'd

definition StandAloneStorage_Reader :: "('d, 't, 'i) badger \<Rightarrow> 'd StandAloneStorage \<Rightarrow> 't BadgerReader" where
  "StandAloneStorage_Reader B s = \<lparr>br_txn = bg_NewTransaction B (sa_db s) False\<rparr>"

text \<open>A batch is written one modification at a time, each in a transaction of its own; the first error ends the loop.\<close>

definition StandAloneStorage_Write1 :: "('d, 't, 'i) badger \<Rightarrow> Modify \<Rightarrow> 'd \<Rightarrow> badger_error + 'd" where
  "StandAloneStorage_Write1 B modify db =
     (case modify of
        Put key val cf \<Rightarrow> PutCF B db cf key val
      | Delete key cf \<Rightarrow> eng_DeleteCF B db cf key)"

fun StandAloneStorage_Write ::
  "('d, 't, 'i) badger \<Rightarrow> 'd StandAloneStorage \<Rightarrow> Modify list \<Rightarrow> storage_error option \<times> 'd StandAloneStorage" where
  "StandAloneStorage_Write B s [] = (None, s)"
| "StandAloneStorage_Write B s (modify # batch) =
     (case StandAloneStorage_Write1 B modify (sa_db s) of
        Inl err \<Rightarrow> (Some (badger_storage_error err), s)
      | Inr db \<Rightarrow> StandAloneStorage_Write B (s\<lparr>sa_db := db\<rparr>) batch)"

definition StandAloneStorage_methods :: "('d, 't, 'i) badger \<Rightarrow> ('d StandAloneStorage, 'i BadgerIterator) Storage" where
  "StandAloneStorage_methods B =
     \<lparr>Reader = (\<lambda>s. Inr (BadgerReader_methods B (StandAloneStorage_Reader B s))),
      WriteBatch = (\<lambda>s batch. case StandAloneStorage_Write B s batch of (None, s') \<Rightarrow> Inr s' | (Some err, _) \<Rightarrow> Inl err)\<rparr>"

text \<open>The contents of the column families, as the parts of the one ordered map under their prefixes.\<close>

definition family :: "cf_content \<Rightarrow> string \<Rightarrow> cf_content" where
  "family c cf = (if cf \<in> set CFs then view (cf_prefix cf) c else [])"

lemma family_put:
  assumes "ascending c" "cf \<in> set CFs"
  shows "family (put_kv (cf_prefix cf @ k) v c) = (family c)(cf := put_kv k v (family c cf))"
  using assms cf_prefix_other by (auto simp: family_def fun_eq_iff view_put view_put_other)

lemma family_del:
  assumes "ascending c" "cf \<in> set CFs"
  shows "family (del_kv (cf_prefix cf @ k) c) = (family c)(cf := del_kv k (family c cf))"
  using assms cf_prefix_other by (auto simp: family_def fun_eq_iff view_del view_del_other)

context badger_db
begin

lemma Write1_family:
  assumes "StandAloneStorage_Write1 B m d = Inr d'" "Modify_Cf m \<in> set CFs"
  shows "family (db_content d') = apply_modify m (family (db_content d))"
  using assms db_ascending
  by (cases m) (auto simp: StandAloneStorage_Write1_def family_put family_del dest!: PutCF_content DeleteCF_content)

lemma Write_prefix:
  assumes "StandAloneStorage_Write B s batch = (err, s')" "known_cfs batch"
  shows "\<exists>n \<le> length batch. (err = None \<longleftrightarrow> n = length batch) \<and>
    family (db_content (sa_db s')) = apply_batch (take n batch) (family (db_content (sa_db s))) \<and>
    (err \<noteq> None \<longrightarrow> (\<exists>e. StandAloneStorage_Write1 B (batch ! n) (sa_db s') = Inl e \<and> err = Some (badger_storage_error e)))"
  using assms
proof (induction batch arbitrary: s)
  case (Cons m batch)
  show ?case
  proof (cases "StandAloneStorage_Write1 B m (sa_db s)")
    case (Inl e)
    with Cons.prems show ?thesis by (intro exI [of _ 0]) (auto simp: apply_batch_def)
  next
    case (Inr db)
    then have fam: "family (db_content db) = apply_modify m (family (db_content (sa_db s)))"
      using Cons.prems by (intro Write1_family) (simp_all add: known_cfs_Cons)
    from Cons.IH [of "s\<lparr>sa_db := db\<rparr>"] Cons.prems Inr obtain n where
      "n \<le> length batch" "err = None \<longleftrightarrow> n = length batch"
      "family (db_content (sa_db s')) = apply_batch (take n batch) (family (db_content db))"
      "err \<noteq> None \<longrightarrow> (\<exists>e. StandAloneStorage_Write1 B (batch ! n) (sa_db s') = Inl e \<and> err = Some (badger_storage_error e))"
      by (auto simp: known_cfs_Cons)
    with fam show ?thesis by (intro exI [of _ "Suc n"]) (simp add: apply_batch_def)
  qed
qed (simp add: apply_batch_def)

definition sa_iter_on :: "'d StandAloneStorage \<Rightarrow> string \<Rightarrow> 'i BadgerIterator \<Rightarrow> bool" where
  "sa_iter_on s cf it \<longleftrightarrow> cf \<in> set CFs \<and> cf_on (bg_NewTransaction B (sa_db s) False) cf it"

lemma sa_iter_laws:
  assumes "sa_iter_on s cf it"
  shows "sa_iter_on s cf (BadgerIterator_Seek B it k)"
    and "cf_rest (BadgerIterator_Seek B it k) = seek_from k (family (db_content (sa_db s)) cf)"
    and "BadgerIterator_Valid B it \<longleftrightarrow> cf_rest it \<noteq> []"
    and "cf_rest it = e # es \<Longrightarrow> sa_iter_on s cf (BadgerIterator_Next B it)"
    and "cf_rest it = e # es \<Longrightarrow> cf_rest (BadgerIterator_Next B it) = es"
    and "cf_rest it = (k, v) # es \<Longrightarrow> CFItem_Key B it = Some k"
    and "cf_rest it = (k, v) # es \<Longrightarrow> CFItem_Value B it = Inr v"
proof -
  have on: "cf_on (bg_NewTransaction B (sa_db s) False) cf it" and cf: "cf \<in> set CFs" using assms by (simp_all add: sa_iter_on_def)
  show "sa_iter_on s cf (BadgerIterator_Seek B it k)" using cf_seek(1) [OF on] cf by (simp add: sa_iter_on_def)
  show "cf_rest (BadgerIterator_Seek B it k) = seek_from k (family (db_content (sa_db s)) cf)"
    using cf_seek(2) [OF on] cf by (simp add: family_def new_txn)
  show "BadgerIterator_Valid B it \<longleftrightarrow> cf_rest it \<noteq> []" by (rule cf_valid [OF on])
  show "cf_rest it = e # es \<Longrightarrow> sa_iter_on s cf (BadgerIterator_Next B it)"
    using cf_next(1) [OF on] cf by (simp add: sa_iter_on_def)
  show "cf_rest it = e # es \<Longrightarrow> cf_rest (BadgerIterator_Next B it) = es" by (rule cf_next(2) [OF on])
  show "cf_rest it = (k, v) # es \<Longrightarrow> CFItem_Key B it = Some k" by (rule cf_item(1) [OF on])
  show "cf_rest it = (k, v) # es \<Longrightarrow> CFItem_Value B it = Inr v" by (rule cf_item(2) [OF on])
qed

lemma BadgerReader_laws:
  "storage_reader (BadgerReader_methods B (StandAloneStorage_Reader B s)) (family (db_content (sa_db s))) (sa_iter_on s) cf_rest"
proof
  fix cf k assume "cf \<in> set CFs"
  then show "GetCF (BadgerReader_methods B (StandAloneStorage_Reader B s)) cf k =
      Inr (case map_of (family (db_content (sa_db s)) cf) k of None \<Rightarrow> None | Some v \<Rightarrow> v)"
    by (simp add: BadgerReader_methods_def BadgerReader_GetCF_def StandAloneStorage_Reader_def GetCFFromTxn_eq family_def new_txn
        split: option.split)
qed (simp_all add: BadgerReader_methods_def BadgerReader_IterCF_def StandAloneStorage_Reader_def family_def ascending_view db_ascending
      sa_iter_laws [unfolded family_def] cf_new sa_iter_on_def [of s _ "NewCFIterator B _ _"] lift_badger_def)

lemma standalone_storage:
  "kv_storage (StandAloneStorage_methods B) (\<lambda>_. True) (\<lambda>s. family (db_content (sa_db s))) sa_iter_on (\<lambda>_. cf_rest)"
proof (rule kv_storage.intro)
  fix s batch s' assume "known_cfs batch" "WriteBatch (StandAloneStorage_methods B) s batch = Inr s'"
  then show "family (db_content (sa_db s')) = apply_batch batch (family (db_content (sa_db s)))"
    by (auto simp: StandAloneStorage_methods_def split: prod.splits option.splits dest!: Write_prefix)
qed (auto simp: StandAloneStorage_methods_def BadgerReader_laws)

end

sublocale badger_db \<subseteq> standalone: kv_storage "StandAloneStorage_methods B" "\<lambda>_. True"
  "\<lambda>s. family (db_content (sa_db s))" sa_iter_on "\<lambda>_. cf_rest"
  by (rule standalone_storage)

end
