(* ===== verification/Region_Reader.thy ===== *)
theory Region_Reader
  imports StandAlone
begin

text \<open>
  The reader of the Raft storage, \<^verbatim>\<open>kv/storage/raft_storage/region_reader.go\<close>: a transaction restricted to one region.
  Lookups outside the region are errors, \<^verbatim>\<open>Seek\<close> outside panics, and an iterator ends at the end key of the region.
\<close>

record 't RegionReader =
  rr_txn :: 't
  rr_region :: metapb_Region

definition RegionReader_GetCF :: "('d, 't, 'i) badger \<Rightarrow> 't RegionReader \<Rightarrow> string \<Rightarrow> bytes \<Rightarrow> storage_error + gobytes" where
  "RegionReader_GetCF B r cf key =
     (case CheckKeyInRegion key (rr_region r) of
        Some err \<Rightarrow> Inl (RaftstoreError err)
      | None \<Rightarrow> (case GetCFFromTxn B (rr_txn r) cf key of
          Inl err \<Rightarrow> if err = ErrKeyNotFound then Inr None else Inl (badger_storage_error err)
        | Inr val \<Rightarrow> Inr val))"

record 'i RegionIterator =
  ri_iter :: "'i BadgerIterator"
  ri_region :: metapb_Region

definition RegionReader_IterCF :: "('d, 't, 'i) badger \<Rightarrow> 't RegionReader \<Rightarrow> string \<Rightarrow> 'i RegionIterator" where
  "RegionReader_IterCF B r cf = \<lparr>ri_iter = NewCFIterator B cf (rr_txn r), ri_region = rr_region r\<rparr>"

text \<open>A panic is \<^const>\<open>None\<close>: the key of the current item is cut, and \<^verbatim>\<open>Seek\<close> panics on a key outside the region.\<close>

definition RegionIterator_Valid :: "('d, 't, 'i) badger \<Rightarrow> 'i RegionIterator \<Rightarrow> bool option" where
  "RegionIterator_Valid B it =
     (if \<not> BadgerIterator_Valid B (ri_iter it) then Some False
      else CFItem_Key B (ri_iter it) \<bind> (\<lambda>key. Some (\<not> ExceedEndKey key (rg_EndKey (ri_region it)))))"

definition RegionIterator_ValidForPrefix :: "('d, 't, 'i) badger \<Rightarrow> 'i RegionIterator \<Rightarrow> bytes \<Rightarrow> bool option" where
  "RegionIterator_ValidForPrefix B it prfx =
     (if \<not> BadgerIterator_ValidForPrefix B (ri_iter it) prfx then Some False
      else CFItem_Key B (ri_iter it) \<bind> (\<lambda>key. Some (\<not> ExceedEndKey key (rg_EndKey (ri_region it)))))"

definition RegionIterator_Next :: "('d, 't, 'i) badger \<Rightarrow> 'i RegionIterator \<Rightarrow> 'i RegionIterator" where
  "RegionIterator_Next B it = it\<lparr>ri_iter := BadgerIterator_Next B (ri_iter it)\<rparr>"

definition RegionIterator_Seek :: "('d, 't, 'i) badger \<Rightarrow> 'i RegionIterator \<Rightarrow> bytes \<Rightarrow> 'i RegionIterator option" where
  "RegionIterator_Seek B it key =
     (case CheckKeyInRegion key (ri_region it) of
        Some err \<Rightarrow> None
      | None \<Rightarrow> Some (it\<lparr>ri_iter := BadgerIterator_Seek B (ri_iter it) key\<rparr>))"

definition RegionIterator_Rewind :: "('d, 't, 'i) badger \<Rightarrow> 'i RegionIterator \<Rightarrow> 'i RegionIterator" where
  "RegionIterator_Rewind B it = it\<lparr>ri_iter := BadgerIterator_Rewind B (ri_iter it)\<rparr>"

text \<open>What a client collects that steps the iterator until it is no longer valid.\<close>

partial_function (option) region_walk ::
  "('d, 't, 'i) badger \<Rightarrow> 'i RegionIterator \<Rightarrow> (bytes \<times> (badger_error + gobytes)) list option" where
  "region_walk B it =
     RegionIterator_Valid B it \<bind> (\<lambda>valid.
       if valid
       then CFItem_Key B (ri_iter it) \<bind> (\<lambda>key.
         region_walk B (RegionIterator_Next B it) \<bind> (\<lambda>kvs. Some ((key, CFItem_Value B (ri_iter it)) # kvs)))
       else Some [])"

context badger_db
begin

lemma region_walk_eq:
  "cf_on t cf (ri_iter it) \<Longrightarrow> cf_rest (ri_iter it) = es \<Longrightarrow>
     region_walk B it = Some (map (\<lambda>e. (fst e, Inr (snd e))) (takeWhile (\<lambda>e. \<not> ExceedEndKey (fst e) (rg_EndKey (ri_region it))) es))"
proof (induction es arbitrary: it)
  case Nil
  then show ?case by (subst region_walk.simps) (simp add: RegionIterator_Valid_def cf_valid)
next
  case (Cons e es)
  obtain k v where e: "e = (k, v)" by (cases e)
  note item = cf_item [OF Cons.prems(1), of k v es] and nxt = cf_next [OF Cons.prems]
  from Cons.IH [of "RegionIterator_Next B it"] nxt item Cons.prems e show ?case
    by (subst region_walk.simps) (simp add: RegionIterator_Valid_def RegionIterator_Next_def cf_valid)
qed

lemma region_seek_walk:
  assumes "in_region r k"
  shows "\<exists>it. RegionIterator_Seek B (RegionReader_IterCF B \<lparr>rr_txn = t, rr_region = r\<rparr> cf) k = Some it \<and>
    region_walk B it = Some (map (\<lambda>e. (fst e, Inr (snd e)))
      (filter (\<lambda>e. k \<le> fst e \<and> in_region r (fst e)) (view (cf_prefix cf) (txn_content t))))"
proof -
  let ?it = "RegionReader_IterCF B \<lparr>rr_txn = t, rr_region = r\<rparr> cf"
  let ?it' = "?it\<lparr>ri_iter := BadgerIterator_Seek B (ri_iter ?it) k\<rparr>"
  have on: "cf_on t cf (ri_iter ?it)" by (simp add: RegionReader_IterCF_def cf_new)
  have "RegionIterator_Seek B ?it k = Some ?it'"
    using assms CheckKeyInRegion_None [of k r] by (simp add: RegionIterator_Seek_def RegionReader_IterCF_def)
  moreover have "region_walk B ?it' = Some (map (\<lambda>e. (fst e, Inr (snd e)))
      (takeWhile (\<lambda>e. \<not> ExceedEndKey (fst e) (rg_EndKey r)) (seek_from k (view (cf_prefix cf) (txn_content t)))))"
    using region_walk_eq [of t cf ?it', OF _ refl] cf_seek [OF on, of k] by (simp add: RegionReader_IterCF_def)
  moreover have "filter (in_range k (rg_EndKey r)) c = filter (\<lambda>e. k \<le> fst e \<and> in_region r (fst e)) c" for c :: cf_content
    using assms by (intro filter_cong) (auto simp: in_range_def in_region_def)
  ultimately show ?thesis by (simp add: range_takeWhile ascending_view txn_ascending)
qed

lemma RegionReader_GetCF_eq:
  "RegionReader_GetCF B \<lparr>rr_txn = t, rr_region = r\<rparr> cf k =
     (if in_region r k then Inr (case map_of (view (cf_prefix cf) (txn_content t)) k of None \<Rightarrow> None | Some v \<Rightarrow> v)
      else Inl (RaftstoreError (ErrKeyNotInRegion k r)))"
  using CheckKeyInRegion_None [of k r] CheckKeyInRegion_Some [of r k]
  by (auto simp: RegionReader_GetCF_def GetCFFromTxn_eq split: option.split)

end

end
