(* ===== verification/Server.thy ===== *)
theory Server
  imports Commands
begin

text \<open>
  The service of TinyKV, \<^verbatim>\<open>kv/server/server.go\<close>: the handlers of the transactional calls, which run a command and turn its result
  into a reply, and the raw calls, which work on the storage directly.  The client's context is left out: no storage modelled
  here reads it.  A panic, such as a failed type assertion, is \<^const>\<open>None\<close>.
\<close>

record 's Server =
  sv_storage :: 's
  sv_Latches :: Latches

definition NewServer :: "'s \<Rightarrow> 's Server" where
  "NewServer storage = \<lparr>sv_storage = storage, sv_Latches = NewLatches\<rparr>"

definition Server_Run :: "('s, 'it) Storage \<Rightarrow> Command \<Rightarrow> 's Server \<Rightarrow> ((go_error + Response) \<times> 's Server) option" where
  "Server_Run st cmd sv =
     (case RunCommand cmd st (sv_storage sv) (sv_Latches sv) of
        None \<Rightarrow> None
      | Some (r, s, l) \<Rightarrow> Some (r, \<lparr>sv_storage = s, sv_Latches = l\<rparr>))"

subsection \<open>Replies of the transactional calls\<close>

text \<open>A response message: its field \<^verbatim>\<open>RegionError\<close>, and the rest of it.\<close>

record 'r Reply =
  rp_RegionError :: "errorpb_Error option"
  rp_body :: 'r

definition regionError :: "go_error \<Rightarrow> 'r \<Rightarrow> go_error + 'r Reply" where
  "regionError err resp =
     (case err of
        ErrStorage (RegionError e) \<Rightarrow> Inr \<lparr>rp_RegionError = Some e, rp_body = resp\<rparr>
      | _ \<Rightarrow> Inl err)"

text \<open>
  The common end of the handlers: \<open>assertion\<close> is the type assertion on the response, which panics on a value of
  another type and on \<^verbatim>\<open>nil\<close>; \<open>zero\<close> is the new, empty response.
\<close>

definition kv_reply :: "(Response \<Rightarrow> 'r option) \<Rightarrow> 'r \<Rightarrow> go_error + Response \<Rightarrow> (go_error + 'r Reply) option" where
  "kv_reply assertion zero result =
     (case result of
        Inl (Panic _) \<Rightarrow> None
      | Inl err \<Rightarrow> Some (regionError err zero)
      | Inr resp \<Rightarrow> (case assertion resp of
          None \<Rightarrow> None
        | Some r \<Rightarrow> Some (Inr \<lparr>rp_RegionError = None, rp_body = r\<rparr>)))"

definition kv_handler ::
  "('s, 'it) Storage \<Rightarrow> Command \<Rightarrow> (Response \<Rightarrow> 'r option) \<Rightarrow> 'r \<Rightarrow> 's Server \<Rightarrow> ((go_error + 'r Reply) \<times> 's Server) option" where
  "kv_handler st cmd assertion zero sv =
     Server_Run st cmd sv \<bind> (\<lambda>(result, sv'). kv_reply assertion zero result \<bind> (\<lambda>reply. Some (reply, sv')))"

definition KvGet ::
  "('s, 'it) Storage \<Rightarrow> GetRequest \<Rightarrow> 's Server \<Rightarrow> ((go_error + GetResponse Reply) \<times> 's Server) option" where
  "KvGet st req = kv_handler st (Get req)
     (\<lambda>resp. case resp of RespGet r \<Rightarrow> Some r | _ \<Rightarrow> None) \<lparr>gr_Error = None, gr_Value = None, gr_NotFound = False\<rparr>"

definition KvScan ::
  "('s, 'it) Storage \<Rightarrow> ScanRequest \<Rightarrow> 's Server \<Rightarrow> ((go_error + (KvPair list) Reply) \<times> 's Server) option" where
  "KvScan st req = kv_handler st (Scan req) (\<lambda>resp. case resp of RespScan r \<Rightarrow> Some r | _ \<Rightarrow> None) []"

definition KvPrewrite ::
  "('s, 'it) Storage \<Rightarrow> PrewriteRequest \<Rightarrow> 's Server \<Rightarrow> ((go_error + (KeyError list) Reply) \<times> 's Server) option" where
  "KvPrewrite st req = kv_handler st (Prewrite req) (\<lambda>resp. case resp of RespPrewrite r \<Rightarrow> Some r | _ \<Rightarrow> None) []"

definition KvCommit ::
  "('s, 'it) Storage \<Rightarrow> CommitRequest \<Rightarrow> 's Server \<Rightarrow> ((go_error + (KeyError option) Reply) \<times> 's Server) option" where
  "KvCommit st req = kv_handler st (Commit req) (\<lambda>resp. case resp of RespCommit r \<Rightarrow> Some r | _ \<Rightarrow> None) None"

definition KvCheckTxnStatus ::
  "('s, 'it) Storage \<Rightarrow> CheckTxnStatusRequest \<Rightarrow> 's Server \<Rightarrow> ((go_error + CheckTxnStatusResponse Reply) \<times> 's Server) option" where
  "KvCheckTxnStatus st req = kv_handler st (CheckTxnStatus req)
     (\<lambda>resp. case resp of RespCheckTxnStatus r \<Rightarrow> Some r | _ \<Rightarrow> None)
     \<lparr>cr_LockTtl = 0, cr_CommitVersion = 0, cr_Action = NoAction\<rparr>"

definition KvBatchRollback ::
  "('s, 'it) Storage \<Rightarrow> BatchRollbackRequest \<Rightarrow> 's Server \<Rightarrow> ((go_error + (KeyError option) Reply) \<times> 's Server) option" where
  "KvBatchRollback st req = kv_handler st (Rollback req) (\<lambda>resp. case resp of RespRollback r \<Rightarrow> Some r | _ \<Rightarrow> None) None"

definition KvResolveLock ::
  "('s, 'it) Storage \<Rightarrow> ResolveLockRequest \<Rightarrow> 's Server \<Rightarrow> ((go_error + (KeyError option) Reply) \<times> 's Server) option" where
  "KvResolveLock st req = kv_handler st (ResolveLock req []) (\<lambda>resp. case resp of RespResolveLock r \<Rightarrow> Some r | _ \<Rightarrow> None) None"

subsection \<open>The raw calls\<close>

text \<open>
  The raw calls answer every error inside the response.  The text of an error, the result of its \<^verbatim>\<open>Error\<close> method, is the
  parameter \<open>err_text\<close>.
\<close>

record raw_errors =
  rw_RegionError :: "errorpb_Error option"
  rw_Error :: string

record RawGetResponse = raw_errors +
  rgr_Value :: gobytes
  rgr_NotFound :: bool

record RawScanResponse = raw_errors +
  rsr_Kvs :: "KvPair list"

definition rawRegionError :: "(storage_error \<Rightarrow> string) \<Rightarrow> storage_error option \<Rightarrow> 'x raw_errors_scheme \<Rightarrow> bool \<times> 'x raw_errors_scheme" where
  "rawRegionError err_text err resp =
     (case err of
        None \<Rightarrow> (False, resp)
      | Some (RegionError e) \<Rightarrow> (True, resp\<lparr>rw_RegionError := Some e\<rparr>)
      | Some e \<Rightarrow> (True, resp\<lparr>rw_Error := err_text e\<rparr>))"

definition RawGet :: "(storage_error \<Rightarrow> string) \<Rightarrow> ('s, 'it) Storage \<Rightarrow> string \<Rightarrow> bytes \<Rightarrow> 's \<Rightarrow> RawGetResponse" where
  "RawGet err_text st cf key s =
     (let response = \<lparr>rw_RegionError = None, rw_Error = '''', rgr_Value = None, rgr_NotFound = False\<rparr>
      in case Reader st s of
           Inl err \<Rightarrow> snd (rawRegionError err_text (Some err) response)
         | Inr reader \<Rightarrow> (case GetCF reader cf key of
             Inl err \<Rightarrow> snd (rawRegionError err_text (Some err) response)
           | Inr val \<Rightarrow> if val = None then response\<lparr>rgr_NotFound := True\<rparr> else response\<lparr>rgr_Value := val\<rparr>))"

definition raw_write :: "(storage_error \<Rightarrow> string) \<Rightarrow> ('s, 'it) Storage \<Rightarrow> Modify \<Rightarrow> 's \<Rightarrow> raw_errors \<times> 's" where
  "raw_write err_text st modify s =
     (let response = \<lparr>rw_RegionError = None, rw_Error = ''''\<rparr>
      in case WriteBatch st s [modify] of
           Inl err \<Rightarrow> (snd (rawRegionError err_text (Some err) response), s)
         | Inr s' \<Rightarrow> (response, s'))"

definition RawPut :: "(storage_error \<Rightarrow> string) \<Rightarrow> ('s, 'it) Storage \<Rightarrow> string \<Rightarrow> bytes \<Rightarrow> gobytes \<Rightarrow> 's \<Rightarrow> raw_errors \<times> 's" where
  "RawPut err_text st cf key val s = raw_write err_text st (Put key val cf) s"

definition RawDelete :: "(storage_error \<Rightarrow> string) \<Rightarrow> ('s, 'it) Storage \<Rightarrow> string \<Rightarrow> bytes \<Rightarrow> 's \<Rightarrow> raw_errors \<times> 's" where
  "RawDelete err_text st cf key s = raw_write err_text st (Delete key cf) s"

function RawScan_loop ::
  "(storage_error \<Rightarrow> string) \<Rightarrow> 'it StorageReader \<Rightarrow> nat \<Rightarrow> 'it \<Rightarrow> RawScanResponse \<Rightarrow> RawScanResponse" where
  "RawScan_loop err_text reader limit it response =
     (if Valid reader it \<and> length (rsr_Kvs response) < limit
      then case ItemValue reader it of
             Inl err \<Rightarrow> snd (rawRegionError err_text (Some err) response)
           | Inr val \<Rightarrow> RawScan_loop err_text reader limit (Next reader it)
               (response\<lparr>rsr_Kvs := rsr_Kvs response @ [\<lparr>kp_Error = None, kp_Key = Some (ItemKey reader it), kp_Value = val\<rparr>]\<rparr>)
      else response)"
  by pat_completeness auto
termination
  by (relation "measure (\<lambda>(_, _, limit, _, response). limit - length (rsr_Kvs response))") auto

declare RawScan_loop.simps [simp del]

definition RawScan :: "(storage_error \<Rightarrow> string) \<Rightarrow> ('s, 'it) Storage \<Rightarrow> string \<Rightarrow> bytes \<Rightarrow> 32 word \<Rightarrow> 's \<Rightarrow> RawScanResponse" where
  "RawScan err_text st cf startKey limit s =
     (let response = \<lparr>rw_RegionError = None, rw_Error = '''', rsr_Kvs = []\<rparr>
      in case Reader st s of
           Inl err \<Rightarrow> snd (rawRegionError err_text (Some err) response)
         | Inr reader \<Rightarrow> RawScan_loop err_text reader (unat limit) (Seek reader (IterCF reader cf) startKey) response)"

subsection \<open>What the raw calls do on a storage that keeps its contract\<close>

definition raw_pair :: "bytes \<times> gobytes \<Rightarrow> KvPair" where
  "raw_pair e = \<lparr>kp_Error = None, kp_Key = Some (fst e), kp_Value = snd e\<rparr>"

context storage_reader
begin

lemma RawScan_loop_eq:
  "iter_on cf it \<Longrightarrow> rest it = es \<Longrightarrow> length (rsr_Kvs response) \<le> limit \<Longrightarrow>
     RawScan_loop err_text rd limit it response =
       response\<lparr>rsr_Kvs := rsr_Kvs response @ map raw_pair (take (limit - length (rsr_Kvs response)) es)\<rparr>"
proof (induction es arbitrary: it response)
  case Nil
  then show ?case by (subst RawScan_loop.simps) (simp add: valid_rest)
next
  case (Cons e es)
  obtain k v where e: "e = (k, v)" by (cases e)
  note item = item_rest [OF Cons.prems(1) Cons.prems(2) [unfolded e]]
  show ?case
  proof (cases "length (rsr_Kvs response) < limit")
    case True
    then have n: "limit - length (rsr_Kvs response) = Suc (limit - Suc (length (rsr_Kvs response)))" by simp
    show ?thesis
      using Cons.IH [OF iter_next [OF Cons.prems(1,2)] rest_next [OF Cons.prems(1,2)],
          of "response\<lparr>rsr_Kvs := rsr_Kvs response @ [raw_pair e]\<rparr>"] True n item Cons.prems e
      by (subst RawScan_loop.simps) (simp add: valid_rest raw_pair_def)
  next
    case False
    then show ?thesis using Cons.prems(3) by (subst RawScan_loop.simps) simp
  qed
qed

end

context kv_storage
begin

lemma RawGet_eq:
  assumes "inv s" "cf \<in> set CFs"
  shows "RawGet err_text st cf k s =
    (let v = Option.bind (map_of (abs s cf) k) (\<lambda>v. v)
     in \<lparr>rw_RegionError = None, rw_Error = '''', rgr_Value = v, rgr_NotFound = (v = None)\<rparr>)"
proof -
  obtain rd where rd: "Reader st s = Inr rd" using reader_ok [OF assms(1)] by blast
  from storage_reader.get_cf [OF reader_laws [OF assms(1) rd] assms(2), of k] rd show ?thesis
    by (cases "map_of (abs s cf) k") (auto simp: RawGet_def Let_def)
qed

lemma RawScan_eq:
  assumes "inv s" "cf \<in> set CFs"
  shows "RawScan err_text st cf k limit s =
    \<lparr>rw_RegionError = None, rw_Error = '''', rsr_Kvs = map raw_pair (take (unat limit) (filter (\<lambda>e. k \<le> fst e) (abs s cf)))\<rparr>"
proof -
  obtain rd where rd: "Reader st s = Inr rd" using reader_ok [OF assms(1)] by blast
  note laws = reader_laws [OF assms(1) rd]
  note on = storage_reader.iter_cf [OF laws assms(2)]
  show ?thesis
    unfolding RawScan_def rd Let_def sum.case
    by (subst storage_reader.RawScan_loop_eq [OF laws storage_reader.iter_seek [OF laws on] storage_reader.rest_seek [OF laws on]])
      (simp_all add: seek_from_eq_filter abs_ascending assms(1))
qed

lemma raw_write_eq:
  assumes "inv s" "WriteBatch st s [m] = Inr s'" "Modify_Cf m \<in> set CFs"
  shows "raw_write err_text st m s = (\<lparr>rw_RegionError = None, rw_Error = ''''\<rparr>, s')" "inv s'" "abs s' = apply_modify m (abs s)"
  using assms write_inv [OF assms(1,2)] write_abs [OF assms(1) _ assms(2)]
  by (simp_all add: raw_write_def apply_batch_def known_cfs_def)

end

end
