(* ===== verification/Storage_Properties.thy ===== *)
theory Storage_Properties
  imports Region_Reader Server
begin

text \<open>
  The properties of the storage layer below the transactions, the engine utilities, the stand-alone storage and
  the region reader, and of the service above it.
\<close>

subsection \<open>Vocabulary of the service\<close>

definition found :: "gobytes \<Rightarrow> RawGetResponse" where
  "found v = \<lparr>rw_RegionError = None, rw_Error = '''', rgr_Value = v, rgr_NotFound = (v = None)\<rparr>"

text \<open>The type of response a handler asserts.\<close>

fun resp_matches :: "Command \<Rightarrow> Response \<Rightarrow> bool" where
  "resp_matches (Get _) resp = (case resp of RespGet _ \<Rightarrow> True | _ \<Rightarrow> False)"
| "resp_matches (Scan _) resp = (case resp of RespScan _ \<Rightarrow> True | _ \<Rightarrow> False)"
| "resp_matches (Prewrite _) resp = (case resp of RespPrewrite _ \<Rightarrow> True | _ \<Rightarrow> False)"
| "resp_matches (Commit _) resp = (case resp of RespCommit _ \<Rightarrow> True | _ \<Rightarrow> False)"
| "resp_matches (Rollback _) resp = (case resp of RespRollback _ \<Rightarrow> True | _ \<Rightarrow> False)"
| "resp_matches (ResolveLock _ _) resp = (case resp of RespResolveLock _ \<Rightarrow> True | _ \<Rightarrow> False)"
| "resp_matches (CheckTxnStatus _) resp = (case resp of RespCheckTxnStatus _ \<Rightarrow> True | _ \<Rightarrow> False)"

fun keys_absent :: "Command \<Rightarrow> bool" where
  "keys_absent (Commit req) \<longleftrightarrow> cm_Keys req = None"
| "keys_absent (Rollback req) \<longleftrightarrow> rb_Keys req = None"
| "keys_absent _ \<longleftrightarrow> False"

fun reads_only :: "Command \<Rightarrow> bool" where
  "reads_only (Get _) \<longleftrightarrow> True"
| "reads_only (Scan _) \<longleftrightarrow> True"
| "reads_only _ \<longleftrightarrow> False"

lemma PrepareWrites_resp:
  "PrepareWrites cmd txn = Some (Inr (resp, txn')) \<Longrightarrow> \<not> reads_only cmd \<Longrightarrow> resp_matches cmd resp"
  by (cases cmd) (auto simp: Prewrite_PrepareWrites_def Commit_PrepareWrites_def Rollback_PrepareWrites_def ResolveLock_PrepareWrites_def
      CheckTxnStatus_PrepareWrites_def Let_def split: sum.splits option.splits if_splits prod.splits)

lemma RunCommand_write_resp:
  "RunCommand_write st cmd s = Some (Inr resp, s') \<Longrightarrow> \<not> reads_only cmd \<Longrightarrow> resp_matches cmd resp"
  by (auto simp: RunCommand_write_def intro: PrepareWrites_resp split: sum.splits option.splits prod.splits)

lemma Get_Read_resp: "Get_Read req txn = Some (Inr resp) \<Longrightarrow> resp_matches (Get req) resp"
  by (auto simp: Get_Read_def Let_def split: sum.splits option.splits if_splits)

lemma Scan_Read_resp: "Scan_Read req txn = Some (Inr resp) \<Longrightarrow> resp_matches (Scan req) resp"
  by (auto simp: Scan_Read_def split: sum.splits option.splits)

lemma RunCommand_read_resp:
  assumes "RunCommand_read st cmd s = Some (Inr (resp, keys, cmd'))"
  shows "keys = None \<Longrightarrow> if keys_absent cmd then resp = RespNil else resp_matches cmd resp"
    and "keys = Some ks \<Longrightarrow> \<not> keys_absent cmd \<and> resp_matches cmd' = resp_matches cmd \<and> \<not> reads_only cmd'"
  using assms
  by (cases cmd; auto simp: RunCommand_read_def Prewrite_WillWrite_def fun_eq_iff dest: Get_Read_resp Scan_Read_resp
      split: sum.splits option.splits prod.splits)+

lemma Server_Run_resp:
  assumes "Server_Run st cmd sv = Some (Inr resp, sv')"
  shows "if keys_absent cmd then resp = RespNil else resp_matches cmd resp"
proof -
  from assms obtain s' l' where run: "RunCommand cmd st (sv_storage sv) (sv_Latches sv) = Some (Inr resp, s', l')"
    by (auto simp: Server_Run_def split: option.splits)
  then obtain resp0 keys cmd' where r: "RunCommand_read st cmd (sv_storage sv) = Some (Inr (resp0, keys, cmd'))"
    by (auto simp: RunCommand_def split: option.splits sum.splits)
  show ?thesis
  proof (cases keys)
    case None
    with run r have "resp0 = resp" by (simp add: RunCommand_def)
    with RunCommand_read_resp(1) [OF r None] show ?thesis by (simp split: if_splits)
  next
    case (Some ks)
    with run r have "\<exists>s''. RunCommand_write st cmd' (sv_storage sv) = Some (Inr resp, s'')"
      by (auto simp: RunCommand_def split: option.splits)
    with RunCommand_read_resp(2) [OF r Some] RunCommand_write_resp [of st cmd'] show ?thesis by auto
  qed
qed

subsection \<open>The stand-alone storage\<close>



text \<open>
  C27.  A write of the stand-alone storage is not atomic: when it ends with an error, the modifications before the failing one
  have taken effect and no others; without an error the whole batch has.
\<close>

theorem standalone_write_prefix:
  assumes "badger_db B db_content txn_content it_on it_rest" "known_cfs batch"
    "StandAloneStorage_Write B s batch = (err, s')"
  shows "\<exists>n \<le> length batch. (err = None \<longleftrightarrow> n = length batch) \<and>
    family (db_content (sa_db s')) = apply_batch (take n batch) (family (db_content (sa_db s))) \<and>
    (err \<noteq> None \<longrightarrow> (\<exists>e. StandAloneStorage_Write1 B (batch ! n) (sa_db s') = Inl e \<and> err = Some (badger_storage_error e)))"
  using badger_db.Write_prefix [OF assms(1,3,2)] by blast

text \<open>A store whose writes fail on the empty key, to see a batch stop half way.\<close>

definition picky_badger :: "(wlog, wlog, wlog \<times> cf_content) badger" where
  "picky_badger = wlog_badger\<lparr>bg_Set := (\<lambda>t k v. if k = KeyWithCF CfLock [] then Inl (BadgerError ''Key cannot be empty'') else Inr (t @ [(k, Some v)]))\<rparr>"

lemma picky_badger_db: "badger_db picky_badger wlog_content wlog_content (\<lambda>t it. fst it = t) snd"
  using wlog.badger_db_axioms unfolding badger_db_def
  by (auto simp: picky_badger_def wlog_badger_def split: if_splits)

definition half_batch :: "Modify list" where
  "half_batch = [Put [1] (Some [2]) CfDefault, Put [] (Some [3]) CfLock, Delete [1] CfDefault]"

theorem standalone_write_prefix_witness:
  "\<exists>n \<le> length half_batch. (Some (StorageError ''Key cannot be empty'') = None \<longleftrightarrow> n = length half_batch) \<and>
    family (wlog_content [(KeyWithCF CfDefault [1], Some (Some [2]))]) =
      apply_batch (take n half_batch) (family (wlog_content [])) \<and>
    (Some (StorageError ''Key cannot be empty'') \<noteq> None \<longrightarrow>
      (\<exists>e. StandAloneStorage_Write1 picky_badger (half_batch ! n) [(KeyWithCF CfDefault [1], Some (Some [2]))] = Inl e \<and>
        Some (StorageError ''Key cannot be empty'') = Some (badger_storage_error e)))"
  using standalone_write_prefix [OF picky_badger_db, of half_batch "\<lparr>sa_db = []\<rparr>" "Some (StorageError ''Key cannot be empty'')"
      "\<lparr>sa_db = [(KeyWithCF CfDefault [1], Some (Some [2]))]\<rparr>"]
  by (simp add: half_batch_def known_cfs_def CFs_def StandAloneStorage_Write1_def PutCF_def picky_badger_def wlog_badger_def
      KeyWithCF_def bytes_of_string_def CfDefault_def CfLock_def)

text \<open>
  C28.  \<^verbatim>\<open>DeleteRange\<close> returns, and if the write succeeds it has removed exactly the keys of the three column families from the start key on
  and before the end key, where an empty end key is no bound; everything else in the store is as before.
\<close>

theorem delete_range_exact:
  assumes "badger_db B db_content txn_content it_on it_rest"
  shows "\<exists>r. DeleteRange B d startKey endKey = Some r \<and>
    (\<forall>d'. r = Inr d' \<longrightarrow> db_content d' = filter (\<lambda>e. \<not> (\<exists>cf\<in>set CFs. \<exists>k. fst e = KeyWithCF cf k \<and> startKey \<le> k \<and> (endKey = [] \<or> k < endKey)))
       (db_content d))"
proof -
  have "has_prefix (cf_prefix cf) e \<and> in_range startKey endKey (strip (cf_prefix cf) e) \<longleftrightarrow>
      (\<exists>k. fst e = KeyWithCF cf k \<and> startKey \<le> k \<and> (endKey = [] \<or> k < endKey))" for cf and e :: "bytes \<times> gobytes"
  proof (cases "has_prefix (cf_prefix cf) e")
    case True
    then show ?thesis by (elim has_prefixE) (auto simp: KeyWithCF_prefix in_range_def)
  next
    case False
    then show ?thesis by (auto simp: KeyWithCF_prefix has_prefix_def)
  qed
  then show ?thesis using badger_db.DeleteRange_content [OF assms, of d startKey endKey] by simp
qed

definition range_db :: wlog where
  "range_db = [(KeyWithCF CfDefault [1], Some (Some [7])), (KeyWithCF CfWrite [5], Some (Some [8])), (KeyWithCF CfLock [9], Some (Some [9]))]"

theorem delete_range_exact_witness:
  "\<exists>r. DeleteRange wlog_badger range_db [2] [9] = Some r \<and>
    (\<forall>d'. r = Inr d' \<longrightarrow> wlog_content d' = filter (\<lambda>e. \<not> (\<exists>cf\<in>set CFs. \<exists>k. fst e = KeyWithCF cf k \<and> [2] \<le> k \<and> (([9] :: bytes) = [] \<or> k < [9])))
       (wlog_content range_db))"
  by (rule delete_range_exact [OF wlog.badger_db_axioms])

subsection \<open>Reading inside a region\<close>

text \<open>
  C29.  The reader of a region behaves as if the store held that region alone: a lookup inside it finds the stored value, one outside is the
  error \<^verbatim>\<open>ErrKeyNotInRegion\<close>, and an iterator positioned inside walks exactly the keys of the region from there on.  Positioning it outside
  panics.
\<close>

theorem region_reader_exact:
  assumes "badger_db B db_content txn_content it_on it_rest" "cf \<in> set CFs"
  shows "(in_region r k \<longrightarrow>
      RegionReader_GetCF B \<lparr>rr_txn = t, rr_region = r\<rparr> cf k =
        Inr (case map_of (family (txn_content t) cf) k of None \<Rightarrow> None | Some v \<Rightarrow> v) \<and>
      (\<exists>it. RegionIterator_Seek B (RegionReader_IterCF B \<lparr>rr_txn = t, rr_region = r\<rparr> cf) k = Some it \<and>
        region_walk B it = Some (map (\<lambda>e. (fst e, Inr (snd e)))
          (filter (\<lambda>e. k \<le> fst e \<and> in_region r (fst e)) (family (txn_content t) cf))))) \<and>
    (\<not> in_region r k \<longrightarrow>
      RegionReader_GetCF B \<lparr>rr_txn = t, rr_region = r\<rparr> cf k = Inl (RaftstoreError (ErrKeyNotInRegion k r)) \<and>
      RegionIterator_Seek B (RegionReader_IterCF B \<lparr>rr_txn = t, rr_region = r\<rparr> cf) k = None)"
  using assms(2) badger_db.RegionReader_GetCF_eq [OF assms(1), of t r cf k] badger_db.region_seek_walk [OF assms(1), of r k t cf]
    CheckKeyInRegion_Some [of r k]
  by (cases "in_region r k") (simp_all add: family_def RegionIterator_Seek_def RegionReader_IterCF_def)

definition demo_region :: metapb_Region where
  "demo_region = \<lparr>rg_Id = 1, rg_StartKey = [2], rg_EndKey = [9], rg_RegionEpoch = None, rg_Peers = []\<rparr>"

theorem region_reader_exact_witness:
  "RegionReader_GetCF wlog_badger \<lparr>rr_txn = range_db, rr_region = demo_region\<rparr> CfWrite [5] = Inr (Some [8]) \<and>
   RegionReader_GetCF wlog_badger \<lparr>rr_txn = range_db, rr_region = demo_region\<rparr> CfLock [9] =
     Inl (RaftstoreError (ErrKeyNotInRegion [9] demo_region))"
proof -
  have "in_region demo_region [5]" "\<not> in_region demo_region [9]" "CfWrite \<in> set CFs" "CfLock \<in> set CFs"
    by (simp_all add: in_region_def demo_region_def CFs_def)
  moreover have "map_of (family (wlog_content range_db) CfWrite) [5] = Some (Some [8])"
    by (simp add: family_def CFs_def map_of_view wlog_content_def range_db_def KeyWithCF_def cf_prefix_def bytes_of_string_def
        CfDefault_def CfWrite_def CfLock_def)
  ultimately show ?thesis
    using region_reader_exact [OF wlog.badger_db_axioms, of CfWrite demo_region "[5]" range_db]
      region_reader_exact [OF wlog.badger_db_axioms, of CfLock demo_region "[9]" range_db] by simp
qed

subsection \<open>The service\<close>

text \<open>
  C30.  The raw calls on any storage that keeps its contract: \<^verbatim>\<open>RawGet\<close> returns the stored value or says that there is none,
  \<^verbatim>\<open>RawScan\<close> the first pairs from the start key on in key order, up to the limit; a successful \<^verbatim>\<open>RawPut\<close> or \<^verbatim>\<open>RawDelete\<close> changes that key and
  nothing else, and the next \<^verbatim>\<open>RawGet\<close> sees it.
\<close>

theorem raw_api_exact:
  assumes st: "kv_storage st ok contents iter_on rest" and s: "ok s" and cf: "cf \<in> set CFs"
  shows "RawGet err_text st cf k s = found (Option.bind (map_of (contents s cf) k) (\<lambda>v. v)) \<and>
    RawScan err_text st cf k limit s =
      \<lparr>rw_RegionError = None, rw_Error = '''', rsr_Kvs = map raw_pair (take (unat limit) (filter (\<lambda>e. k \<le> fst e) (contents s cf)))\<rparr> \<and>
    (\<forall>s'. WriteBatch st s [Put k v cf] = Inr s' \<longrightarrow>
      RawPut err_text st cf k v s = (\<lparr>rw_RegionError = None, rw_Error = ''''\<rparr>, s') \<and> ok s' \<and>
      contents s' = (contents s)(cf := put_kv k v (contents s cf)) \<and> RawGet err_text st cf k s' = found v) \<and>
    (\<forall>s'. WriteBatch st s [Delete k cf] = Inr s' \<longrightarrow>
      RawDelete err_text st cf k s = (\<lparr>rw_RegionError = None, rw_Error = ''''\<rparr>, s') \<and> ok s' \<and>
      contents s' = (contents s)(cf := del_kv k (contents s cf)) \<and> RawGet err_text st cf k s' = found None)"
proof (intro conjI allI impI)
  show "RawGet err_text st cf k s = found (Option.bind (map_of (contents s cf) k) (\<lambda>v. v))"
    by (simp add: kv_storage.RawGet_eq [OF st s cf] found_def Let_def)
  show "RawScan err_text st cf k limit s =
      \<lparr>rw_RegionError = None, rw_Error = '''', rsr_Kvs = map raw_pair (take (unat limit) (filter (\<lambda>e. k \<le> fst e) (contents s cf)))\<rparr>"
    by (rule kv_storage.RawScan_eq [OF st s cf])
next
  fix s' assume w: "WriteBatch st s [Put k v cf] = Inr s'"
  note eqs = kv_storage.raw_write_eq [OF st s w]
  show "RawPut err_text st cf k v s = (\<lparr>rw_RegionError = None, rw_Error = ''''\<rparr>, s')" using eqs cf by (simp add: RawPut_def)
  show ok: "ok s'" and abs: "contents s' = (contents s)(cf := put_kv k v (contents s cf))" using eqs cf by simp_all
  show "RawGet err_text st cf k s' = found v"
    using kv_storage.RawGet_eq [OF st ok cf] map_of_put_kv [OF kv_storage.abs_ascending [OF st s]] by (simp add: abs found_def Let_def)
next
  fix s' assume w: "WriteBatch st s [Delete k cf] = Inr s'"
  note eqs = kv_storage.raw_write_eq [OF st s w]
  show "RawDelete err_text st cf k s = (\<lparr>rw_RegionError = None, rw_Error = ''''\<rparr>, s')" using eqs cf by (simp add: RawDelete_def)
  show ok: "ok s'" and abs: "contents s' = (contents s)(cf := del_kv k (contents s cf))" using eqs cf by simp_all
  show "RawGet err_text st cf k s' = found None"
    using kv_storage.RawGet_eq [OF st ok cf] by (simp add: abs found_def Let_def map_of_del_kv)
qed

theorem raw_api_exact_witness:
  "RawGet (\<lambda>_. '''') (StandAloneStorage_methods wlog_badger) CfDefault [1]
     (snd (RawPut (\<lambda>_. '''') (StandAloneStorage_methods wlog_badger) CfDefault [1] (Some [7]) \<lparr>sa_db = []\<rparr>)) = found (Some [7])"
proof -
  have "WriteBatch (StandAloneStorage_methods wlog_badger) \<lparr>sa_db = []\<rparr> [Put [1] (Some [7]) CfDefault] =
      Inr \<lparr>sa_db = [(KeyWithCF CfDefault [1], Some (Some [7]))]\<rparr>"
    by (simp add: StandAloneStorage_methods_def StandAloneStorage_Write1_def PutCF_def wlog_badger_def)
  with raw_api_exact [OF wlog.standalone_storage, where s = "\<lparr>sa_db = []\<rparr>" and cf = CfDefault and k = "[1]" and v = "Some [7]"]
  show ?thesis by (simp add: CFs_def)
qed

text \<open>
  C31.  The type assertions of the handlers: whenever a command returns a response, it is of the type its handler asserts, except for a
  commit or rollback whose list of keys is absent, which returns \<^verbatim>\<open>nil\<close>; on those two requests the handlers panic on every
  storage that hands out a reader.
\<close>

theorem handler_type_assertions:
  assumes "Reader st (sv_storage sv) = Inr rd"
  shows "(\<forall>resp sv'. Server_Run st cmd sv = Some (Inr resp, sv') \<longrightarrow> (if keys_absent cmd then resp = RespNil else resp_matches cmd resp)) \<and>
    (cm_Keys creq = None \<longrightarrow> KvCommit st creq sv = None) \<and> (rb_Keys rreq = None \<longrightarrow> KvBatchRollback st rreq sv = None)"
proof (intro conjI allI impI)
  show "if keys_absent cmd then resp = RespNil else resp_matches cmd resp" if "Server_Run st cmd sv = Some (Inr resp, sv')" for resp sv'
    by (rule Server_Run_resp [OF that])
qed (use assms in \<open>simp_all add: KvCommit_def KvBatchRollback_def kv_handler_def Server_Run_def RunCommand_def RunCommand_read_def kv_reply_def\<close>)

theorem handler_type_assertions_witness:
  "KvCommit slist_storage \<lparr>cm_StartVersion = 1, cm_Keys = None, cm_CommitVersion = 2\<rparr> (NewServer (NewMemStorage slist_ops)) = None"
proof -
  have "Reader slist_storage (sv_storage (NewServer (NewMemStorage slist_ops))) =
      Inr (memReader_methods slist_ops (MemStorage_Reader (NewMemStorage slist_ops)))"
    by (simp add: MemStorage_methods_def NewServer_def)
  from handler_type_assertions [OF this, of undefined "\<lparr>cm_StartVersion = 1, cm_Keys = None, cm_CommitVersion = 2\<rparr>"] show ?thesis by simp
qed

end
