(* ===== verification/Raft_Storage.thy ===== *)
theory Raft_Storage
  imports Go_Slices
begin

text \<open>
  The messages of \<^verbatim>\<open>proto/proto/eraftpb.proto\<close> and the stable storage of the Raft library,
  \<^verbatim>\<open>raft/storage.go\<close>: the interface \<^verbatim>\<open>Storage\<close> as a record of its methods and \<^verbatim>\<open>MemoryStorage\<close>, the
  in-memory implementation.  A panic or \<^verbatim>\<open>log.Fatal\<close> is \<^const>\<open>None\<close>; an error value is \<^const>\<open>Inl\<close>.
  The optional sub-messages are pointers in Go, so reading through an absent one panics.
\<close>

subsection \<open>Messages\<close>

datatype EntryType = EntryNormal | EntryConfChange

record Entry =
  ent_EntryType :: EntryType
  ent_Term :: u64
  ent_Index :: u64
  ent_Data :: bytes

definition pb_Entry :: Entry where
  "pb_Entry = \<lparr>ent_EntryType = EntryNormal, ent_Term = 0, ent_Index = 0, ent_Data = []\<rparr>"

record ConfState =
  cs_Nodes :: "u64 list"

record SnapshotMetadata =
  md_ConfState :: "ConfState option"
  md_Index :: u64
  md_Term :: u64

record Snapshot =
  snap_Data :: bytes
  snap_Metadata :: "SnapshotMetadata option"

definition pb_Snapshot :: Snapshot where
  "pb_Snapshot = \<lparr>snap_Data = [], snap_Metadata = None\<rparr>"

datatype MessageType =
    MsgHup | MsgBeat | MsgPropose | MsgAppend | MsgAppendResponse | MsgRequestVote
  | MsgRequestVoteResponse | MsgSnapshot | MsgHeartbeat | MsgHeartbeatResponse | MsgTransferLeader
  | MsgTimeoutNow

record Message =
  msg_MsgType :: MessageType
  msg_To :: u64
  msg_From :: u64
  msg_Term :: u64
  msg_LogTerm :: u64
  msg_Index :: u64
  msg_Entries :: "Entry list"
  msg_Commit :: u64
  msg_Snapshot :: "Snapshot option"
  msg_Reject :: bool
  msg_RejectHint :: u64

definition pb_Message :: Message where
  "pb_Message = \<lparr>msg_MsgType = MsgHup, msg_To = 0, msg_From = 0, msg_Term = 0, msg_LogTerm = 0,
     msg_Index = 0, msg_Entries = [], msg_Commit = 0, msg_Snapshot = None, msg_Reject = False,
     msg_RejectHint = 0\<rparr>"

record HardState =
  hs_Term :: u64
  hs_Vote :: u64
  hs_Commit :: u64

definition pb_HardState :: HardState where
  "pb_HardState = \<lparr>hs_Term = 0, hs_Vote = 0, hs_Commit = 0\<rparr>"

text \<open>A protobuf enumeration is open: a value the code does not know reaches its default branch.\<close>

datatype ConfChangeType = AddNode | RemoveNode | ConfChangeType_Other int

record ConfChange =
  cc_ChangeType :: ConfChangeType
  cc_NodeId :: u64
  cc_Context :: bytes

subsection \<open>The interface\<close>

datatype raft_error =
    ErrCompacted
  | ErrSnapOutOfDate
  | ErrUnavailable
  | ErrSnapshotTemporarilyUnavailable
  | ErrProposalDropped
  | ErrStepLocalMsg
  | ErrStepPeerNotFound
  | ErrOther string

record 's RaftStorage =
  st_InitialState :: "'s \<Rightarrow> (raft_error + HardState \<times> ConfState) option"
  st_Entries :: "'s \<Rightarrow> u64 \<Rightarrow> u64 \<Rightarrow> (raft_error + Entry list) option"
  st_Term :: "'s \<Rightarrow> u64 \<Rightarrow> (raft_error + u64) option"
  st_LastIndex :: "'s \<Rightarrow> (raft_error + u64) option"
  st_FirstIndex :: "'s \<Rightarrow> (raft_error + u64) option"
  st_Snapshot :: "'s \<Rightarrow> ((raft_error + Snapshot) \<times> 's) option"

subsection \<open>MemoryStorage\<close>

record MemoryStorage =
  ms_hardState :: HardState
  ms_snapshot :: Snapshot
  ms_ents :: "Entry list"

definition NewMemoryStorage :: MemoryStorage where
  "NewMemoryStorage = \<lparr>ms_hardState = pb_HardState,
     ms_snapshot = pb_Snapshot\<lparr>snap_Metadata :=
       Some \<lparr>md_ConfState = Some \<lparr>cs_Nodes = []\<rparr>, md_Index = 0, md_Term = 0\<rparr>\<rparr>,
     ms_ents = [pb_Entry]\<rparr>"

definition MemoryStorage_InitialState :: "MemoryStorage \<Rightarrow> (raft_error + HardState \<times> ConfState) option" where
  "MemoryStorage_InitialState ms = do {
     md \<leftarrow> snap_Metadata (ms_snapshot ms);
     cs \<leftarrow> md_ConfState md;
     Some (Inr (ms_hardState ms, cs))
   }"

definition MemoryStorage_SetHardState :: "HardState \<Rightarrow> MemoryStorage \<Rightarrow> MemoryStorage" where
  "MemoryStorage_SetHardState hs ms = ms\<lparr>ms_hardState := hs\<rparr>"

definition MemoryStorage_lastIndex :: "MemoryStorage \<Rightarrow> u64 option" where
  "MemoryStorage_lastIndex ms = do {
     e \<leftarrow> index_at (ms_ents ms) 0;
     Some (ent_Index e + ulen (ms_ents ms) - 1)
   }"

definition MemoryStorage_firstIndex :: "MemoryStorage \<Rightarrow> u64 option" where
  "MemoryStorage_firstIndex ms = do {
     e \<leftarrow> index_at (ms_ents ms) 0;
     Some (ent_Index e + 1)
   }"

definition MemoryStorage_Entries :: "MemoryStorage \<Rightarrow> u64 \<Rightarrow> u64 \<Rightarrow> (raft_error + Entry list) option" where
  "MemoryStorage_Entries ms lo hi = do {
     e \<leftarrow> index_at (ms_ents ms) 0;
     let offset = ent_Index e;
     if lo \<le> offset then Some (Inl ErrCompacted)
     else do {
       last \<leftarrow> MemoryStorage_lastIndex ms;
       if last + 1 < hi then None
       else do {
         ents \<leftarrow> slice_range (ms_ents ms) (lo - offset) (hi - offset);
         if length (ms_ents ms) = 1 \<and> ents \<noteq> [] then Some (Inl ErrUnavailable)
         else Some (Inr ents)
       }
     }
   }"

definition MemoryStorage_Term :: "MemoryStorage \<Rightarrow> u64 \<Rightarrow> (raft_error + u64) option" where
  "MemoryStorage_Term ms i = do {
     e \<leftarrow> index_at (ms_ents ms) 0;
     let offset = ent_Index e;
     if i < offset then Some (Inl ErrCompacted)
     else if int (length (ms_ents ms)) \<le> sint (i - offset) then Some (Inl ErrUnavailable)
     else do {
       x \<leftarrow> index_at (ms_ents ms) (i - offset);
       Some (Inr (ent_Term x))
     }
   }"

definition MemoryStorage_LastIndex :: "MemoryStorage \<Rightarrow> (raft_error + u64) option" where
  "MemoryStorage_LastIndex ms = map_option Inr (MemoryStorage_lastIndex ms)"

definition MemoryStorage_FirstIndex :: "MemoryStorage \<Rightarrow> (raft_error + u64) option" where
  "MemoryStorage_FirstIndex ms = map_option Inr (MemoryStorage_firstIndex ms)"

definition MemoryStorage_Snapshot :: "MemoryStorage \<Rightarrow> ((raft_error + Snapshot) \<times> MemoryStorage) option" where
  "MemoryStorage_Snapshot ms = Some (Inr (ms_snapshot ms), ms)"

definition MemoryStorage_ApplySnapshot :: "Snapshot \<Rightarrow> MemoryStorage \<Rightarrow> (raft_error + MemoryStorage) option" where
  "MemoryStorage_ApplySnapshot snap ms = do {
     msMeta \<leftarrow> snap_Metadata (ms_snapshot ms);
     snapMeta \<leftarrow> snap_Metadata snap;
     if md_Index snapMeta \<le> md_Index msMeta then Some (Inl ErrSnapOutOfDate)
     else Some (Inr (ms\<lparr>ms_snapshot := snap,
       ms_ents := [pb_Entry\<lparr>ent_Term := md_Term snapMeta, ent_Index := md_Index snapMeta\<rparr>]\<rparr>))
   }"

definition MemoryStorage_CreateSnapshot ::
  "u64 \<Rightarrow> ConfState option \<Rightarrow> bytes \<Rightarrow> MemoryStorage \<Rightarrow> (raft_error + Snapshot \<times> MemoryStorage) option" where
  "MemoryStorage_CreateSnapshot i cs data ms = do {
     md \<leftarrow> snap_Metadata (ms_snapshot ms);
     if i \<le> md_Index md then Some (Inl ErrSnapOutOfDate)
     else do {
       e \<leftarrow> index_at (ms_ents ms) 0;
       last \<leftarrow> MemoryStorage_lastIndex ms;
       if last < i then None
       else do {
         x \<leftarrow> index_at (ms_ents ms) (i - ent_Index e);
         let snap = \<lparr>snap_Data = data, snap_Metadata = Some \<lparr>
           md_ConfState = (if cs = None then md_ConfState md else cs), md_Index = i, md_Term = ent_Term x\<rparr>\<rparr>;
         Some (Inr (snap, ms\<lparr>ms_snapshot := snap\<rparr>))
       }
     }
   }"

definition MemoryStorage_Compact :: "u64 \<Rightarrow> MemoryStorage \<Rightarrow> (raft_error + MemoryStorage) option" where
  "MemoryStorage_Compact compactIndex ms = do {
     e \<leftarrow> index_at (ms_ents ms) 0;
     let offset = ent_Index e;
     if compactIndex \<le> offset then Some (Inl ErrCompacted)
     else do {
       last \<leftarrow> MemoryStorage_lastIndex ms;
       if last < compactIndex then None
       else do {
         let i = compactIndex - offset;
         x \<leftarrow> index_at (ms_ents ms) i;
         rest \<leftarrow> slice_from (ms_ents ms) (i + 1);
         Some (Inr (ms\<lparr>ms_ents := pb_Entry\<lparr>ent_Index := ent_Index x, ent_Term := ent_Term x\<rparr> # rest\<rparr>))
       }
     }
   }"

definition MemoryStorage_Append :: "Entry list \<Rightarrow> MemoryStorage \<Rightarrow> (raft_error + MemoryStorage) option" where
  "MemoryStorage_Append ents ms =
     (case ents of
        [] \<Rightarrow> Some (Inr ms)
      | e0 # _ \<Rightarrow> do {
          first \<leftarrow> MemoryStorage_firstIndex ms;
          let last = ent_Index e0 + ulen ents - 1;
          if last < first then Some (Inr ms)
          else do {
            new \<leftarrow> (if ent_Index e0 < first then slice_from ents (first - ent_Index e0) else Some ents);
            n0 \<leftarrow> index_at new 0;
            m0 \<leftarrow> index_at (ms_ents ms) 0;
            let offset = ent_Index n0 - ent_Index m0;
            if offset < ulen (ms_ents ms) then do {
              pre \<leftarrow> slice_to (ms_ents ms) offset;
              Some (Inr (ms\<lparr>ms_ents := pre @ new\<rparr>))
            }
            else if ulen (ms_ents ms) = offset then Some (Inr (ms\<lparr>ms_ents := ms_ents ms @ new\<rparr>))
            else None
          }
        })"

definition MemoryStorage_methods :: "MemoryStorage RaftStorage" where
  "MemoryStorage_methods = \<lparr>st_InitialState = MemoryStorage_InitialState, st_Entries = MemoryStorage_Entries,
     st_Term = MemoryStorage_Term, st_LastIndex = MemoryStorage_LastIndex, st_FirstIndex = MemoryStorage_FirstIndex,
     st_Snapshot = MemoryStorage_Snapshot\<rparr>"

end
