(* ===== verification/Raft_Log.thy ===== *)
theory Raft_Log
  imports Raft_Storage
begin

text \<open>
  The replicated log of one Raft node, \<^verbatim>\<open>raft/log.go\<close>.  \<open>RaftLog\<close> keeps all entries that are not
  compacted, next to the stable storage it was read from; the storage is the state \<open>'s\<close> of an
  implementation \<open>st\<close> of the interface \<^verbatim>\<open>Storage\<close>.  The storage does not change while an operation of
  the log runs, so the retry of \<^verbatim>\<open>maybeCompact\<close> on a concurrent compaction is not taken.
\<close>

record 's RaftLog =
  rl_storage :: 's
  rl_committed :: u64
  rl_applied :: u64
  rl_stabled :: u64
  rl_entries :: "Entry list"
  rl_offset :: u64
  rl_snapTerm :: u64
  rl_snapIndex :: u64
  rl_pending_snapshot :: "Snapshot option"

text \<open>Reads a storage method that must not fail: an error is passed to \<^verbatim>\<open>panic\<close>.\<close>

fun or_panic :: "('e + 'a) option \<Rightarrow> 'a option" where
  "or_panic (Some (Inr x)) = Some x"
| "or_panic _ = None"

definition newLog :: "'s RaftStorage \<Rightarrow> 's \<Rightarrow> 's RaftLog option" where
  "newLog st s = do {
     firstIndex \<leftarrow> or_panic (st_FirstIndex st s);
     lastIndex \<leftarrow> or_panic (st_LastIndex st s);
     snapTerm \<leftarrow> or_panic (st_Term st s (firstIndex - 1));
     ents \<leftarrow> or_panic (st_Entries st s firstIndex (lastIndex + 1));
     Some \<lparr>rl_storage = s, rl_committed = firstIndex - 1, rl_applied = firstIndex - 1, rl_stabled = lastIndex,
       rl_entries = ents, rl_offset = firstIndex, rl_snapTerm = snapTerm, rl_snapIndex = firstIndex - 1,
       rl_pending_snapshot = None\<rparr>
   }"

definition RaftLog_firstIndex :: "'s RaftLog \<Rightarrow> u64 option" where
  "RaftLog_firstIndex l =
     (case rl_entries l of
        e # _ \<Rightarrow> Some (ent_Index e)
      | [] \<Rightarrow> (case rl_pending_snapshot l of
          Some snap \<Rightarrow> map_option md_Index (snap_Metadata snap)
        | None \<Rightarrow> Some (rl_snapIndex l)))"

definition RaftLog_LastIndex :: "'s RaftLog \<Rightarrow> u64 option" where
  "RaftLog_LastIndex l =
     (if rl_entries l \<noteq> [] then Some (ent_Index (last (rl_entries l)))
      else (case rl_pending_snapshot l of
          Some snap \<Rightarrow> map_option md_Index (snap_Metadata snap)
        | None \<Rightarrow> Some (rl_snapIndex l)))"

definition RaftLog_Term :: "'s RaftLog \<Rightarrow> u64 \<Rightarrow> (raft_error + u64) option" where
  "RaftLog_Term l i =
     (if i = rl_snapIndex l then Some (Inr (rl_snapTerm l))
      else if rl_entries l = [] then Some (Inl ErrCompacted)
      else if i < rl_offset l then Some (Inl ErrCompacted)
      else if rl_offset l + ulen (rl_entries l) - 1 < i then Some (Inl ErrUnavailable)
      else map_option (Inr \<circ> ent_Term) (index_at (rl_entries l) (i - rl_offset l)))"

definition RaftLog_matchTerm :: "'s RaftLog \<Rightarrow> u64 \<Rightarrow> u64 \<Rightarrow> bool option" where
  "RaftLog_matchTerm l i term = do {
     r \<leftarrow> RaftLog_Term l i;
     Some (case r of Inr t \<Rightarrow> t = term | Inl _ \<Rightarrow> False)
   }"

fun RaftLog_findConflict :: "'s RaftLog \<Rightarrow> Entry list \<Rightarrow> u64 option" where
  "RaftLog_findConflict l [] = Some 0"
| "RaftLog_findConflict l (ne # ents) = do {
     same \<leftarrow> RaftLog_matchTerm l (ent_Index ne) (ent_Term ne);
     if same then RaftLog_findConflict l ents
     else do {
       _ \<leftarrow> RaftLog_LastIndex l;
       Some (ent_Index ne)
     }
   }"

definition RaftLog_commitTo :: "u64 \<Rightarrow> 's RaftLog \<Rightarrow> 's RaftLog option" where
  "RaftLog_commitTo tocommit l =
     (if rl_committed l < tocommit then do {
        last \<leftarrow> RaftLog_LastIndex l;
        if last < tocommit then None else Some (l\<lparr>rl_committed := tocommit\<rparr>)
      } else Some l)"

definition RaftLog_truncateAndAppend :: "Entry list \<Rightarrow> 's RaftLog \<Rightarrow> 's RaftLog option" where
  "RaftLog_truncateAndAppend ents l = do {
     e0 \<leftarrow> index_at ents 0;
     let after = ent_Index e0;
     last \<leftarrow> RaftLog_LastIndex l;
     if after = last + 1 then Some (l\<lparr>rl_entries := rl_entries l @ ents\<rparr>)
     else do {
       let l' = (if after - 1 < rl_stabled l then l\<lparr>rl_stabled := after - 1\<rparr> else l);
       kept \<leftarrow> slice_to (rl_entries l') (after - rl_offset l');
       Some (l'\<lparr>rl_entries := kept @ ents\<rparr>)
     }
   }"

definition RaftLog_maybeCompact :: "'s RaftStorage \<Rightarrow> 's RaftLog \<Rightarrow> 's RaftLog option" where
  "RaftLog_maybeCompact st l = do {
     fi \<leftarrow> or_panic (st_FirstIndex st (rl_storage l));
     ft \<leftarrow> or_panic (st_Term st (rl_storage l) (fi - 1));
     let compactSize = fi - rl_offset l;
     if 0 < compactSize \<and> compactSize < ulen (rl_entries l) then do {
       rest \<leftarrow> slice_from (rl_entries l) compactSize;
       Some (l\<lparr>rl_entries := rest, rl_offset := fi, rl_snapIndex := fi - 1, rl_snapTerm := ft\<rparr>)
     } else Some l
   }"

definition RaftLog_append :: "'s RaftStorage \<Rightarrow> Entry list \<Rightarrow> 's RaftLog \<Rightarrow> (u64 \<times> 's RaftLog) option" where
  "RaftLog_append st ents l =
     (case ents of
        [] \<Rightarrow> map_option (\<lambda>i. (i, l)) (RaftLog_LastIndex l)
      | e0 # _ \<Rightarrow>
          if ent_Index e0 - 1 < rl_committed l then None
          else do {
            l1 \<leftarrow> RaftLog_truncateAndAppend ents l;
            l2 \<leftarrow> RaftLog_maybeCompact st l1;
            i \<leftarrow> RaftLog_LastIndex l2;
            Some (i, l2)
          })"

definition RaftLog_maybeAppend ::
  "'s RaftStorage \<Rightarrow> u64 \<Rightarrow> u64 \<Rightarrow> u64 \<Rightarrow> Entry list \<Rightarrow> 's RaftLog \<Rightarrow> (u64 option \<times> 's RaftLog) option" where
  "RaftLog_maybeAppend st index logTerm committed ents l = do {
     same \<leftarrow> RaftLog_matchTerm l index logTerm;
     if same then do {
       let lastnewi = index + ulen ents;
       ci \<leftarrow> RaftLog_findConflict l ents;
       l1 \<leftarrow> (if ci = 0 then Some l
             else if ci \<le> rl_committed l then None
             else do {
               new \<leftarrow> slice_from ents (ci - (index + 1));
               map_option snd (RaftLog_append st new l)
             });
       l2 \<leftarrow> RaftLog_commitTo (min committed lastnewi) l1;
       Some (Some lastnewi, l2)
     } else Some (None, l)
   }"

definition RaftLog_unstableEntries :: "'s RaftLog \<Rightarrow> Entry list option" where
  "RaftLog_unstableEntries l =
     (if int (length (rl_entries l)) < sint (rl_stabled l + 1 - rl_offset l) then Some []
      else slice_from (rl_entries l) (rl_stabled l + 1 - rl_offset l))"

definition RaftLog_mustCheckOutOfBounds :: "'s RaftLog \<Rightarrow> u64 \<Rightarrow> u64 \<Rightarrow> raft_error option option" where
  "RaftLog_mustCheckOutOfBounds l lo hi =
     (if hi < lo then None
      else do {
        fi \<leftarrow> RaftLog_firstIndex l;
        if lo < fi then Some (Some ErrCompacted)
        else do {
          last \<leftarrow> RaftLog_LastIndex l;
          if last + 1 < hi then None else Some None
        }
      })"

definition RaftLog_slice :: "'s RaftLog \<Rightarrow> u64 \<Rightarrow> u64 \<Rightarrow> (raft_error + Entry list) option" where
  "RaftLog_slice l lo hi = do {
     err \<leftarrow> RaftLog_mustCheckOutOfBounds l lo hi;
     case err of
       Some e \<Rightarrow> Some (Inl e)
     | None \<Rightarrow> if rl_entries l = [] then Some (Inr [])
              else map_option Inr (slice_range (rl_entries l) (lo - rl_offset l) (hi - rl_offset l))
   }"

definition RaftLog_nextEntsSince :: "'s RaftLog \<Rightarrow> u64 \<Rightarrow> Entry list option" where
  "RaftLog_nextEntsSince l sinceIdx = do {
     fi \<leftarrow> RaftLog_firstIndex l;
     let off = max (sinceIdx + 1) fi;
     if off < rl_committed l + 1 then or_panic (RaftLog_slice l off (rl_committed l + 1))
     else Some []
   }"

definition RaftLog_nextEnts :: "'s RaftLog \<Rightarrow> Entry list option" where
  "RaftLog_nextEnts l = RaftLog_nextEntsSince l (rl_applied l)"

definition RaftLog_hasNextEntsSince :: "'s RaftLog \<Rightarrow> u64 \<Rightarrow> bool option" where
  "RaftLog_hasNextEntsSince l sinceIdx = do {
     fi \<leftarrow> RaftLog_firstIndex l;
     Some (max (sinceIdx + 1) fi < rl_committed l + 1)
   }"

definition RaftLog_hasNextEnts :: "'s RaftLog \<Rightarrow> bool option" where
  "RaftLog_hasNextEnts l = RaftLog_hasNextEntsSince l (rl_applied l)"

definition RaftLog_snapshot :: "'s RaftStorage \<Rightarrow> 's RaftLog \<Rightarrow> ((raft_error + Snapshot) \<times> 's RaftLog) option" where
  "RaftLog_snapshot st l =
     (case rl_pending_snapshot l of
        Some snap \<Rightarrow> Some (Inr snap, l)
      | None \<Rightarrow> do {
          (r, s) \<leftarrow> st_Snapshot st (rl_storage l);
          Some (r, l\<lparr>rl_storage := s\<rparr>)
        })"

definition RaftLog_appliedTo :: "u64 \<Rightarrow> 's RaftLog \<Rightarrow> 's RaftLog option" where
  "RaftLog_appliedTo i l =
     (if i = 0 then Some l
      else if rl_committed l < i \<or> i < rl_applied l then None
      else Some (l\<lparr>rl_applied := i\<rparr>))"

definition RaftLog_stableTo :: "u64 \<Rightarrow> u64 \<Rightarrow> 's RaftLog \<Rightarrow> 's RaftLog option" where
  "RaftLog_stableTo idx term l = do {
     same \<leftarrow> RaftLog_matchTerm l idx term;
     Some (if same \<and> rl_stabled l < idx then l\<lparr>rl_stabled := idx\<rparr> else l)
   }"

definition RaftLog_stableSnapTo :: "u64 \<Rightarrow> 's RaftLog \<Rightarrow> 's RaftLog option" where
  "RaftLog_stableSnapTo i l =
     (case rl_pending_snapshot l of
        None \<Rightarrow> Some l
      | Some snap \<Rightarrow> do {
          md \<leftarrow> snap_Metadata snap;
          Some (if md_Index md = i then l\<lparr>rl_pending_snapshot := None\<rparr> else l)
        })"

definition RaftLog_lastTerm :: "'s RaftLog \<Rightarrow> u64 option" where
  "RaftLog_lastTerm l = do {
     i \<leftarrow> RaftLog_LastIndex l;
     or_panic (RaftLog_Term l i)
   }"

definition RaftLog_Entries :: "'s RaftLog \<Rightarrow> u64 \<Rightarrow> (raft_error + Entry list) option" where
  "RaftLog_Entries l i = do {
     fi \<leftarrow> RaftLog_firstIndex l;
     if i < fi then Some (Inl ErrCompacted)
     else do {
       last \<leftarrow> RaftLog_LastIndex l;
       if last < i then Some (Inr [])
       else map_option Inr (slice_from (rl_entries l) (i - rl_offset l))
     }
   }"

definition RaftLog_allEntries :: "'s RaftLog \<Rightarrow> Entry list" where
  "RaftLog_allEntries l = rl_entries l"

definition RaftLog_isUpToDate :: "'s RaftLog \<Rightarrow> u64 \<Rightarrow> u64 \<Rightarrow> bool option" where
  "RaftLog_isUpToDate l lasti term = do {
     lt \<leftarrow> RaftLog_lastTerm l;
     li \<leftarrow> RaftLog_LastIndex l;
     Some (lt < term \<or> term = lt \<and> li \<le> lasti)
   }"

definition RaftLog_maybeCommit :: "u64 \<Rightarrow> u64 \<Rightarrow> 's RaftLog \<Rightarrow> (bool \<times> 's RaftLog) option" where
  "RaftLog_maybeCommit maxIndex term l =
     (if rl_committed l < maxIndex then do {
        same \<leftarrow> RaftLog_matchTerm l maxIndex term;
        if same then do {
          l' \<leftarrow> RaftLog_commitTo maxIndex l;
          Some (True, l')
        } else Some (False, l)
      } else Some (False, l))"

definition RaftLog_restore :: "Snapshot \<Rightarrow> 's RaftLog \<Rightarrow> 's RaftLog option" where
  "RaftLog_restore snap l = do {
     md \<leftarrow> snap_Metadata snap;
     Some (l\<lparr>rl_committed := md_Index md, rl_entries := [], rl_stabled := md_Index md,
       rl_offset := md_Index md + 1, rl_snapIndex := md_Index md, rl_snapTerm := md_Term md,
       rl_pending_snapshot := Some snap\<rparr>)
   }"

definition RaftLog_zeroTermOnRangeErr :: "raft_error + u64 \<Rightarrow> u64 option" where
  "RaftLog_zeroTermOnRangeErr r =
     (case r of
        Inr t \<Rightarrow> Some t
      | Inl e \<Rightarrow> if e = ErrCompacted \<or> e = ErrUnavailable then Some 0 else None)"

end
