(* ===== verification/Raft_Core.thy ===== *)
theory Raft_Core
  imports Raft_Log "HOL-Library.Multiset"
begin

text \<open>
  The Raft state machine of one node, \<^verbatim>\<open>raft/raft.go\<close>: elections, replication, heartbeats, snapshots,
  leadership transfer and membership, as functions on the record \<open>Raft\<close>.  A panic or \<^verbatim>\<open>log.Fatal\<close> is
  \<^const>\<open>None\<close>.  The two things Go leaves open are an argument, \<open>Env\<close>: what the random source returns and in
  which order a range over a map visits its keys; a step visits the keys of \<^verbatim>\<open>Prs\<close> in an observable order
  at most once and reads only the last random timeout it drew.  The tick counters are unbounded.
\<close>

subsection \<open>State\<close>

definition raft_None :: u64 where
  "raft_None = 0"

datatype StateType = StateFollower | StateCandidate | StateLeader

record Progress =
  pr_Match :: u64
  pr_Next :: u64

record 's Config =
  cfg_ID :: u64
  cfg_peers :: "u64 list"
  cfg_ElectionTick :: int
  cfg_HeartbeatTick :: int
  cfg_Storage :: "'s option"
  cfg_Applied :: u64

record 's Raft =
  r_id :: u64
  r_Term :: u64
  r_Vote :: u64
  r_RaftLog :: "'s RaftLog"
  r_Prs :: "(u64 \<times> Progress) list"
  r_State :: StateType
  r_votes :: "(u64 \<times> bool) list"
  r_msgs :: "Message list"
  r_Lead :: u64
  r_heartbeatTimeout :: int
  r_electionTimeout :: int
  r_randomizedElectionTimeout :: int
  r_leadTransferee :: u64
  r_PendingConfIndex :: u64
  r_electionElapsed :: int
  r_heartbeatElapsed :: int

record Env =
  env_Intn :: "int \<Rightarrow> int"
  env_order :: "u64 list \<Rightarrow> u64 list"

text \<open>What Go documents of them: \<^verbatim>\<open>Intn(n)\<close> lies in \<open>[0,n)\<close>, a range visits each key once.\<close>

definition env_ok :: "Env \<Rightarrow> bool" where
  "env_ok env \<longleftrightarrow> (\<forall>n>0. 0 \<le> env_Intn env n \<and> env_Intn env n < n) \<and>
     (\<forall>ks. mset (env_order env ks) = mset ks)"

subsection \<open>Progress\<close>

definition Progress_maybeUpdate :: "u64 \<Rightarrow> Progress \<Rightarrow> bool \<times> Progress" where
  "Progress_maybeUpdate n pr =
     (let pr1 = (if pr_Match pr < n then pr\<lparr>pr_Match := n\<rparr> else pr);
          pr2 = (if pr_Next pr1 < n + 1 then pr1\<lparr>pr_Next := n + 1\<rparr> else pr1)
      in (pr_Match pr < n, pr2))"

definition Progress_maybeDecrTo :: "u64 \<Rightarrow> u64 \<Rightarrow> Progress \<Rightarrow> bool \<times> Progress" where
  "Progress_maybeDecrTo rejected hint pr =
     (if rejected \<le> pr_Match pr then (False, pr)
      else let next = min rejected (hint + 1)
           in (True, pr\<lparr>pr_Next := (if next < 1 then 1 else next)\<rparr>))"

definition Raft_getProgress :: "'s Raft \<Rightarrow> u64 \<Rightarrow> Progress option" where
  "Raft_getProgress r i = map_of (r_Prs r) i"

definition Raft_setProgress :: "u64 \<Rightarrow> u64 \<Rightarrow> u64 \<Rightarrow> 's Raft \<Rightarrow> 's Raft" where
  "Raft_setProgress i match next r = r\<lparr>r_Prs := map_put i \<lparr>pr_Match = match, pr_Next = next\<rparr> (r_Prs r)\<rparr>"

definition Raft_quorum :: "'s Raft \<Rightarrow> nat" where
  "Raft_quorum r = length (r_Prs r) div 2 + 1"

definition Raft_promotable :: "'s Raft \<Rightarrow> bool" where
  "Raft_promotable r \<longleftrightarrow> Raft_getProgress r (r_id r) \<noteq> None"

subsection \<open>Sending\<close>

definition Raft_send :: "Message \<Rightarrow> 's Raft \<Rightarrow> 's Raft option" where
  "Raft_send m r =
     (let m1 = m\<lparr>msg_From := r_id r\<rparr> in
      if msg_MsgType m1 = MsgRequestVote \<or> msg_MsgType m1 = MsgRequestVoteResponse then
        if msg_Term m1 = 0 then None else Some (r\<lparr>r_msgs := r_msgs r @ [m1]\<rparr>)
      else if msg_Term m1 \<noteq> 0 then None
      else let m2 = (if msg_MsgType m1 \<noteq> MsgPropose then m1\<lparr>msg_Term := r_Term r\<rparr> else m1)
           in Some (r\<lparr>r_msgs := r_msgs r @ [m2]\<rparr>))"

definition IsEmptySnap :: "Snapshot option \<Rightarrow> bool" where
  "IsEmptySnap sp =
     (case sp of
        None \<Rightarrow> True
      | Some snap \<Rightarrow> (case snap_Metadata snap of None \<Rightarrow> True | Some md \<Rightarrow> md_Index md = 0))"

definition Raft_sendAppend :: "'s RaftStorage \<Rightarrow> u64 \<Rightarrow> 's Raft \<Rightarrow> (bool \<times> 's Raft) option" where
  "Raft_sendAppend st to r = do {
     pr \<leftarrow> Raft_getProgress r to;
     let m = pb_Message\<lparr>msg_To := to\<rparr>;
     term \<leftarrow> RaftLog_Term (r_RaftLog r) (pr_Next pr - 1);
     ents \<leftarrow> RaftLog_Entries (r_RaftLog r) (pr_Next pr);
     case (term, ents) of
       (Inr t, Inr es) \<Rightarrow> do {
         r' \<leftarrow> Raft_send (m\<lparr>msg_MsgType := MsgAppend, msg_Index := pr_Next pr - 1, msg_LogTerm := t,
           msg_Entries := es, msg_Commit := rl_committed (r_RaftLog r)\<rparr>) r;
         Some (True, r')
       }
     | _ \<Rightarrow> do {
         (snapshot, l) \<leftarrow> RaftLog_snapshot st (r_RaftLog r);
         let r1 = r\<lparr>r_RaftLog := l\<rparr>;
         case snapshot of
           Inl e \<Rightarrow> if e = ErrSnapshotTemporarilyUnavailable then Some (False, r1) else None
         | Inr snap \<Rightarrow>
             if IsEmptySnap (Some snap) then None
             else do {
               r' \<leftarrow> Raft_send (m\<lparr>msg_MsgType := MsgSnapshot, msg_Snapshot := Some snap\<rparr>) r1;
               Some (True, r')
             }
       }
   }"

definition Raft_sendHeartbeat :: "u64 \<Rightarrow> 's Raft \<Rightarrow> 's Raft option" where
  "Raft_sendHeartbeat to r = do {
     pr \<leftarrow> Raft_getProgress r to;
     let commit = min (pr_Match pr) (rl_committed (r_RaftLog r));
     Raft_send (pb_Message\<lparr>msg_To := to, msg_MsgType := MsgHeartbeat, msg_Commit := commit\<rparr>) r
   }"

definition Raft_sendTimeoutNow :: "u64 \<Rightarrow> 's Raft \<Rightarrow> 's Raft option" where
  "Raft_sendTimeoutNow to r = Raft_send (pb_Message\<lparr>msg_To := to, msg_MsgType := MsgTimeoutNow\<rparr>) r"

text \<open>A range over \<^verbatim>\<open>Prs\<close> whose body sends messages: the keys in the order of the environment.\<close>

fun for_each :: "(u64 \<Rightarrow> 's Raft \<Rightarrow> 's Raft option) \<Rightarrow> u64 list \<Rightarrow> 's Raft \<Rightarrow> 's Raft option" where
  "for_each f [] r = Some r"
| "for_each f (i # is) r = do {
     r' \<leftarrow> f i r;
     for_each f is r'
   }"

definition Raft_forEachProgress :: "Env \<Rightarrow> (u64 \<Rightarrow> 's Raft \<Rightarrow> 's Raft option) \<Rightarrow> 's Raft \<Rightarrow> 's Raft option" where
  "Raft_forEachProgress env f r = for_each f (env_order env (map_keys (r_Prs r))) r"

definition Raft_bcastAppend :: "'s RaftStorage \<Rightarrow> Env \<Rightarrow> 's Raft \<Rightarrow> 's Raft option" where
  "Raft_bcastAppend st env r =
     Raft_forEachProgress env
       (\<lambda>i r. if i = r_id r then Some r else map_option snd (Raft_sendAppend st i r)) r"

definition Raft_bcastHeartbeat :: "Env \<Rightarrow> 's Raft \<Rightarrow> 's Raft option" where
  "Raft_bcastHeartbeat env r =
     Raft_forEachProgress env (\<lambda>i r. if i = r_id r then Some r else Raft_sendHeartbeat i r) r"

subsection \<open>Committing, resetting and appending\<close>

definition Raft_maybeCommit :: "'s Raft \<Rightarrow> (bool \<times> 's Raft) option" where
  "Raft_maybeCommit r =
     (let matchIndex = sort (map (pr_Match \<circ> snd) (r_Prs r)) in
      if length matchIndex < Raft_quorum r then None
      else do {
        let mci = matchIndex ! (length matchIndex - Raft_quorum r);
        (b, l) \<leftarrow> RaftLog_maybeCommit mci (r_Term r) (r_RaftLog r);
        Some (b, r\<lparr>r_RaftLog := l\<rparr>)
      })"

definition Raft_resetRandomizedElectionTimeout :: "Env \<Rightarrow> 's Raft \<Rightarrow> 's Raft option" where
  "Raft_resetRandomizedElectionTimeout env r =
     (if r_electionTimeout r \<le> 0 then None
      else Some (r\<lparr>r_randomizedElectionTimeout := r_electionTimeout r + env_Intn env (r_electionTimeout r)\<rparr>))"

definition Raft_abortLeaderTransfer :: "'s Raft \<Rightarrow> 's Raft" where
  "Raft_abortLeaderTransfer r = r\<lparr>r_leadTransferee := raft_None\<rparr>"

definition Raft_reset :: "Env \<Rightarrow> u64 \<Rightarrow> 's Raft \<Rightarrow> 's Raft option" where
  "Raft_reset env term r = do {
     let r1 = (if r_Term r \<noteq> term then r\<lparr>r_Term := term, r_Vote := raft_None\<rparr> else r);
     r2 \<leftarrow> Raft_resetRandomizedElectionTimeout env
       (r1\<lparr>r_Lead := raft_None, r_electionElapsed := 0, r_heartbeatElapsed := 0\<rparr>);
     let r3 = (Raft_abortLeaderTransfer r2)\<lparr>r_votes := []\<rparr>;
     last \<leftarrow> (if r_Prs r3 = [] then Some 0 else RaftLog_LastIndex (r_RaftLog r3));
     Some (r3\<lparr>r_Prs := map (\<lambda>(i, _). (i, \<lparr>pr_Match = (if i = r_id r3 then last else 0), pr_Next = last + 1\<rparr>)) (r_Prs r3),
              r_PendingConfIndex := 0\<rparr>)
   }"

fun number_entries :: "u64 \<Rightarrow> u64 \<Rightarrow> Entry list \<Rightarrow> Entry list" where
  "number_entries term next [] = []"
| "number_entries term next (e # es) =
     e\<lparr>ent_Term := term, ent_Index := next\<rparr> # number_entries term (next + 1) es"

definition Raft_appendEntry :: "'s RaftStorage \<Rightarrow> Entry list \<Rightarrow> 's Raft \<Rightarrow> 's Raft option" where
  "Raft_appendEntry st es r = do {
     li \<leftarrow> RaftLog_LastIndex (r_RaftLog r);
     (li', l) \<leftarrow> RaftLog_append st (number_entries (r_Term r) (li + 1) es) (r_RaftLog r);
     let r1 = r\<lparr>r_RaftLog := l\<rparr>;
     pr \<leftarrow> Raft_getProgress r1 (r_id r1);
     let r2 = r1\<lparr>r_Prs := map_put (r_id r1) (snd (Progress_maybeUpdate li' pr)) (r_Prs r1)\<rparr>;
     map_option snd (Raft_maybeCommit r2)
   }"

subsection \<open>Roles\<close>

definition Raft_becomeFollower :: "Env \<Rightarrow> u64 \<Rightarrow> u64 \<Rightarrow> 's Raft \<Rightarrow> 's Raft option" where
  "Raft_becomeFollower env term lead r = do {
     r1 \<leftarrow> Raft_reset env term r;
     Some (r1\<lparr>r_Lead := lead, r_State := StateFollower\<rparr>)
   }"

definition Raft_becomeCandidate :: "Env \<Rightarrow> 's Raft \<Rightarrow> 's Raft option" where
  "Raft_becomeCandidate env r = do {
     r1 \<leftarrow> Raft_reset env (r_Term r + 1) r;
     Some (r1\<lparr>r_Vote := r_id r1, r_State := StateCandidate\<rparr>)
   }"

definition Raft_becomeLeader :: "'s RaftStorage \<Rightarrow> Env \<Rightarrow> 's Raft \<Rightarrow> 's Raft option" where
  "Raft_becomeLeader st env r = do {
     r1 \<leftarrow> Raft_reset env (r_Term r) r;
     last \<leftarrow> RaftLog_LastIndex (r_RaftLog r1);
     Raft_appendEntry st [pb_Entry] (r1\<lparr>r_Lead := r_id r1, r_State := StateLeader, r_PendingConfIndex := last\<rparr>)
   }"

definition Raft_poll :: "u64 \<Rightarrow> bool \<Rightarrow> 's Raft \<Rightarrow> nat \<times> 's Raft" where
  "Raft_poll i v r =
     (let votes = (if map_of (r_votes r) i = None then map_put i v (r_votes r) else r_votes r)
      in (length (filter snd votes), r\<lparr>r_votes := votes\<rparr>))"

definition Raft_campaign :: "'s RaftStorage \<Rightarrow> Env \<Rightarrow> 's Raft \<Rightarrow> 's Raft option" where
  "Raft_campaign st env r = do {
     r1 \<leftarrow> Raft_becomeCandidate env r;
     let term = r_Term r1;
     let (granted, r2) = Raft_poll (r_id r1) True r1;
     if Raft_quorum r2 = granted then Raft_becomeLeader st env r2
     else for_each (\<lambda>i r. if i = r_id r then Some r else do {
         last \<leftarrow> RaftLog_LastIndex (r_RaftLog r);
         lastTerm \<leftarrow> RaftLog_lastTerm (r_RaftLog r);
         Raft_send (pb_Message\<lparr>msg_Term := term, msg_To := i, msg_MsgType := MsgRequestVote,
           msg_Index := last, msg_LogTerm := lastTerm\<rparr>) r
       }) (env_order env (map_keys (r_Prs r2))) r2
   }"

subsection \<open>Handlers of append, heartbeat and snapshot messages\<close>

definition Raft_handleAppendEntries :: "'s RaftStorage \<Rightarrow> Message \<Rightarrow> 's Raft \<Rightarrow> 's Raft option" where
  "Raft_handleAppendEntries st m r =
     (let resp = pb_Message\<lparr>msg_To := msg_From m, msg_MsgType := MsgAppendResponse\<rparr> in
      if msg_Index m < rl_committed (r_RaftLog r) then
        Raft_send (resp\<lparr>msg_Index := rl_committed (r_RaftLog r)\<rparr>) r
      else do {
        (mlastIndex, l) \<leftarrow> RaftLog_maybeAppend st (msg_Index m) (msg_LogTerm m) (msg_Commit m) (msg_Entries m) (r_RaftLog r);
        let r1 = r\<lparr>r_RaftLog := l\<rparr>;
        case mlastIndex of
          Some i \<Rightarrow> Raft_send (resp\<lparr>msg_Index := i\<rparr>) r1
        | None \<Rightarrow> do {
            t \<leftarrow> RaftLog_Term l (msg_Index m);
            _ \<leftarrow> RaftLog_zeroTermOnRangeErr t;
            last \<leftarrow> RaftLog_LastIndex l;
            Raft_send (resp\<lparr>msg_Index := msg_Index m, msg_Reject := True, msg_RejectHint := last\<rparr>) r1
          }
      })"

definition Raft_handleHeartbeat :: "Message \<Rightarrow> 's Raft \<Rightarrow> 's Raft option" where
  "Raft_handleHeartbeat m r = do {
     l \<leftarrow> RaftLog_commitTo (msg_Commit m) (r_RaftLog r);
     Raft_send (pb_Message\<lparr>msg_To := msg_From m, msg_MsgType := MsgHeartbeatResponse\<rparr>) (r\<lparr>r_RaftLog := l\<rparr>)
   }"

fun Raft_restoreNode :: "u64 list \<Rightarrow> 's Raft \<Rightarrow> 's Raft option" where
  "Raft_restoreNode [] r = Some r"
| "Raft_restoreNode (n # ns) r = do {
     last \<leftarrow> RaftLog_LastIndex (r_RaftLog r);
     let next = last + 1;
     let match = (if n = r_id r then next - 1 else 0);
     Raft_restoreNode ns (Raft_setProgress n match next r)
   }"

definition Raft_restore :: "Snapshot \<Rightarrow> 's Raft \<Rightarrow> (bool \<times> 's Raft) option" where
  "Raft_restore s r = do {
     md \<leftarrow> snap_Metadata s;
     if md_Index md \<le> rl_committed (r_RaftLog r) then Some (False, r)
     else do {
       same \<leftarrow> RaftLog_matchTerm (r_RaftLog r) (md_Index md) (md_Term md);
       _ \<leftarrow> RaftLog_lastTerm (r_RaftLog r);
       if same then do {
         l \<leftarrow> RaftLog_commitTo (md_Index md) (r_RaftLog r);
         Some (False, r\<lparr>r_RaftLog := l\<rparr>)
       } else do {
         l \<leftarrow> RaftLog_restore s (r_RaftLog r);
         cs \<leftarrow> md_ConfState md;
         r' \<leftarrow> Raft_restoreNode (cs_Nodes cs) (r\<lparr>r_RaftLog := l, r_Prs := []\<rparr>);
         Some (True, r')
       }
     }
   }"

definition Raft_handleSnapshot :: "Message \<Rightarrow> 's Raft \<Rightarrow> 's Raft option" where
  "Raft_handleSnapshot m r = do {
     s \<leftarrow> msg_Snapshot m;
     _ \<leftarrow> snap_Metadata s;
     (restored, r1) \<leftarrow> Raft_restore s r;
     let resp = pb_Message\<lparr>msg_To := msg_From m, msg_MsgType := MsgAppendResponse\<rparr>;
     if restored then do {
       last \<leftarrow> RaftLog_LastIndex (r_RaftLog r1);
       Raft_send (resp\<lparr>msg_Index := last\<rparr>) r1
     } else Raft_send (resp\<lparr>msg_Index := rl_committed (r_RaftLog r1)\<rparr>) r1
   }"

subsection \<open>The step functions\<close>

definition numOfPendingConf :: "Entry list \<Rightarrow> nat" where
  "numOfPendingConf ents = length (filter (\<lambda>e. ent_EntryType e = EntryConfChange) ents)"

text \<open>The loop of \<^verbatim>\<open>stepLeader\<close> over a proposal: a second pending configuration change becomes a normal entry.\<close>

fun Propose_loop :: "u64 \<Rightarrow> u64 \<Rightarrow> u64 \<Rightarrow> Entry list \<Rightarrow> u64 \<Rightarrow> Entry list \<times> u64" where
  "Propose_loop applied li i [] pending = ([], pending)"
| "Propose_loop applied li i (e # es) pending =
     (if ent_EntryType e = EntryConfChange then
        if applied < pending then
          let (es', p) = Propose_loop applied li (i + 1) es pending in (pb_Entry # es', p)
        else
          let (es', p) = Propose_loop applied li (i + 1) es (li + i + 1) in (e # es', p)
      else let (es', p) = Propose_loop applied li (i + 1) es pending in (e # es', p))"

definition stepLeader_Propose ::
  "'s RaftStorage \<Rightarrow> Env \<Rightarrow> Message \<Rightarrow> 's Raft \<Rightarrow> ('s Raft \<times> raft_error option) option" where
  "stepLeader_Propose st env m r =
     (if msg_Entries m = [] then None
      else if Raft_getProgress r (r_id r) = None then Some (r, Some ErrProposalDropped)
      else if r_leadTransferee r \<noteq> raft_None then Some (r, Some ErrProposalDropped)
      else do {
        last \<leftarrow> RaftLog_LastIndex (r_RaftLog r);
        let (es, pending) = Propose_loop (rl_applied (r_RaftLog r)) last 0 (msg_Entries m) (r_PendingConfIndex r);
        r1 \<leftarrow> Raft_appendEntry st es (r\<lparr>r_PendingConfIndex := pending\<rparr>);
        r2 \<leftarrow> Raft_bcastAppend st env r1;
        Some (r2, None)
      })"

definition stepLeader_AppendResponse ::
  "'s RaftStorage \<Rightarrow> Env \<Rightarrow> Message \<Rightarrow> Progress \<Rightarrow> 's Raft \<Rightarrow> 's Raft option" where
  "stepLeader_AppendResponse st env m pr r =
     (if msg_Reject m then
        let (decr, pr') = Progress_maybeDecrTo (msg_Index m) (msg_RejectHint m) pr;
            r1 = r\<lparr>r_Prs := map_put (msg_From m) pr' (r_Prs r)\<rparr>
        in if decr then map_option snd (Raft_sendAppend st (msg_From m) r1) else Some r1
      else
        let (updated, pr') = Progress_maybeUpdate (msg_Index m) pr;
            r1 = r\<lparr>r_Prs := map_put (msg_From m) pr' (r_Prs r)\<rparr>
        in if updated then do {
             (committed, r2) \<leftarrow> Raft_maybeCommit r1;
             r3 \<leftarrow> (if committed then Raft_bcastAppend st env r2 else Some r2);
             last \<leftarrow> (if msg_From m = r_leadTransferee r3 then RaftLog_LastIndex (r_RaftLog r3) else Some 0);
             if msg_From m = r_leadTransferee r3 \<and> pr_Match pr' = last
             then Raft_sendTimeoutNow (msg_From m) r3 else Some r3
           } else Some r1)"

definition stepLeader_TransferLeader ::
  "'s RaftStorage \<Rightarrow> Message \<Rightarrow> Progress \<Rightarrow> 's Raft \<Rightarrow> 's Raft option" where
  "stepLeader_TransferLeader st m pr r =
     (let leadTransferee = msg_From m; lastLeadTransferee = r_leadTransferee r in
      if lastLeadTransferee \<noteq> raft_None \<and> lastLeadTransferee = leadTransferee then Some r
      else
        let r1 = (if lastLeadTransferee \<noteq> raft_None then Raft_abortLeaderTransfer r else r) in
        if leadTransferee = r_id r1 then Some r1
        else do {
          let r2 = r1\<lparr>r_electionElapsed := 0, r_leadTransferee := leadTransferee\<rparr>;
          last \<leftarrow> RaftLog_LastIndex (r_RaftLog r2);
          if pr_Match pr = last then Raft_sendTimeoutNow leadTransferee r2
          else map_option snd (Raft_sendAppend st leadTransferee r2)
        })"

definition Raft_stepLeader ::
  "'s RaftStorage \<Rightarrow> Env \<Rightarrow> Message \<Rightarrow> 's Raft \<Rightarrow> ('s Raft \<times> raft_error option) option" where
  "Raft_stepLeader st env m r =
     (case msg_MsgType m of
        MsgBeat \<Rightarrow> map_option (\<lambda>r. (r, None)) (Raft_bcastHeartbeat env r)
      | MsgPropose \<Rightarrow> stepLeader_Propose st env m r
      | t \<Rightarrow>
          (case Raft_getProgress r (msg_From m) of
             None \<Rightarrow> Some (r, None)
           | Some pr \<Rightarrow> map_option (\<lambda>r. (r, None))
               (case t of
                  MsgAppendResponse \<Rightarrow> stepLeader_AppendResponse st env m pr r
                | MsgHeartbeatResponse \<Rightarrow> do {
                    last \<leftarrow> RaftLog_LastIndex (r_RaftLog r);
                    if pr_Match pr < last then map_option snd (Raft_sendAppend st (msg_From m) r) else Some r
                  }
                | MsgTransferLeader \<Rightarrow> stepLeader_TransferLeader st m pr r
                | _ \<Rightarrow> Some r)))"

definition Raft_stepCandidate ::
  "'s RaftStorage \<Rightarrow> Env \<Rightarrow> Message \<Rightarrow> 's Raft \<Rightarrow> ('s Raft \<times> raft_error option) option" where
  "Raft_stepCandidate st env m r =
     (case msg_MsgType m of
        MsgPropose \<Rightarrow> Some (r, Some ErrProposalDropped)
      | MsgAppend \<Rightarrow> do {
          r1 \<leftarrow> Raft_becomeFollower env (msg_Term m) (msg_From m) r;
          map_option (\<lambda>r. (r, None)) (Raft_handleAppendEntries st m r1)
        }
      | MsgHeartbeat \<Rightarrow> do {
          r1 \<leftarrow> Raft_becomeFollower env (msg_Term m) (msg_From m) r;
          map_option (\<lambda>r. (r, None)) (Raft_handleHeartbeat m r1)
        }
      | MsgSnapshot \<Rightarrow> do {
          r1 \<leftarrow> Raft_becomeFollower env (msg_Term m) (msg_From m) r;
          map_option (\<lambda>r. (r, None)) (Raft_handleSnapshot m r1)
        }
      | MsgRequestVoteResponse \<Rightarrow>
          let (gr, r1) = Raft_poll (msg_From m) (\<not> msg_Reject m) r in
          map_option (\<lambda>r. (r, None))
            (if Raft_quorum r1 = gr then do {
               r2 \<leftarrow> Raft_becomeLeader st env r1;
               Raft_bcastAppend st env r2
             }
             else if Raft_quorum r1 = length (r_votes r1) - gr then
               Raft_becomeFollower env (r_Term r1) raft_None r1
             else Some r1)
      | _ \<Rightarrow> Some (r, None))"

definition Raft_stepFollower ::
  "'s RaftStorage \<Rightarrow> Env \<Rightarrow> Message \<Rightarrow> 's Raft \<Rightarrow> ('s Raft \<times> raft_error option) option" where
  "Raft_stepFollower st env m r =
     (let r1 = r\<lparr>r_electionElapsed := 0, r_Lead := msg_From m\<rparr> in
      case msg_MsgType m of
        MsgPropose \<Rightarrow> Some (r, Some ErrProposalDropped)
      | MsgAppend \<Rightarrow> map_option (\<lambda>r. (r, None)) (Raft_handleAppendEntries st m r1)
      | MsgHeartbeat \<Rightarrow> map_option (\<lambda>r. (r, None)) (Raft_handleHeartbeat m r1)
      | MsgSnapshot \<Rightarrow> map_option (\<lambda>r. (r, None)) (Raft_handleSnapshot m r1)
      | MsgTransferLeader \<Rightarrow>
          if r_Lead r = raft_None then Some (r, None)
          else map_option (\<lambda>r. (r, None)) (Raft_send (m\<lparr>msg_To := r_Lead r\<rparr>) r)
      | MsgTimeoutNow \<Rightarrow>
          if Raft_promotable r then map_option (\<lambda>r. (r, None)) (Raft_campaign st env r) else Some (r, None)
      | _ \<Rightarrow> Some (r, None))"

text \<open>The two cases that \<^verbatim>\<open>Step\<close> handles itself.\<close>

definition Step_Hup :: "'s RaftStorage \<Rightarrow> Env \<Rightarrow> 's Raft \<Rightarrow> 's Raft option" where
  "Step_Hup st env r =
     (if r_State r \<noteq> StateLeader then do {
        ents \<leftarrow> or_panic (RaftLog_slice (r_RaftLog r) (rl_applied (r_RaftLog r) + 1) (rl_committed (r_RaftLog r) + 1));
        if numOfPendingConf ents \<noteq> 0 \<and> rl_applied (r_RaftLog r) < rl_committed (r_RaftLog r) then Some r
        else Raft_campaign st env r
      } else Some r)"

definition Step_RequestVote :: "Message \<Rightarrow> 's Raft \<Rightarrow> 's Raft option" where
  "Step_RequestVote m r = do {
     let canVote = (r_Vote r = msg_From m \<or> r_Vote r = raft_None \<and> r_Lead r = raft_None);
     upToDate \<leftarrow> RaftLog_isUpToDate (r_RaftLog r) (msg_Index m) (msg_LogTerm m);
     if canVote \<and> upToDate then do {
       r1 \<leftarrow> Raft_send (pb_Message\<lparr>msg_To := msg_From m, msg_Term := msg_Term m, msg_MsgType := MsgRequestVoteResponse\<rparr>) r;
       Some (r1\<lparr>r_electionElapsed := 0, r_Vote := msg_From m\<rparr>)
     } else
       Raft_send (pb_Message\<lparr>msg_To := msg_From m, msg_Term := r_Term r, msg_MsgType := MsgRequestVoteResponse,
         msg_Reject := True\<rparr>) r
   }"

text \<open>The dispatch of \<^verbatim>\<open>Step\<close> on the message type, after the terms have been compared.\<close>

definition Step_dispatch ::
  "'s RaftStorage \<Rightarrow> Env \<Rightarrow> Message \<Rightarrow> 's Raft \<Rightarrow> ('s Raft \<times> raft_error option) option" where
  "Step_dispatch st env m r =
     (case msg_MsgType m of
        MsgHup \<Rightarrow> map_option (\<lambda>r. (r, None)) (Step_Hup st env r)
      | MsgRequestVote \<Rightarrow> map_option (\<lambda>r. (r, None)) (Step_RequestVote m r)
      | _ \<Rightarrow> (case r_State r of
            StateFollower \<Rightarrow> Raft_stepFollower st env m r
          | StateCandidate \<Rightarrow> Raft_stepCandidate st env m r
          | StateLeader \<Rightarrow> Raft_stepLeader st env m r))"

definition Raft_Step ::
  "'s RaftStorage \<Rightarrow> Env \<Rightarrow> Message \<Rightarrow> 's Raft \<Rightarrow> ('s Raft \<times> raft_error option) option" where
  "Raft_Step st env m r =
     (if msg_Term m = 0 then Step_dispatch st env m r
      else if r_Term r < msg_Term m then do {
        r1 \<leftarrow> (if msg_MsgType m = MsgAppend \<or> msg_MsgType m = MsgHeartbeat \<or> msg_MsgType m = MsgSnapshot
              then Raft_becomeFollower env (msg_Term m) (msg_From m) r
              else Raft_becomeFollower env (msg_Term m) raft_None r);
        Step_dispatch st env m r1
      }
      else if msg_Term m < r_Term r then Some (r, None)
      else Step_dispatch st env m r)"

subsection \<open>Ticks\<close>

definition Raft_pastElectionTimeout :: "'s Raft \<Rightarrow> bool" where
  "Raft_pastElectionTimeout r \<longleftrightarrow> r_randomizedElectionTimeout r \<le> r_electionElapsed r"

definition Raft_tickElection :: "'s RaftStorage \<Rightarrow> Env \<Rightarrow> 's Raft \<Rightarrow> 's Raft option" where
  "Raft_tickElection st env r =
     (let r1 = r\<lparr>r_electionElapsed := r_electionElapsed r + 1\<rparr> in
      if Raft_promotable r1 \<and> Raft_pastElectionTimeout r1 then
        map_option fst (Raft_Step st env (pb_Message\<lparr>msg_From := r_id r1, msg_MsgType := MsgHup\<rparr>)
          (r1\<lparr>r_electionElapsed := 0\<rparr>))
      else Some r1)"

definition Raft_tickHeartbeat :: "'s RaftStorage \<Rightarrow> Env \<Rightarrow> 's Raft \<Rightarrow> 's Raft option" where
  "Raft_tickHeartbeat st env r =
     (let r1 = r\<lparr>r_heartbeatElapsed := r_heartbeatElapsed r + 1, r_electionElapsed := r_electionElapsed r + 1\<rparr>;
          r2 = (if r_electionTimeout r1 \<le> r_electionElapsed r1 then
                  let r' = r1\<lparr>r_electionElapsed := 0\<rparr> in
                  if r_State r' = StateLeader \<and> r_leadTransferee r' \<noteq> raft_None
                  then Raft_abortLeaderTransfer r' else r'
                else r1)
      in if r_State r2 \<noteq> StateLeader then Some r2
         else if r_heartbeatTimeout r2 \<le> r_heartbeatElapsed r2 then
           map_option fst (Raft_Step st env (pb_Message\<lparr>msg_From := r_id r2, msg_MsgType := MsgBeat\<rparr>)
             (r2\<lparr>r_heartbeatElapsed := 0\<rparr>))
         else Some r2)"

definition Raft_tick :: "'s RaftStorage \<Rightarrow> Env \<Rightarrow> 's Raft \<Rightarrow> 's Raft option" where
  "Raft_tick st env r =
     (case r_State r of
        StateLeader \<Rightarrow> Raft_tickHeartbeat st env r
      | _ \<Rightarrow> Raft_tickElection st env r)"

subsection \<open>Membership and start\<close>

definition Raft_addNode :: "u64 \<Rightarrow> 's Raft \<Rightarrow> 's Raft option" where
  "Raft_addNode i r =
     (if Raft_getProgress r i = None then do {
        last \<leftarrow> RaftLog_LastIndex (r_RaftLog r);
        Some (Raft_setProgress i 0 (last + 1) r)
      } else Some r)"

definition Raft_removeNode :: "'s RaftStorage \<Rightarrow> Env \<Rightarrow> u64 \<Rightarrow> 's Raft \<Rightarrow> 's Raft option" where
  "Raft_removeNode st env i r =
     (let r1 = r\<lparr>r_Prs := map_remove i (r_Prs r)\<rparr> in
      if r_Prs r1 = [] then Some r1
      else do {
        (committed, r2) \<leftarrow> Raft_maybeCommit r1;
        r3 \<leftarrow> (if committed then Raft_bcastAppend st env r2 else Some r2);
        Some (if r_State r3 = StateLeader \<and> r_leadTransferee r3 = i then Raft_abortLeaderTransfer r3 else r3)
      })"

definition Raft_loadState :: "HardState \<Rightarrow> 's Raft \<Rightarrow> 's Raft option" where
  "Raft_loadState state r = do {
     last \<leftarrow> RaftLog_LastIndex (r_RaftLog r);
     if hs_Commit state < rl_committed (r_RaftLog r) \<or> last < hs_Commit state then None
     else Some (r\<lparr>r_RaftLog := (r_RaftLog r)\<lparr>rl_committed := hs_Commit state\<rparr>,
       r_Term := hs_Term state, r_Vote := hs_Vote state\<rparr>)
   }"

definition Raft_hardState :: "'s Raft \<Rightarrow> HardState" where
  "Raft_hardState r = \<lparr>hs_Term = r_Term r, hs_Vote = r_Vote r, hs_Commit = rl_committed (r_RaftLog r)\<rparr>"

definition isHardStateEqual :: "HardState \<Rightarrow> HardState \<Rightarrow> bool" where
  "isHardStateEqual a b \<longleftrightarrow> hs_Term a = hs_Term b \<and> hs_Vote a = hs_Vote b \<and> hs_Commit a = hs_Commit b"

definition IsEmptyHardState :: "HardState \<Rightarrow> bool" where
  "IsEmptyHardState hs \<longleftrightarrow> isHardStateEqual hs pb_HardState"

definition Config_validate :: "'s Config \<Rightarrow> string option" where
  "Config_validate c =
     (if cfg_ID c = raft_None then Some ''cannot use none as id''
      else if cfg_HeartbeatTick c \<le> 0 then Some ''heartbeat tick must be greater than 0''
      else if cfg_ElectionTick c \<le> cfg_HeartbeatTick c then
        Some ''election tick must be greater than heartbeat tick''
      else if cfg_Storage c = None then Some ''storage cannot be nil''
      else None)"

text \<open>The record \<^verbatim>\<open>newRaft\<close> builds before it loads the hard state.\<close>

definition Raft_initial :: "'s Config \<Rightarrow> u64 list \<Rightarrow> 's RaftLog \<Rightarrow> 's Raft" where
  "Raft_initial c peers raftlog = \<lparr>r_id = cfg_ID c, r_Term = 0, r_Vote = 0, r_RaftLog = raftlog,
     r_Prs = fold (\<lambda>p prs. map_put p \<lparr>pr_Match = 0, pr_Next = 1\<rparr> prs) peers [],
     r_State = StateFollower, r_votes = [], r_msgs = [], r_Lead = raft_None,
     r_heartbeatTimeout = cfg_HeartbeatTick c, r_electionTimeout = cfg_ElectionTick c,
     r_randomizedElectionTimeout = 0, r_leadTransferee = 0, r_PendingConfIndex = 0,
     r_electionElapsed = 0, r_heartbeatElapsed = 0\<rparr>"

definition newRaft :: "'s RaftStorage \<Rightarrow> Env \<Rightarrow> 's Config \<Rightarrow> 's Raft option" where
  "newRaft st env c =
     (if Config_validate c \<noteq> None then None
      else do {
        storage \<leftarrow> cfg_Storage c;
        raftlog \<leftarrow> newLog st storage;
        (hs, cs) \<leftarrow> or_panic (st_InitialState st storage);
        peers \<leftarrow> (if cs_Nodes cs \<noteq> [] then if cfg_peers c \<noteq> [] then None else Some (cs_Nodes cs)
                 else Some (cfg_peers c));
        let r = Raft_initial c peers raftlog;
        r1 \<leftarrow> (if IsEmptyHardState hs then Some r else Raft_loadState hs r);
        l \<leftarrow> (if 0 < cfg_Applied c then RaftLog_appliedTo (cfg_Applied c) (r_RaftLog r1) else Some (r_RaftLog r1));
        r2 \<leftarrow> Raft_becomeFollower env (r_Term r1) raft_None (r1\<lparr>r_RaftLog := l\<rparr>);
        _ \<leftarrow> RaftLog_lastTerm (r_RaftLog r2);
        Some r2
      })"

end
