(* ===== verification/Raft_Node.thy ===== *)
theory Raft_Node
  imports Raft_Core
begin

text \<open>
  The interface between the Raft state machine and the application, \<^verbatim>\<open>raft/rawnode.go\<close>: \<open>RawNode\<close> with
  the \<open>Ready\<close> values it hands out and the \<open>Advance\<close> that acknowledges them.
\<close>

record SoftState =
  ss_Lead :: u64
  ss_RaftState :: StateType

definition SoftState_equal :: "SoftState \<Rightarrow> SoftState \<Rightarrow> bool" where
  "SoftState_equal a b \<longleftrightarrow> ss_Lead a = ss_Lead b \<and> ss_RaftState a = ss_RaftState b"

definition Raft_softState :: "'s Raft \<Rightarrow> SoftState" where
  "Raft_softState r = \<lparr>ss_Lead = r_Lead r, ss_RaftState = r_State r\<rparr>"

record Ready =
  rd_SoftState :: "SoftState option"
  rd_HardState :: HardState
  rd_Entries :: "Entry list"
  rd_Snapshot :: Snapshot
  rd_CommittedEntries :: "Entry list"
  rd_Messages :: "Message list"

definition newReady :: "'s Raft \<Rightarrow> SoftState \<Rightarrow> HardState \<Rightarrow> (Ready \<times> 's Raft) option" where
  "newReady r prevSoftSt prevHardSt = do {
     ents \<leftarrow> RaftLog_unstableEntries (r_RaftLog r);
     committed \<leftarrow> RaftLog_nextEnts (r_RaftLog r);
     let softSt = Raft_softState r;
     let hardSt = Raft_hardState r;
     Some (\<lparr>rd_SoftState = (if SoftState_equal softSt prevSoftSt then None else Some softSt),
            rd_HardState = (if isHardStateEqual hardSt prevHardSt then pb_HardState else hardSt),
            rd_Entries = ents,
            rd_Snapshot = (case rl_pending_snapshot (r_RaftLog r) of Some s \<Rightarrow> s | None \<Rightarrow> pb_Snapshot),
            rd_CommittedEntries = committed,
            rd_Messages = r_msgs r\<rparr>,
           r\<lparr>r_msgs := []\<rparr>)
   }"

record 's RawNode =
  rn_Raft :: "'s Raft"
  rn_prevSoftSt :: SoftState
  rn_prevHardSt :: HardState

definition NewRawNode :: "'s RaftStorage \<Rightarrow> Env \<Rightarrow> 's Config \<Rightarrow> 's RawNode option" where
  "NewRawNode st env config =
     (if cfg_ID config = 0 then None
      else do {
        r \<leftarrow> newRaft st env config;
        Some \<lparr>rn_Raft = r, rn_prevSoftSt = Raft_softState r, rn_prevHardSt = Raft_hardState r\<rparr>
      })"

definition RawNode_Tick :: "'s RaftStorage \<Rightarrow> Env \<Rightarrow> 's RawNode \<Rightarrow> 's RawNode option" where
  "RawNode_Tick st env rn = map_option (\<lambda>r. rn\<lparr>rn_Raft := r\<rparr>) (Raft_tick st env (rn_Raft rn))"

text \<open>A call of \<^verbatim>\<open>Raft.Step\<close> on the wrapped node.\<close>

definition step_raft :: "'s RaftStorage \<Rightarrow> Env \<Rightarrow> Message \<Rightarrow> 's RawNode \<Rightarrow> ('s RawNode \<times> raft_error option) option" where
  "step_raft st env m rn = do {
     (r, e) \<leftarrow> Raft_Step st env m (rn_Raft rn);
     Some (rn\<lparr>rn_Raft := r\<rparr>, e)
   }"

definition RawNode_Campaign :: "'s RaftStorage \<Rightarrow> Env \<Rightarrow> 's RawNode \<Rightarrow> ('s RawNode \<times> raft_error option) option" where
  "RawNode_Campaign st env rn = step_raft st env (pb_Message\<lparr>msg_MsgType := MsgHup\<rparr>) rn"

definition RawNode_Propose :: "'s RaftStorage \<Rightarrow> Env \<Rightarrow> bytes \<Rightarrow> 's RawNode \<Rightarrow> ('s RawNode \<times> raft_error option) option" where
  "RawNode_Propose st env data rn =
     step_raft st env (pb_Message\<lparr>msg_MsgType := MsgPropose, msg_From := r_id (rn_Raft rn),
       msg_Entries := [pb_Entry\<lparr>ent_Data := data\<rparr>]\<rparr>) rn"

text \<open>The generated marshaller of configuration changes is an argument.\<close>

definition RawNode_ProposeConfChange ::
  "(ConfChange \<Rightarrow> raft_error + bytes) \<Rightarrow> 's RaftStorage \<Rightarrow> Env \<Rightarrow> ConfChange \<Rightarrow> 's RawNode \<Rightarrow>
   ('s RawNode \<times> raft_error option) option" where
  "RawNode_ProposeConfChange marshal st env cc rn =
     (case marshal cc of
        Inl e \<Rightarrow> Some (rn, Some e)
      | Inr data \<Rightarrow>
          step_raft st env (pb_Message\<lparr>msg_MsgType := MsgPropose,
            msg_Entries := [pb_Entry\<lparr>ent_EntryType := EntryConfChange, ent_Data := data\<rparr>]\<rparr>) rn)"

definition raft_nodes :: "'s Raft \<Rightarrow> u64 list" where
  "raft_nodes r = sort (map_keys (r_Prs r))"

definition RawNode_ApplyConfChange ::
  "'s RaftStorage \<Rightarrow> Env \<Rightarrow> ConfChange \<Rightarrow> 's RawNode \<Rightarrow> (ConfState \<times> 's RawNode) option" where
  "RawNode_ApplyConfChange st env cc rn =
     (if cc_NodeId cc = raft_None then Some (\<lparr>cs_Nodes = raft_nodes (rn_Raft rn)\<rparr>, rn)
      else do {
        r \<leftarrow> (case cc_ChangeType cc of
               AddNode \<Rightarrow> Raft_addNode (cc_NodeId cc) (rn_Raft rn)
             | RemoveNode \<Rightarrow> Raft_removeNode st env (cc_NodeId cc) (rn_Raft rn)
             | ConfChangeType_Other _ \<Rightarrow> None);
        Some (\<lparr>cs_Nodes = raft_nodes r\<rparr>, rn\<lparr>rn_Raft := r\<rparr>)
      })"

definition IsLocalMsg :: "MessageType \<Rightarrow> bool" where
  "IsLocalMsg t \<longleftrightarrow> t = MsgHup \<or> t = MsgBeat"

definition IsResponseMsg :: "MessageType \<Rightarrow> bool" where
  "IsResponseMsg t \<longleftrightarrow> t = MsgAppendResponse \<or> t = MsgRequestVoteResponse \<or> t = MsgHeartbeatResponse"

definition RawNode_Step :: "'s RaftStorage \<Rightarrow> Env \<Rightarrow> Message \<Rightarrow> 's RawNode \<Rightarrow> ('s RawNode \<times> raft_error option) option" where
  "RawNode_Step st env m rn =
     (if IsLocalMsg (msg_MsgType m) then Some (rn, Some ErrStepLocalMsg)
      else if Raft_getProgress (rn_Raft rn) (msg_From m) \<noteq> None \<or> \<not> IsResponseMsg (msg_MsgType m)
      then step_raft st env m rn
      else Some (rn, Some ErrStepPeerNotFound))"

definition RawNode_Ready :: "'s RawNode \<Rightarrow> (Ready \<times> 's RawNode) option" where
  "RawNode_Ready rn = do {
     (rd, r) \<leftarrow> newReady (rn_Raft rn) (rn_prevSoftSt rn) (rn_prevHardSt rn);
     Some (rd, rn\<lparr>rn_Raft := r\<lparr>r_msgs := []\<rparr>\<rparr>)
   }"

definition RawNode_GetSnap :: "'s RawNode \<Rightarrow> Snapshot option" where
  "RawNode_GetSnap rn = rl_pending_snapshot (r_RaftLog (rn_Raft rn))"

definition RawNode_HasReady :: "'s RawNode \<Rightarrow> bool option" where
  "RawNode_HasReady rn =
     (let r = rn_Raft rn; hardSt = Raft_hardState r in
      if \<not> SoftState_equal (Raft_softState r) (rn_prevSoftSt rn) then Some True
      else if \<not> IsEmptyHardState hardSt \<and> \<not> isHardStateEqual hardSt (rn_prevHardSt rn) then Some True
      else if RawNode_GetSnap rn \<noteq> None \<and> \<not> IsEmptySnap (RawNode_GetSnap rn) then Some True
      else if r_msgs r \<noteq> [] then Some True
      else do {
        unstable \<leftarrow> RaftLog_unstableEntries (r_RaftLog r);
        if unstable \<noteq> [] then Some True else RaftLog_hasNextEnts (r_RaftLog r)
      })"

definition RawNode_Advance :: "Ready \<Rightarrow> 's RawNode \<Rightarrow> 's RawNode option" where
  "RawNode_Advance rd rn = do {
     let soft = (case rd_SoftState rd of Some s \<Rightarrow> s | None \<Rightarrow> rn_prevSoftSt rn);
     let hard = (if IsEmptyHardState (rd_HardState rd) then rn_prevHardSt rn else rd_HardState rd);
     l1 \<leftarrow> (if hs_Commit hard \<noteq> 0 then RaftLog_appliedTo (hs_Commit hard) (r_RaftLog (rn_Raft rn))
           else Some (r_RaftLog (rn_Raft rn)));
     l2 \<leftarrow> (if rd_Entries rd \<noteq> [] then
             RaftLog_stableTo (ent_Index (last (rd_Entries rd))) (ent_Term (last (rd_Entries rd))) l1
           else Some l1);
     l3 \<leftarrow> (if IsEmptySnap (Some (rd_Snapshot rd)) then Some l2
           else do {
             md \<leftarrow> snap_Metadata (rd_Snapshot rd);
             RaftLog_stableSnapTo (md_Index md) l2
           });
     Some (rn\<lparr>rn_Raft := (rn_Raft rn)\<lparr>r_RaftLog := l3\<rparr>, rn_prevSoftSt := soft, rn_prevHardSt := hard\<rparr>)
   }"

definition RawNode_GetProgress :: "'s RawNode \<Rightarrow> (u64 \<times> Progress) list" where
  "RawNode_GetProgress rn = (if r_State (rn_Raft rn) = StateLeader then r_Prs (rn_Raft rn) else [])"

definition RawNode_TransferLeader :: "'s RaftStorage \<Rightarrow> Env \<Rightarrow> u64 \<Rightarrow> 's RawNode \<Rightarrow> 's RawNode option" where
  "RawNode_TransferLeader st env transferee rn =
     map_option fst (step_raft st env (pb_Message\<lparr>msg_MsgType := MsgTransferLeader, msg_From := transferee\<rparr>) rn)"

end
