(* ===== verification/Raft_Election.thy ===== *)
theory Raft_Election
  imports Raft_Node
begin

text \<open>
  What one node does to an election: every function of \<^verbatim>\<open>raft/raft.go\<close> either leaves terms, votes and
  roles alone (\<open>pres\<close>) or moves them so that the votes a node has cast stay consistent (\<open>vol_inv\<close>).  What
  the argument needs of the stable storage is the locale \<open>raft_storage\<close>.
\<close>


subsection \<open>Operations that leave the election alone\<close>

definition votemsg :: "Message \<Rightarrow> bool" where
  "votemsg m \<longleftrightarrow> msg_MsgType m = MsgRequestVote \<or> msg_MsgType m = MsgRequestVoteResponse"

text \<open>The messages a leader sends.\<close>

definition leadmsg :: "Message \<Rightarrow> bool" where
  "leadmsg m \<longleftrightarrow> msg_MsgType m = MsgAppend \<or> msg_MsgType m = MsgHeartbeat \<or> msg_MsgType m = MsgSnapshot"

text \<open>A snapshot whose membership is \<open>N\<close>, and a message that carries no other.\<close>

definition md_nodes :: "SnapshotMetadata \<Rightarrow> u64 set" where
  "md_nodes md = (case md_ConfState md of Some cs \<Rightarrow> set (cs_Nodes cs) | None \<Rightarrow> {})"

definition snap_conf :: "u64 set \<Rightarrow> Snapshot \<Rightarrow> bool" where
  "snap_conf N snap \<longleftrightarrow> (\<forall>md. snap_Metadata snap = Some md \<longrightarrow> md_nodes md = N)"

definition msg_conf :: "u64 set \<Rightarrow> Message \<Rightarrow> bool" where
  "msg_conf N m \<longleftrightarrow> (\<forall>s. msg_Snapshot m = Some s \<longrightarrow> snap_conf N s)"

lemma msg_conf_None [simp]: "msg_Snapshot m = None \<Longrightarrow> msg_conf N m"
  by (simp add: msg_conf_def)

lemma pb_Message_sel [simp]:
  "msg_Snapshot pb_Message = None" "msg_From pb_Message = 0" "msg_MsgType pb_Message = MsgHup"
  "msg_Term pb_Message = 0" "msg_Reject pb_Message = False"
  by (simp_all add: pb_Message_def)

text \<open>The operations of the log leave the storage and a pending snapshot alone.\<close>

definition log_same :: "'s RaftLog \<Rightarrow> 's RaftLog \<Rightarrow> bool" where
  "log_same l l' \<longleftrightarrow> rl_storage l' = rl_storage l \<and> rl_pending_snapshot l' = rl_pending_snapshot l"

lemma log_same_refl [simp]: "log_same l l"
  by (simp add: log_same_def)

lemma commitTo_same: "RaftLog_commitTo i l = Some l' \<Longrightarrow> log_same l l'"
  by (auto simp: RaftLog_commitTo_def log_same_def bind_eq_Some_conv split: if_splits)

lemma append_same:
  assumes "RaftLog_append st ents l = Some (i, l')"
  shows "log_same l l'"
proof -
  have t: "log_same a b" if "RaftLog_truncateAndAppend es a = Some b" for a b :: "'a RaftLog" and es
    using that by (auto simp: RaftLog_truncateAndAppend_def log_same_def bind_eq_Some_conv Let_def split: if_splits)
  have c: "log_same a b" if "RaftLog_maybeCompact st a = Some b" for a b
    using that by (auto simp: RaftLog_maybeCompact_def log_same_def bind_eq_Some_conv Let_def split: if_splits)
  show ?thesis using assms
    by (auto simp: RaftLog_append_def bind_eq_Some_conv log_same_def dest!: t c split: list.splits if_splits)
qed

lemma maybeAppend_same:
  assumes "RaftLog_maybeAppend st index t c ents l = Some (x, l')"
  shows "log_same l l'"
  using assms
  by (auto simp: RaftLog_maybeAppend_def bind_eq_Some_conv log_same_def Let_def dest!: append_same commitTo_same split: if_splits)

lemma maybeCommit_same: "RaftLog_maybeCommit i t l = Some (b, l') \<Longrightarrow> log_same l l'"
  by (auto simp: RaftLog_maybeCommit_def bind_eq_Some_conv dest!: commitTo_same split: if_splits)

lemmas log_frame = commitTo_same append_same maybeAppend_same maybeCommit_same

text \<open>The identity of a node and the hard state on its stable storage.\<close>

record Owner =
  ow_id :: u64
  ow_hard :: HardState

locale raft_storage =
  fixes st :: "'s RaftStorage" and save :: "Ready \<Rightarrow> 's \<Rightarrow> 's option" and maintain :: "'s \<Rightarrow> 's \<Rightarrow> bool"
    and stored :: "'s \<Rightarrow> HardState" and members :: "'s \<Rightarrow> u64 set"
  assumes InitialState: "st_InitialState st s = Some (Inr (hs, cs)) \<Longrightarrow> hs = stored s \<and> set (cs_Nodes cs) = members s"
    and Snapshot_keeps: "st_Snapshot st s = Some (x, s') \<Longrightarrow> stored s' = stored s \<and> members s' = members s"
    and Snapshot_conf: "st_Snapshot st s = Some (Inr snap, s') \<Longrightarrow> snap_conf (members s) snap"
    and save_stored: "save rd s = Some s' \<Longrightarrow> stored s' = (if IsEmptyHardState (rd_HardState rd) then stored s else rd_HardState rd)"
    and save_members: "save rd s = Some s' \<Longrightarrow> snap_conf (members s) (rd_Snapshot rd) \<Longrightarrow> members s' = members s"
    and maintain_keeps: "maintain s s' \<Longrightarrow> stored s' = stored s \<and> members s' = members s"
begin

definition conf_inv :: "u64 set \<Rightarrow> Owner \<Rightarrow> 's Raft \<Rightarrow> bool" where
  "conf_inv N H r \<longleftrightarrow> distinct (map_keys (r_Prs r)) \<and> set (map_keys (r_Prs r)) = N \<and>
     members (rl_storage (r_RaftLog r)) = N \<and> stored (rl_storage (r_RaftLog r)) = ow_hard H \<and> ow_id H = r_id r \<and>
     (\<forall>s. rl_pending_snapshot (r_RaftLog r) = Some s \<longrightarrow> snap_conf N s) \<and>
     (\<forall>m \<in> set (r_msgs r). msg_conf N m \<and> msg_From m = r_id r)"

end

text \<open>A change of a node that neither votes nor moves its term, role or counted votes.\<close>

definition quiet :: "'s Raft \<Rightarrow> 's Raft \<Rightarrow> bool" where
  "quiet r r' \<longleftrightarrow> r_id r' = r_id r \<and> r_Term r' = r_Term r \<and> r_Vote r' = r_Vote r \<and> r_State r' = r_State r \<and>
     r_votes r' = r_votes r \<and> (\<exists>ms. r_msgs r' = r_msgs r @ ms \<and>
       (\<forall>m \<in> set ms. \<not> votemsg m \<and> (leadmsg m \<longrightarrow> msg_Term m = r_Term r)))"

lemma quiet_refl [simp, intro]: "quiet r r"
  by (simp add: quiet_def)

lemma quiet_trans [trans]: "quiet a b \<Longrightarrow> quiet b c \<Longrightarrow> quiet a c"
  by (auto simp: quiet_def)

context raft_storage
begin

definition pres :: "'s Raft \<Rightarrow> 's Raft \<Rightarrow> bool" where
  "pres r r' \<longleftrightarrow> quiet r r' \<and> (\<forall>N H. conf_inv N H r \<longrightarrow> conf_inv N H r')"

lemma pres_refl [simp, intro]: "pres r r"
  by (simp add: pres_def)

lemma pres_trans [trans]: "pres a b \<Longrightarrow> pres b c \<Longrightarrow> pres a c"
  unfolding pres_def using quiet_trans [of a b c] by auto

lemma Raft_sendE:
  assumes "Raft_send m r = Some r'"
  obtains m' where "r' = r\<lparr>r_msgs := r_msgs r @ [m']\<rparr>" "msg_From m' = r_id r" "msg_MsgType m' = msg_MsgType m"
    "msg_Snapshot m' = msg_Snapshot m" "msg_To m' = msg_To m" "msg_Reject m' = msg_Reject m"
    "votemsg m \<Longrightarrow> msg_Term m' = msg_Term m \<and> msg_Term m \<noteq> 0" "leadmsg m \<Longrightarrow> msg_Term m' = r_Term r"
proof (rule that [of "if votemsg m \<or> msg_MsgType m = MsgPropose then m\<lparr>msg_From := r_id r\<rparr>
    else m\<lparr>msg_From := r_id r, msg_Term := r_Term r\<rparr>"])
qed (use assms in \<open>auto simp add: Raft_send_def Let_def votemsg_def leadmsg_def split: if_splits\<close>)

lemma pres_send:
  assumes "Raft_send m r = Some r'" "\<not> votemsg m" "\<And>N H. conf_inv N H r \<Longrightarrow> msg_conf N m"
  shows "pres r r'"
proof -
  from assms(1) obtain m' where m': "r' = r\<lparr>r_msgs := r_msgs r @ [m']\<rparr>" "msg_From m' = r_id r"
    "msg_MsgType m' = msg_MsgType m" "msg_Snapshot m' = msg_Snapshot m" "leadmsg m \<longrightarrow> msg_Term m' = r_Term r"
    by (rule Raft_sendE) blast
  have "conf_inv N H r'" if "conf_inv N H r" for N H
    using that assms(3) [OF that] m' by (simp add: conf_inv_def msg_conf_def)
  moreover have "quiet r r'" using m' assms(2) by (simp add: quiet_def votemsg_def leadmsg_def)
  ultimately show ?thesis by (simp add: pres_def)
qed

lemma pres_log:
  assumes "members (rl_storage l) = members (rl_storage (r_RaftLog r))"
    and "stored (rl_storage l) = stored (rl_storage (r_RaftLog r))"
    and "rl_pending_snapshot l = rl_pending_snapshot (r_RaftLog r)"
  shows "pres r (r\<lparr>r_RaftLog := l\<rparr>)"
  using assms by (simp add: pres_def quiet_def conf_inv_def)

lemma map_keys_put: "i \<in> set (map_keys m) \<Longrightarrow> map_keys (map_put i v m) = map_keys m"
  by (simp add: update_keys)

lemma pres_progress:
  assumes "Raft_getProgress r i = Some pr"
  shows "pres r (r\<lparr>r_Prs := map_put i pr' (r_Prs r)\<rparr>)"
proof -
  from assms have "i \<in> set (map_keys (r_Prs r))"
    by (force simp: Raft_getProgress_def dest: map_of_SomeD)
  then show ?thesis by (simp add: pres_def quiet_def conf_inv_def update_keys)
qed

lemma RaftLog_snapshotE:
  assumes "RaftLog_snapshot st l = Some (x, l')"
  obtains s where "rl_pending_snapshot l = Some s" "x = Inr s" "l' = l"
    | s' where "st_Snapshot st (rl_storage l) = Some (x, s')" "l' = l\<lparr>rl_storage := s'\<rparr>"
proof (cases "rl_pending_snapshot l")
  case None
  with assms obtain s' where "st_Snapshot st (rl_storage l) = Some (x, s')" "l' = l\<lparr>rl_storage := s'\<rparr>"
    by (auto simp: RaftLog_snapshot_def bind_eq_Some_conv)
  then show thesis by (rule that(2))
next
  case (Some s)
  with assms show thesis by (intro that(1)) (auto simp: RaftLog_snapshot_def)
qed

lemma pres_snapshot:
  assumes "RaftLog_snapshot st (r_RaftLog r) = Some (x, l)"
  shows "pres r (r\<lparr>r_RaftLog := l\<rparr>)"
  using assms
proof (cases rule: RaftLog_snapshotE)
  case 1
  then show ?thesis by (intro pres_log) simp_all
next
  case (2 s')
  then show ?thesis using Snapshot_keeps [OF 2(1)] by (intro pres_log) simp_all
qed

lemma snapshot_conf:
  assumes "RaftLog_snapshot st (r_RaftLog r) = Some (Inr snap, l)" "conf_inv N H (r\<lparr>r_RaftLog := l\<rparr>)"
  shows "snap_conf N snap"
  using assms(1)
proof (cases rule: RaftLog_snapshotE)
  case 1
  then show ?thesis using assms(2) by (simp add: conf_inv_def)
next
  case (2 s')
  then have "members (rl_storage (r_RaftLog r)) = N"
    using assms(2) Snapshot_keeps [OF 2(1)] by (simp add: conf_inv_def)
  with Snapshot_conf [OF 2(1)] show ?thesis by simp
qed

lemma pres_sendAppend:
  assumes "Raft_sendAppend st to r = Some (b, r')"
  shows "pres r r'"
proof -
  from assms obtain pr t es where *: "Raft_getProgress r to = Some pr"
    "RaftLog_Term (r_RaftLog r) (pr_Next pr - 1) = Some t" "RaftLog_Entries (r_RaftLog r) (pr_Next pr) = Some es"
    by (auto simp: Raft_sendAppend_def bind_eq_Some_conv Let_def)
  show ?thesis
  proof (cases "\<exists>a c. t = Inr a \<and> es = Inr c")
    case True
    then obtain m where "Raft_send m r = Some r'" "\<not> votemsg m" "msg_Snapshot m = None"
      using assms * by (auto simp: Raft_sendAppend_def bind_eq_Some_conv Let_def votemsg_def)
    then show ?thesis by (auto intro: pres_send)
  next
    case False
    then obtain x l where x: "RaftLog_snapshot st (r_RaftLog r) = Some (x, l)"
      and rest: "(case x of Inl e \<Rightarrow> if e = ErrSnapshotTemporarilyUnavailable then Some (False, r\<lparr>r_RaftLog := l\<rparr>) else None
         | Inr snap \<Rightarrow> if IsEmptySnap (Some snap) then None
             else do {
               r' \<leftarrow> Raft_send (pb_Message\<lparr>msg_To := to, msg_MsgType := MsgSnapshot, msg_Snapshot := Some snap\<rparr>) (r\<lparr>r_RaftLog := l\<rparr>);
               Some (True, r')
             }) = Some (b, r')"
      using assms * by (cases t; cases es) (auto simp: Raft_sendAppend_def bind_eq_Some_conv Let_def)
    note p = pres_snapshot [OF x]
    show ?thesis
    proof (cases x)
      case (Inr snap)
      with rest have s: "Raft_send (pb_Message\<lparr>msg_To := to, msg_MsgType := MsgSnapshot, msg_Snapshot := Some snap\<rparr>)
          (r\<lparr>r_RaftLog := l\<rparr>) = Some r'"
        by (auto simp: bind_eq_Some_conv Let_def split: if_splits)
      have "conf_inv N H (r\<lparr>r_RaftLog := l\<rparr>) \<Longrightarrow> snap_conf N snap" for N H
        using snapshot_conf x Inr by simp
      then have "pres (r\<lparr>r_RaftLog := l\<rparr>) r'"
        by (intro pres_send [OF s]) (auto simp: votemsg_def msg_conf_def)
      with p show ?thesis by (rule pres_trans)
    qed (use rest p in \<open>auto split: if_splits\<close>)
  qed
qed

lemma pres_for_each:
  assumes "for_each f ks r = Some r'" "\<And>i a b. f i a = Some b \<Longrightarrow> pres a b"
  shows "pres r r'"
  using assms(1)
proof (induction ks arbitrary: r)
  case (Cons i ks)
  then obtain a where "f i r = Some a" "for_each f ks a = Some r'" by (auto simp: bind_eq_Some_conv Let_def)
  with Cons.IH [of a] assms(2) [of i r a] show ?case using pres_trans [of r a r'] by simp
qed simp

lemma pres_bcastAppend: "Raft_bcastAppend st env r = Some r' \<Longrightarrow> pres r r'"
  unfolding Raft_bcastAppend_def Raft_forEachProgress_def
  by (erule pres_for_each) (auto split: if_splits intro: pres_sendAppend)

lemma pres_sendHeartbeat: "Raft_sendHeartbeat i r = Some r' \<Longrightarrow> pres r r'"
  by (auto simp: Raft_sendHeartbeat_def bind_eq_Some_conv Let_def votemsg_def intro: pres_send)

lemma pres_bcastHeartbeat: "Raft_bcastHeartbeat env r = Some r' \<Longrightarrow> pres r r'"
  unfolding Raft_bcastHeartbeat_def Raft_forEachProgress_def
  by (erule pres_for_each) (auto split: if_splits intro: pres_sendHeartbeat)

lemma pres_sendTimeoutNow: "Raft_sendTimeoutNow i r = Some r' \<Longrightarrow> pres r r'"
  unfolding Raft_sendTimeoutNow_def by (erule pres_send) (auto simp: votemsg_def)

lemma pres_maybeCommit:
  assumes "Raft_maybeCommit r = Some (b, r')"
  shows "pres r r'"
proof -
  from assms obtain i l where "RaftLog_maybeCommit i (r_Term r) (r_RaftLog r) = Some (b, l)" "r' = r\<lparr>r_RaftLog := l\<rparr>"
    by (auto simp: Raft_maybeCommit_def Let_def bind_eq_Some_conv split: if_splits)
  then show ?thesis using log_frame(4) [of i "r_Term r" "r_RaftLog r" b l] by (simp add: pres_log log_same_def)
qed

lemma pres_appendEntry:
  assumes "Raft_appendEntry st es r = Some r'"
  shows "pres r r'"
proof -
  from assms obtain li li' l pr b where
    1: "RaftLog_append st (number_entries (r_Term r) (li + 1) es) (r_RaftLog r) = Some (li', l)"
    and 2: "Raft_getProgress (r\<lparr>r_RaftLog := l\<rparr>) (r_id r) = Some pr"
    and 3: "Raft_maybeCommit (r\<lparr>r_RaftLog := l, r_Prs := map_put (r_id r) (snd (Progress_maybeUpdate li' pr)) (r_Prs r)\<rparr>) = Some (b, r')"
    by (auto simp: Raft_appendEntry_def bind_eq_Some_conv Let_def)
  from log_frame(2) [OF 1] have "pres r (r\<lparr>r_RaftLog := l\<rparr>)" by (intro pres_log) (simp_all add: log_same_def)
  also have "pres \<dots> (r\<lparr>r_RaftLog := l, r_Prs := map_put (r_id r) (snd (Progress_maybeUpdate li' pr)) (r_Prs r)\<rparr>)"
    using pres_progress [OF 2] by simp
  also have "pres \<dots> r'" by (rule pres_maybeCommit [OF 3])
  finally show ?thesis .
qed

lemma pres_handleAppendEntries:
  assumes "Raft_handleAppendEntries st m r = Some r'"
  shows "pres r r'"
proof -
  have "\<exists>l m'. log_same (r_RaftLog r) l \<and> Raft_send m' (r\<lparr>r_RaftLog := l\<rparr>) = Some r' \<and> \<not> votemsg m' \<and> msg_Snapshot m' = None"
  proof (cases "msg_Index m < rl_committed (r_RaftLog r)")
    case True
    with assms show ?thesis
      by (intro exI [of _ "r_RaftLog r"] exI) (auto simp: Raft_handleAppendEntries_def Let_def votemsg_def)
  next
    case False
    with assms show ?thesis
      by (fastforce simp: Raft_handleAppendEntries_def Let_def bind_eq_Some_conv votemsg_def
          dest!: log_frame(3) split: option.splits)
  qed
  then obtain l m' where l: "log_same (r_RaftLog r) l" and
    s: "Raft_send m' (r\<lparr>r_RaftLog := l\<rparr>) = Some r'" "\<not> votemsg m'" "msg_Snapshot m' = None" by blast
  from l have "pres r (r\<lparr>r_RaftLog := l\<rparr>)" by (intro pres_log) (simp_all add: log_same_def)
  also have "pres \<dots> r'" by (rule pres_send [OF s(1,2)]) (simp add: s)
  finally show ?thesis .
qed

lemma pres_handleHeartbeat:
  assumes "Raft_handleHeartbeat m r = Some r'"
  shows "pres r r'"
proof -
  from assms obtain l m' where l: "RaftLog_commitTo (msg_Commit m) (r_RaftLog r) = Some l" and
    s: "Raft_send m' (r\<lparr>r_RaftLog := l\<rparr>) = Some r'" "\<not> votemsg m'" "msg_Snapshot m' = None"
    by (auto simp: Raft_handleHeartbeat_def bind_eq_Some_conv votemsg_def)
  from log_frame(1) [OF l] have "pres r (r\<lparr>r_RaftLog := l\<rparr>)" by (intro pres_log) (simp_all add: log_same_def)
  also have "pres \<dots> r'" by (rule pres_send [OF s(1,2)]) (simp add: s)
  finally show ?thesis .
qed

end

context raft_storage
begin

lemma restoreNode_frame:
  assumes "Raft_restoreNode ns r = Some r'"
  shows "r' = r\<lparr>r_Prs := r_Prs r'\<rparr>" "set (map_keys (r_Prs r')) = set ns \<union> set (map_keys (r_Prs r))"
    "distinct (map_keys (r_Prs r)) \<Longrightarrow> distinct (map_keys (r_Prs r'))"
  using assms
proof (induction ns arbitrary: r)
  case (Cons n ns)
  {
    case 1
    then obtain a b where "Raft_restoreNode ns (Raft_setProgress n a b r) = Some r'"
      by (auto simp: bind_eq_Some_conv Let_def)
    from Cons.IH(1) [OF this] show ?case by (simp add: Raft_setProgress_def)
  next
    case 2
    then obtain a b where "Raft_restoreNode ns (Raft_setProgress n a b r) = Some r'"
      by (auto simp: bind_eq_Some_conv Let_def)
    from Cons.IH(2) [OF this] show ?case by (auto simp: Raft_setProgress_def update_keys)
  next
    case 3
    then obtain a b where "Raft_restoreNode ns (Raft_setProgress n a b r) = Some r'"
      by (auto simp: bind_eq_Some_conv Let_def)
    from Cons.IH(3) [OF _ this] 3 show ?case by (simp add: Raft_setProgress_def distinct_update)
  }
qed simp_all

lemma restore_cases:
  assumes "Raft_restore s r = Some (b, r')"
  obtains "pres r r'"
  | l cs md prs where "snap_Metadata s = Some md" "md_ConfState md = Some cs" "RaftLog_restore s (r_RaftLog r) = Some l"
      "r' = r\<lparr>r_RaftLog := l, r_Prs := prs\<rparr>" "set (map_keys prs) = set (cs_Nodes cs)" "distinct (map_keys prs)"
proof -
  from assms obtain md where md: "snap_Metadata s = Some md" by (auto simp: Raft_restore_def bind_eq_Some_conv)
  show thesis
  proof (cases "md_Index md \<le> rl_committed (r_RaftLog r)")
    case True
    with assms md have "r' = r" by (simp add: Raft_restore_def)
    then show thesis using that(1) by simp
  next
    case False
    with assms md obtain same where same: "RaftLog_matchTerm (r_RaftLog r) (md_Index md) (md_Term md) = Some same"
      by (auto simp: Raft_restore_def bind_eq_Some_conv)
    show thesis
    proof (cases same)
      case True
      with assms md False same obtain l where l: "RaftLog_commitTo (md_Index md) (r_RaftLog r) = Some l" "r' = r\<lparr>r_RaftLog := l\<rparr>"
        by (auto simp: Raft_restore_def bind_eq_Some_conv)
      show thesis using that(1) l(2) log_frame(1) [OF l(1)] by (simp add: pres_log log_same_def)
    next
      case F: False
      with assms md False same obtain l cs where l: "RaftLog_restore s (r_RaftLog r) = Some l" "md_ConfState md = Some cs"
        "Raft_restoreNode (cs_Nodes cs) (r\<lparr>r_RaftLog := l, r_Prs := []\<rparr>) = Some r'"
        by (auto simp: Raft_restore_def bind_eq_Some_conv)
      from restoreNode_frame [OF l(3)]
      show thesis by (intro that(2) [OF md l(2,1), of "r_Prs r'"]) simp_all
    qed
  qed
qed

lemma handleSnapshot_quiet:
  assumes "Raft_handleSnapshot m r = Some r'"
  shows "quiet r r'" "conf_inv N H r \<Longrightarrow> msg_conf N m \<Longrightarrow> conf_inv N H r'"
proof -
  from assms obtain s b r1 m' where s: "msg_Snapshot m = Some s" and r1: "Raft_restore s r = Some (b, r1)" and
    send: "Raft_send m' r1 = Some r'" "\<not> votemsg m'" "msg_Snapshot m' = None"
    by (auto simp: Raft_handleSnapshot_def bind_eq_Some_conv Let_def votemsg_def split: if_splits)
  have p: "pres r1 r'" by (rule pres_send [OF send(1,2)]) (simp add: send)
  have q: "quiet r r1 \<and> (conf_inv N H r \<longrightarrow> msg_conf N m \<longrightarrow> conf_inv N H r1)"
    using r1
  proof (cases rule: restore_cases)
    case 1
    then show ?thesis by (simp add: pres_def)
  next
    case (2 l cs md prs)
    then have "rl_storage l = rl_storage (r_RaftLog r)" "rl_pending_snapshot l = Some s"
      by (auto simp: RaftLog_restore_def bind_eq_Some_conv)
    with 2 s show ?thesis by (auto simp: quiet_def conf_inv_def msg_conf_def snap_conf_def md_nodes_def)
  qed
  with p show "quiet r r'" using quiet_trans [of r r1 r'] by (simp add: pres_def)
  show "conf_inv N H r'" if "conf_inv N H r" "msg_conf N m" using q p that by (simp add: pres_def)
qed

end


subsection \<open>Votes\<close>

text \<open>
  \<open>G v t\<close> is the candidate that node \<open>v\<close> has voted for in term \<open>t\<close> on stable storage, and \<open>cast t\<close> the one
  it has voted for since its last restart, stable or not.  A vote counts for candidate \<open>i\<close> when it is
  stable, as the candidate's own vote then is.
\<close>

definition backed :: "(u64 \<Rightarrow> u64 \<Rightarrow> u64 option) \<Rightarrow> u64 \<Rightarrow> u64 \<Rightarrow> u64 \<Rightarrow> bool" where
  "backed G i t v \<longleftrightarrow> v = i \<or> G v t = Some i \<and> G i t = Some i"

definition won :: "u64 set \<Rightarrow> (u64 \<Rightarrow> u64 \<Rightarrow> u64 option) \<Rightarrow> u64 \<Rightarrow> u64 \<Rightarrow> bool" where
  "won N G t i \<longleftrightarrow> (\<exists>Q\<subseteq>N. card N < 2 * card Q \<and> (\<forall>v\<in>Q. backed G i t v))"

definition vote_ok :: "(u64 \<Rightarrow> u64 \<Rightarrow> u64 option) \<Rightarrow> (u64 \<Rightarrow> u64 option) \<Rightarrow> Message \<Rightarrow> bool" where
  "vote_ok G cast m \<longleftrightarrow>
     (votemsg m \<or> leadmsg m \<longrightarrow> msg_Term m \<noteq> 0) \<and>
     (msg_MsgType m = MsgRequestVote \<longrightarrow> cast (msg_Term m) = Some (msg_From m)) \<and>
     (msg_MsgType m = MsgRequestVoteResponse \<longrightarrow> \<not> msg_Reject m \<longrightarrow>
        cast (msg_Term m) = Some (msg_To m) \<and> G (msg_To m) (msg_Term m) = Some (msg_To m))"

text \<open>A message on the wire: its votes are stable at its sender.\<close>

definition wire_ok :: "u64 set \<Rightarrow> (u64 \<Rightarrow> u64 \<Rightarrow> u64 option) \<Rightarrow> Message \<Rightarrow> bool" where
  "wire_ok N G m \<longleftrightarrow> msg_conf N m \<and> msg_From m \<in> N \<and> vote_ok G (G (msg_From m)) m"

text \<open>What a node is fed: a message for it from the wire, or a local one.\<close>

definition input_ok :: "u64 set \<Rightarrow> (u64 \<Rightarrow> u64 \<Rightarrow> u64 option) \<Rightarrow> 's Raft \<Rightarrow> Message \<Rightarrow> bool" where
  "input_ok N G r m \<longleftrightarrow> msg_conf N m \<and> (leadmsg m \<longrightarrow> msg_Term m \<noteq> 0) \<and>
     (votemsg m \<longrightarrow> msg_From m \<in> N \<and> vote_ok G (G (msg_From m)) m \<and> msg_To m = r_id r)"

lemma won_unique:
  assumes "finite N" "won N G t i" "won N G t j" "i \<in> N" "j \<in> N"
  shows "i = j"
proof -
  from assms obtain P Q where PQ: "P \<subseteq> N" "Q \<subseteq> N" "card N < 2 * card P" "card N < 2 * card Q"
    "\<forall>v\<in>P. backed G i t v" "\<forall>v\<in>Q. backed G j t v" unfolding won_def by blast
  have fin: "finite P" "finite Q" using PQ assms(1) finite_subset by blast+
  have "P \<inter> Q \<noteq> {}"
  proof
    assume "P \<inter> Q = {}"
    then have "card (P \<union> Q) = card P + card Q" using fin by (simp add: card_Un_disjoint)
    moreover have "card (P \<union> Q) \<le> card N" using PQ assms(1) by (simp add: card_mono)
    ultimately show False using PQ by linarith
  qed
  then obtain v where v: "v \<in> P" "v \<in> Q" by blast
  show ?thesis
  proof (cases "card N < 2")
    case True
    then have "card N \<le> Suc 0" by simp
    with assms show ?thesis by (metis card_le_Suc0_iff_eq)
  next
    case False
    have other: "\<exists>w\<in>R. w \<noteq> k" if "card N < 2 * card R" "finite R" for R k
    proof (rule ccontr)
      assume "\<not> (\<exists>w\<in>R. w \<noteq> k)"
      then have "card R \<le> 1" using card_mono [of "{k}" R] by auto
      with that False show False by linarith
    qed
    have "G i t = Some i" using other [OF PQ(3) fin(1), of i] PQ(5) by (auto simp: backed_def)
    moreover have "G j t = Some j" using other [OF PQ(4) fin(2), of j] PQ(6) by (auto simp: backed_def)
    ultimately have "G v t = Some i" "G v t = Some j" using v PQ(5,6) by (auto simp: backed_def)
    then show ?thesis by simp
  qed
qed

context raft_storage
begin

definition vol_inv :: "u64 set \<Rightarrow> Owner \<Rightarrow> (u64 \<Rightarrow> u64 \<Rightarrow> u64 option) \<Rightarrow> (u64 \<Rightarrow> u64 option) \<Rightarrow> 's Raft \<Rightarrow> bool" where
  "vol_inv N H G cast r \<longleftrightarrow> conf_inv N H r \<and> r_id r \<in> N \<and> hs_Term (ow_hard H) \<le> r_Term r \<and>
     (\<forall>t. cast t \<noteq> None \<longrightarrow> t \<le> r_Term r) \<and>
     cast (r_Term r) = (if r_Vote r = 0 then None else Some (r_Vote r)) \<and>
     G (r_id r) \<subseteq>\<^sub>m cast \<and>
     (\<forall>m \<in> set (r_msgs r). vote_ok G cast m) \<and>
     (r_State r \<noteq> StateFollower \<longrightarrow> r_Vote r = r_id r \<and> r_Term r \<noteq> 0) \<and>
     distinct (map_keys (r_votes r)) \<and> set (map_keys (r_votes r)) \<subseteq> N \<and>
     (r_State r = StateCandidate \<longrightarrow> (\<forall>v. map_of (r_votes r) v = Some True \<longrightarrow> backed G (r_id r) (r_Term r) v)) \<and>
     (r_State r = StateLeader \<longrightarrow> won N G (r_Term r) (r_id r))"

lemma vol_inv_quiet:
  assumes "vol_inv N H G cast r" "quiet r r'" "conf_inv N H r'" "r_Term r \<noteq> 0"
  shows "vol_inv N H G cast r'"
proof -
  from assms(2) obtain ms where ms: "r_msgs r' = r_msgs r @ ms" "\<forall>m\<in>set ms. \<not> votemsg m \<and> (leadmsg m \<longrightarrow> msg_Term m = r_Term r)"
    unfolding quiet_def by blast
  then have "\<forall>m\<in>set ms. vote_ok G cast m" using assms(4) by (auto simp: vote_ok_def votemsg_def)
  moreover have "r_id r' = r_id r" "r_Term r' = r_Term r" "r_Vote r' = r_Vote r" "r_State r' = r_State r"
    "r_votes r' = r_votes r" using assms(2) by (simp_all add: quiet_def)
  ultimately show ?thesis using assms(1,3) ms(1) by (simp add: vol_inv_def ball_Un)
qed

lemma vol_inv_pres: "vol_inv N H G cast r \<Longrightarrow> pres r r' \<Longrightarrow> r_Term r \<noteq> 0 \<Longrightarrow> vol_inv N H G cast r'"
  by (rule vol_inv_quiet) (auto simp: pres_def vol_inv_def)

lemma vol_inv_silent:
  assumes "vol_inv N H G cast r" "pres r r'" "r_msgs r' = r_msgs r"
  shows "vol_inv N H G cast r'"
proof -
  have "conf_inv N H r'" using assms(1,2) by (simp add: pres_def vol_inv_def)
  moreover have "r_id r' = r_id r" "r_Term r' = r_Term r" "r_Vote r' = r_Vote r" "r_State r' = r_State r"
    "r_votes r' = r_votes r" using assms(2) by (simp_all add: pres_def quiet_def)
  ultimately show ?thesis using assms(1,3) by (simp add: vol_inv_def)
qed

end

context raft_storage
begin

lemma pres_fields [simp]:
  "pres r (r\<lparr>r_electionElapsed := a\<rparr>)" "pres r (r\<lparr>r_heartbeatElapsed := a\<rparr>)" "pres r (r\<lparr>r_PendingConfIndex := b\<rparr>)"
  "pres r (r\<lparr>r_leadTransferee := b\<rparr>)" "pres r (r\<lparr>r_Lead := b\<rparr>)" "pres r (Raft_abortLeaderTransfer r)"
  "pres r (r\<lparr>r_electionElapsed := a, r_Lead := b\<rparr>)" "pres r (r\<lparr>r_electionElapsed := a, r_leadTransferee := b\<rparr>)"
  "pres r (r\<lparr>r_heartbeatElapsed := a, r_electionElapsed := c\<rparr>)"
  by (simp_all add: pres_def quiet_def conf_inv_def Raft_abortLeaderTransfer_def)

lemma pres_stepLeader_Propose:
  assumes "stepLeader_Propose st env m r = Some (r', e)"
  shows "pres r r'"
proof -
  consider "r' = r" | es p r1 where "Raft_appendEntry st es (r\<lparr>r_PendingConfIndex := p\<rparr>) = Some r1"
      "Raft_bcastAppend st env r1 = Some r'"
    using assms by (auto simp: stepLeader_Propose_def bind_eq_Some_conv case_prod_beta split: if_splits)
  then show ?thesis
  proof cases
    case 2
    have "pres r (r\<lparr>r_PendingConfIndex := p\<rparr>)" by simp
    also have "pres \<dots> r1" by (rule pres_appendEntry [OF 2(1)])
    also have "pres \<dots> r'" by (rule pres_bcastAppend [OF 2(2)])
    finally show ?thesis .
  qed simp
qed

lemma pres_stepLeader_AppendResponse:
  assumes pr: "Raft_getProgress r (msg_From m) = Some pr" and "stepLeader_AppendResponse st env m pr r = Some r'"
  shows "pres r r'"
proof -
  define put where "put = (\<lambda>pr'. r\<lparr>r_Prs := map_put (msg_From m) pr' (r_Prs r)\<rparr>)"
  have p: "pres r (put pr')" for pr' unfolding put_def by (rule pres_progress [OF pr])
  show ?thesis
  proof (cases "msg_Reject m")
    case True
    obtain decr pr' where d: "Progress_maybeDecrTo (msg_Index m) (msg_RejectHint m) pr = (decr, pr')" by (rule prod.exhaust)
    with assms(2) True
    have "(if decr then map_option snd (Raft_sendAppend st (msg_From m) (put pr')) else Some (put pr')) = Some r'"
      by (simp add: stepLeader_AppendResponse_def put_def Let_def split: if_splits)
    then have "pres (put pr') r'" by (auto intro: pres_sendAppend split: if_splits)
    with p show ?thesis by (rule pres_trans)
  next
    case False
    obtain upd pr' where d: "Progress_maybeUpdate (msg_Index m) pr = (upd, pr')" by (rule prod.exhaust)
    show ?thesis
    proof (cases upd)
      case True
      with assms(2) False d obtain b r2 r3 where *: "Raft_maybeCommit (put pr') = Some (b, r2)"
        "(if b then Raft_bcastAppend st env r2 else Some r2) = Some r3"
        "r' = r3 \<or> Raft_sendTimeoutNow (msg_From m) r3 = Some r'"
        by (auto simp: stepLeader_AppendResponse_def put_def bind_eq_Some_conv Let_def split: if_splits)
      have "pres r r2" by (rule pres_trans [OF p pres_maybeCommit [OF *(1)]])
      moreover have "pres r2 r3" using *(2) pres_bcastAppend [of env r2 r3] by (cases b) auto
      moreover have "pres r3 r'" using *(3) pres_sendTimeoutNow by auto
      ultimately show ?thesis using pres_trans [of r r2 r3] pres_trans [of r r3 r'] by simp
    next
      case upd: False
      with assms(2) False d have "r' = put pr'" by (simp add: stepLeader_AppendResponse_def put_def Let_def)
      with p show ?thesis by simp
    qed
  qed
qed

lemma pres_stepLeader_TransferLeader:
  assumes "stepLeader_TransferLeader st m pr r = Some r'"
  shows "pres r r'"
proof -
  define r1 where "r1 = (if r_leadTransferee r \<noteq> raft_None then Raft_abortLeaderTransfer r else r)"
  define r2 where "r2 = r1\<lparr>r_electionElapsed := 0, r_leadTransferee := msg_From m\<rparr>"
  have p1: "pres r r1" by (simp add: r1_def)
  have p2: "pres r1 r2" by (simp add: r2_def)
  have "r' = r \<or> r' = r1 \<or> Raft_sendTimeoutNow (msg_From m) r2 = Some r' \<or> (\<exists>b. Raft_sendAppend st (msg_From m) r2 = Some (b, r'))"
    using assms
    by (auto simp: stepLeader_TransferLeader_def r1_def r2_def bind_eq_Some_conv Let_def split: if_splits)
  moreover have "pres r2 r' \<Longrightarrow> pres r r'" using pres_trans [OF pres_trans [OF p1 p2]] .
  ultimately show ?thesis using p1 pres_sendTimeoutNow pres_sendAppend by blast
qed

lemma pres_stepLeader:
  assumes "Raft_stepLeader st env m r = Some (r', e)"
  shows "pres r r'"
proof -
  have resp: "pres r r'" if "Raft_getProgress r (msg_From m) = Some pr"
    "(case msg_MsgType m of
        MsgAppendResponse \<Rightarrow> stepLeader_AppendResponse st env m pr r
      | MsgHeartbeatResponse \<Rightarrow> do {
          last \<leftarrow> RaftLog_LastIndex (r_RaftLog r);
          if pr_Match pr < last then map_option snd (Raft_sendAppend st (msg_From m) r) else Some r
        }
      | MsgTransferLeader \<Rightarrow> stepLeader_TransferLeader st m pr r
      | _ \<Rightarrow> Some r) = Some r'" for pr
    using that
    by (auto simp: bind_eq_Some_conv intro: pres_stepLeader_AppendResponse pres_stepLeader_TransferLeader pres_sendAppend
        split: MessageType.splits if_splits)
  show ?thesis
  proof (cases "msg_MsgType m = MsgBeat \<or> msg_MsgType m = MsgPropose")
    case True
    with assms show ?thesis
      by (auto simp: Raft_stepLeader_def intro: pres_bcastHeartbeat pres_stepLeader_Propose)
  next
    case False
    with assms show ?thesis
      by (cases "Raft_getProgress r (msg_From m)") (auto simp: Raft_stepLeader_def intro!: resp split: MessageType.splits)
  qed
qed

end


context raft_storage
begin

lemma reset_frame:
  assumes "Raft_reset env t r = Some r'"
  shows "r_id r' = r_id r" "r_Term r' = t" "r_Vote r' = (if r_Term r = t then r_Vote r else raft_None)"
    "r_State r' = r_State r" "r_votes r' = []" "r_msgs r' = r_msgs r" "r_RaftLog r' = r_RaftLog r"
    "map_keys (r_Prs r') = map_keys (r_Prs r)"
proof -
  have *: "map_keys (map (\<lambda>(i, _). (i, f i)) ps) = map_keys ps" for f :: "u64 \<Rightarrow> Progress" and ps :: "(u64 \<times> Progress) list"
    by (induction ps) auto
  from assms show "r_id r' = r_id r" "r_Term r' = t" "r_Vote r' = (if r_Term r = t then r_Vote r else raft_None)"
    "r_State r' = r_State r" "r_votes r' = []" "r_msgs r' = r_msgs r" "r_RaftLog r' = r_RaftLog r"
    "map_keys (r_Prs r') = map_keys (r_Prs r)"
    by (auto simp: Raft_reset_def Raft_resetRandomizedElectionTimeout_def Raft_abortLeaderTransfer_def Let_def
        bind_eq_Some_conv * split: if_splits)
qed

lemma conf_inv_cong:
  assumes "conf_inv N H r" "map_keys (r_Prs r') = map_keys (r_Prs r)" "r_RaftLog r' = r_RaftLog r"
    "r_msgs r' = r_msgs r" "r_id r' = r_id r"
  shows "conf_inv N H r'"
  using assms unfolding conf_inv_def by simp

lemma vol_inv_becomeFollower:
  assumes v: "vol_inv N H G cast r" and t: "r_Term r \<le> t" and "Raft_becomeFollower env t lead r = Some r'"
  shows "vol_inv N H G cast r'"
proof -
  from assms(3) obtain r1 where r1: "Raft_reset env t r = Some r1" "r' = r1\<lparr>r_Lead := lead, r_State := StateFollower\<rparr>"
    by (auto simp: Raft_becomeFollower_def bind_eq_Some_conv)
  note f = reset_frame [OF r1(1)]
  have "conf_inv N H r'" by (rule conf_inv_cong [of N H r]) (use v f r1(2) in \<open>simp_all add: vol_inv_def\<close>)
  moreover have "cast t = None" if "r_Term r \<noteq> t"
    using v t that unfolding vol_inv_def by (metis order_antisym)
  moreover have "\<forall>u. cast u \<noteq> None \<longrightarrow> u \<le> t" using v t unfolding vol_inv_def by (meson order_trans)
  moreover have "hs_Term (ow_hard H) \<le> t" using v t by (auto simp: vol_inv_def)
  ultimately show ?thesis using v f r1(2) by (auto simp: vol_inv_def raft_None_def)
qed

lemma vol_inv_becomeLeader:
  assumes v: "vol_inv N H G cast r" and w: "won N G (r_Term r) (r_id r)" "r_Vote r = r_id r" "r_Term r \<noteq> 0"
    and "Raft_becomeLeader st env r = Some r'"
  shows "vol_inv N H G cast r'"
proof -
  from assms(5) obtain r1 li where r1: "Raft_reset env (r_Term r) r = Some r1"
    "Raft_appendEntry st [pb_Entry] (r1\<lparr>r_Lead := r_id r1, r_State := StateLeader, r_PendingConfIndex := li\<rparr>) = Some r'"
    by (auto simp: Raft_becomeLeader_def bind_eq_Some_conv)
  note f = reset_frame [OF r1(1)]
  let ?r2 = "r1\<lparr>r_Lead := r_id r1, r_State := StateLeader, r_PendingConfIndex := li\<rparr>"
  have "conf_inv N H ?r2" by (rule conf_inv_cong [of N H r]) (use v f in \<open>simp_all add: vol_inv_def\<close>)
  then have "vol_inv N H G cast ?r2" using v w f by (simp add: vol_inv_def)
  then show ?thesis using pres_appendEntry [OF r1(2)] by (rule vol_inv_pres) (simp add: f w)
qed

lemma map_leD: "f \<subseteq>\<^sub>m g \<Longrightarrow> f x = Some y \<Longrightarrow> g x = Some y"
  by (metis domI map_le_def)

lemma vote_ok_mono:
  assumes "vote_ok G cast m" "cast \<subseteq>\<^sub>m cast'"
  shows "vote_ok G cast' m"
  using assms map_leD [OF assms(2)] by (auto simp: vote_ok_def)

lemma vol_inv_send:
  assumes "vol_inv N H G cast r" "Raft_send m r = Some r'" "msg_conf N m"
    "votemsg m \<longrightarrow> vote_ok G cast (m\<lparr>msg_From := r_id r\<rparr>)" "\<not> leadmsg m"
  shows "vol_inv N H G cast r'"
proof -
  from assms(2) obtain m' where m': "r' = r\<lparr>r_msgs := r_msgs r @ [m']\<rparr>" "msg_From m' = r_id r"
    "msg_MsgType m' = msg_MsgType m" "msg_Snapshot m' = msg_Snapshot m" "msg_To m' = msg_To m"
    "msg_Reject m' = msg_Reject m" "votemsg m \<Longrightarrow> msg_Term m' = msg_Term m \<and> msg_Term m \<noteq> 0"
    "leadmsg m \<Longrightarrow> msg_Term m' = r_Term r" by (rule Raft_sendE) blast
  have "vote_ok G cast m'"
    using assms(4,5) m'(2-) by (cases "votemsg m") (auto simp: vote_ok_def votemsg_def leadmsg_def)
  moreover have "conf_inv N H r'" using assms(1,3) m' by (auto simp: vol_inv_def conf_inv_def msg_conf_def)
  ultimately show ?thesis using assms(1) m'(1) by (simp add: vol_inv_def)
qed

lemma vol_inv_becomeCandidate:
  assumes v: "vol_inv N H G cast r" and wrap: "r_Term r \<noteq> - 1" and zero: "0 \<notin> N"
    and "Raft_becomeCandidate env r = Some r'"
  shows "vol_inv N H G (cast(r_Term r + 1 \<mapsto> r_id r)) (r'\<lparr>r_votes := [(r_id r, True)]\<rparr>)" "cast (r_Term r + 1) = None"
    "r_Term r' = r_Term r + 1" "r_id r' = r_id r" "r_State r' = StateCandidate" "r_votes r' = []"
proof -
  from assms(4) obtain r1 where r1: "Raft_reset env (r_Term r + 1) r = Some r1"
    "r' = r1\<lparr>r_Vote := r_id r1, r_State := StateCandidate\<rparr>"
    by (auto simp: Raft_becomeCandidate_def bind_eq_Some_conv)
  note f = reset_frame [OF r1(1)]
  have lt: "r_Term r < r_Term r + 1" using wrap by (rule less_Suc_u64)
  then have nz: "r_Term r + 1 \<noteq> 0" by auto
  show none: "cast (r_Term r + 1) = None" using v lt unfolding vol_inv_def by (metis linorder_not_le)
  show fr: "r_Term r' = r_Term r + 1" "r_id r' = r_id r" "r_State r' = StateCandidate" "r_votes r' = []"
    using f r1(2) by simp_all
  let ?cast = "cast(r_Term r + 1 \<mapsto> r_id r)"
  have le: "cast \<subseteq>\<^sub>m ?cast" using none by (auto simp: map_le_def)
  have "conf_inv N H (r'\<lparr>r_votes := [(r_id r, True)]\<rparr>)"
    by (rule conf_inv_cong [of N H r]) (use v f r1(2) in \<open>simp_all add: vol_inv_def\<close>)
  moreover have "\<forall>m\<in>set (r_msgs r). vote_ok G ?cast m" using v vote_ok_mono [OF _ le] by (auto simp: vol_inv_def)
  moreover have "\<forall>u. ?cast u \<noteq> None \<longrightarrow> u \<le> r_Term r + 1"
    using v lt unfolding vol_inv_def by (auto split: if_splits)
  moreover have "G (r_id r) \<subseteq>\<^sub>m ?cast" using v le unfolding vol_inv_def by (meson map_le_trans)
  moreover have "r_id r \<in> N" "hs_Term (ow_hard H) \<le> r_Term r + 1" using v lt by (auto simp: vol_inv_def)
  ultimately show "vol_inv N H G ?cast (r'\<lparr>r_votes := [(r_id r, True)]\<rparr>)"
    using f r1(2) zero nz by (auto simp: vol_inv_def backed_def split: if_splits)
qed

lemma vol_inv_request_votes:
  assumes "vol_inv N H G cast r" "cast t = Some (r_id r)" "t \<noteq> 0"
    and "for_each (\<lambda>i r. if i = r_id r then Some r else do {
         last \<leftarrow> RaftLog_LastIndex (r_RaftLog r);
         lastTerm \<leftarrow> RaftLog_lastTerm (r_RaftLog r);
         Raft_send (pb_Message\<lparr>msg_Term := t, msg_To := i, msg_MsgType := MsgRequestVote,
           msg_Index := last, msg_LogTerm := lastTerm\<rparr>) r
       }) ks r = Some r'"
  shows "vol_inv N H G cast r'"
  using assms
proof (induction ks arbitrary: r)
  case (Cons k ks)
  show ?case
  proof (cases "k = r_id r")
    case True
    then show ?thesis using Cons by simp
  next
    case False
    with Cons.prems(4) obtain m r1 where m: "Raft_send m r = Some r1" "msg_MsgType m = MsgRequestVote" "msg_Term m = t"
      "msg_Snapshot m = None" and rest: "for_each (\<lambda>i r. if i = r_id r then Some r else do {
         last \<leftarrow> RaftLog_LastIndex (r_RaftLog r);
         lastTerm \<leftarrow> RaftLog_lastTerm (r_RaftLog r);
         Raft_send (pb_Message\<lparr>msg_Term := t, msg_To := i, msg_MsgType := MsgRequestVote,
           msg_Index := last, msg_LogTerm := lastTerm\<rparr>) r
       }) ks r1 = Some r'"
      by (auto simp: bind_eq_Some_conv)
    have "vol_inv N H G cast r1"
      by (rule vol_inv_send [OF Cons.prems(1) m(1)]) (use Cons.prems m in \<open>simp_all add: vote_ok_def votemsg_def leadmsg_def\<close>)
    moreover from m(1) have "r_id r1 = r_id r" by (rule Raft_sendE) simp
    ultimately show ?thesis using Cons.IH [OF _ _ _ rest] Cons.prems by simp
  qed
qed simp

lemma vol_inv_campaign:
  assumes v: "vol_inv N H G cast r" and wrap: "r_Term r \<noteq> - 1" and zero: "0 \<notin> N"
    and "Raft_campaign st env r = Some r'"
  shows "\<exists>cast'. cast \<subseteq>\<^sub>m cast' \<and> vol_inv N H G cast' r'"
proof -
  from assms(4) obtain r1 where r1: "Raft_becomeCandidate env r = Some r1"
    by (auto simp: Raft_campaign_def bind_eq_Some_conv)
  note c = vol_inv_becomeCandidate [OF v wrap zero r1]
  let ?cast = "cast(r_Term r + 1 \<mapsto> r_id r)" and ?r2 = "r1\<lparr>r_votes := [(r_id r, True)]\<rparr>"
  have le: "cast \<subseteq>\<^sub>m ?cast" using c(2) by (auto simp: map_le_def)
  have poll: "Raft_poll (r_id r1) True r1 = (1, ?r2)" by (simp add: Raft_poll_def c)
  have nz: "r_Term r + 1 \<noteq> 0" using wrap by (metis add_diff_cancel_right' diff_0)
  have "vol_inv N H G ?cast r'"
  proof (cases "Raft_quorum ?r2 = 1")
    case True
    then have "Raft_becomeLeader st env ?r2 = Some r'"
      using assms(4) r1 poll by (simp add: Raft_campaign_def)
    moreover have "won N G (r_Term ?r2) (r_id ?r2)"
    proof -
      from c(1) have "distinct (map_keys (r_Prs ?r2))" "set (map_keys (r_Prs ?r2)) = N" "r_id r \<in> N"
        by (auto simp: vol_inv_def conf_inv_def c)
      then have "card N = length (r_Prs ?r2)" by (metis distinct_card length_map)
      with True have "card N < 2" by (simp add: Raft_quorum_def)
      then show ?thesis using \<open>r_id r \<in> N\<close> c unfolding won_def
        by (intro exI [of _ "{r_id r}"]) (simp add: backed_def)
    qed
    moreover have "r_Vote ?r2 = r_id ?r2" using c by (simp add: vol_inv_def)
    moreover have "r_Term ?r2 \<noteq> 0" using nz c by simp
    ultimately show ?thesis by (intro vol_inv_becomeLeader [OF c(1)])
  next
    case False
    show ?thesis
    proof (rule vol_inv_request_votes [OF c(1), of "r_Term r1" "env_order env (map_keys (r_Prs ?r2))"])
    qed (use assms(4) r1 poll False in \<open>simp_all add: Raft_campaign_def c(3,4) nz\<close>)
  qed
  with le show ?thesis by blast
qed

end

context raft_storage
begin

lemma vol_invD:
  assumes "vol_inv N H G cast r"
  shows "conf_inv N H r" "r_id r \<in> N" "cast t \<noteq> None \<Longrightarrow> t \<le> r_Term r"
    "cast (r_Term r) = (if r_Vote r = 0 then None else Some (r_Vote r))" "G (r_id r) \<subseteq>\<^sub>m cast"
    "m \<in> set (r_msgs r) \<Longrightarrow> vote_ok G cast m" "r_State r \<noteq> StateFollower \<Longrightarrow> r_Vote r = r_id r"
    "distinct (map_keys (r_votes r))" "set (map_keys (r_votes r)) \<subseteq> N"
    "r_State r = StateCandidate \<Longrightarrow> map_of (r_votes r) v = Some True \<Longrightarrow> backed G (r_id r) (r_Term r) v"
    "r_State r = StateLeader \<Longrightarrow> won N G (r_Term r) (r_id r)" "r_State r \<noteq> StateFollower \<Longrightarrow> r_Term r \<noteq> 0"
    "hs_Term (ow_hard H) \<le> r_Term r"
  using assms unfolding vol_inv_def by simp_all

lemma vol_inv_RequestVote:
  assumes v: "vol_inv N H G cast r" and i: "input_ok N G r m" "msg_MsgType m = MsgRequestVote"
    and t: "msg_Term m = r_Term r" and zero: "0 \<notin> N" and "Step_RequestVote m r = Some r'"
  shows "\<exists>cast'. cast \<subseteq>\<^sub>m cast' \<and> vol_inv N H G cast' r'"
proof -
  from i have from_ok: "msg_From m \<in> N" "G (msg_From m) (msg_Term m) = Some (msg_From m)" "msg_Term m \<noteq> 0"
    by (auto simp: input_ok_def votemsg_def vote_ok_def)
  let ?yes = "pb_Message\<lparr>msg_To := msg_From m, msg_Term := msg_Term m, msg_MsgType := MsgRequestVoteResponse\<rparr>"
  from assms(6) consider (grant) r1 where "r_Vote r = msg_From m \<or> r_Vote r = raft_None" "Raft_send ?yes r = Some r1"
      "r' = r1\<lparr>r_electionElapsed := 0, r_Vote := msg_From m\<rparr>"
    | (reject) m' where "Raft_send m' r = Some r'" "msg_MsgType m' = MsgRequestVoteResponse" "msg_Reject m'"
      "msg_Snapshot m' = None" "msg_Term m' = r_Term r"
    by (auto simp: Step_RequestVote_def bind_eq_Some_conv Let_def split: if_splits)
  then show ?thesis
  proof cases
    case grant
    let ?cast = "cast(r_Term r \<mapsto> msg_From m)" and ?r = "r\<lparr>r_electionElapsed := 0, r_Vote := msg_From m\<rparr>"
    note d = vol_invD [OF v]
    have le: "cast \<subseteq>\<^sub>m ?cast" using d(4) grant(1) by (auto simp: map_le_def raft_None_def)
    have "msg_From m \<noteq> 0" using from_ok zero by metis
    have st: "msg_From m = r_id r" if "r_State r \<noteq> StateFollower"
      using d(7) [OF that] d(2) grant(1) zero by (auto simp: raft_None_def)
    have "vol_inv N H G ?cast ?r"
      unfolding vol_inv_def
    proof (intro conjI ballI allI impI)
      show "conf_inv N H ?r" using d(1) by (simp add: conf_inv_def)
      show "vote_ok G ?cast x" if "x \<in> set (r_msgs ?r)" for x using that d(6) vote_ok_mono [OF _ le] by simp
      show "G (r_id ?r) \<subseteq>\<^sub>m ?cast" using map_le_trans [OF d(5) le] by simp
      show "u \<le> r_Term ?r" if "?cast u \<noteq> None" for u using that d(3) by (auto split: if_splits)
      show "r_Vote ?r = r_id ?r" "r_Term ?r \<noteq> 0" if "r_State ?r \<noteq> StateFollower" using that st d(12) by simp_all
    qed (use d \<open>msg_From m \<noteq> 0\<close> in simp_all)
    moreover have "Raft_send ?yes ?r = Some r'"
      using grant(2,3) by (auto simp: Raft_send_def Let_def split: if_splits)
    ultimately have "vol_inv N H G ?cast r'"
      by (rule vol_inv_send) (use from_ok t in \<open>simp_all add: vote_ok_def votemsg_def leadmsg_def\<close>)
    with le show ?thesis by blast
  next
    case reject
    have "vol_inv N H G cast r'"
      by (rule vol_inv_send [OF v reject(1)]) (use reject from_ok t in \<open>simp_all add: vote_ok_def votemsg_def leadmsg_def\<close>)
    then show ?thesis using map_le_refl by blast
  qed
qed

lemma vol_inv_poll:
  assumes v: "vol_inv N H G cast r" and "finite N" and s: "r_State r = StateCandidate" and f: "f \<in> N"
    and b: "b \<longrightarrow> backed G (r_id r) (r_Term r) f" and p: "Raft_poll f b r = (gr, r')"
  shows "vol_inv N H G cast r'" "Raft_quorum r' = gr \<Longrightarrow> won N G (r_Term r') (r_id r')"
    "r_Vote r' = r_id r'" "r_State r' = StateCandidate" "r_Term r' = r_Term r"
proof -
  define vs where "vs = (if map_of (r_votes r) f = None then map_put f b (r_votes r) else r_votes r)"
  have r': "r' = r\<lparr>r_votes := vs\<rparr>" and gr: "gr = length (filter snd vs)"
    using p by (simp_all add: Raft_poll_def vs_def Let_def)
  note vd = vol_invD [OF v]
  have keys: "map_keys vs = (if map_of (r_votes r) f = None then map_keys (r_votes r) @ [f] else map_keys (r_votes r))"
    by (simp add: vs_def update_keys map_of_eq_None_iff)
  then have d: "distinct (map_keys vs)" using vd(8) by (simp add: map_of_eq_None_iff)
  have sub: "set (map_keys vs) \<subseteq> N" unfolding keys using vd(9) f by simp
  have bk: "backed G (r_id r) (r_Term r) x" if "map_of vs x = Some True" for x
  proof (cases "map_of (r_votes r) f = None \<and> x = f")
    case True
    with that b show ?thesis by (simp add: vs_def update_Some_unfold)
  next
    case False
    with that have "map_of (r_votes r) x = Some True" by (auto simp: vs_def update_Some_unfold split: if_splits)
    with vd(10) s show ?thesis by simp
  qed
  have "conf_inv N H r'" using vd(1) by (simp add: r' conf_inv_def)
  then show "vol_inv N H G cast r'" using v s d sub bk by (simp add: r' vol_inv_def)
  show "r_Vote r' = r_id r'" "r_State r' = StateCandidate" "r_Term r' = r_Term r"
    using vd(7) s by (simp_all add: r')
  assume q: "Raft_quorum r' = gr"
  define Q where "Q = {x. map_of vs x = Some True}"
  have "Q = set (map fst (filter snd vs))"
    using d by (force simp: Q_def map_of_eq_Some_iff image_iff)
  moreover have "distinct (map fst (filter snd vs))" using d by (simp add: distinct_map_filter)
  ultimately have card: "card Q = gr" using distinct_card [of "map fst (filter snd vs)"] by (simp add: gr)
  have "Q \<subseteq> N" using sub unfolding Q_def by (force dest: map_of_SomeD)
  moreover have "card N = length (r_Prs r)"
    using vd(1) unfolding conf_inv_def by (metis distinct_card length_map)
  then have "card N < 2 * card Q" using q card by (simp add: Raft_quorum_def r')
  ultimately show "won N G (r_Term r') (r_id r')"
    using bk unfolding won_def Q_def r' by (intro exI [of _ Q]) (auto simp: Q_def)
qed

lemma becomeFollower_frame:
  assumes "Raft_becomeFollower env t lead r = Some r'"
  shows "r_id r' = r_id r" "r_Term r' = t"
  using assms reset_frame by (auto simp: Raft_becomeFollower_def bind_eq_Some_conv)

lemma becomeLeader_Term: "Raft_becomeLeader st env r = Some r' \<Longrightarrow> r_Term r' = r_Term r"
proof -
  assume "Raft_becomeLeader st env r = Some r'"
  then obtain r1 li where r1: "Raft_reset env (r_Term r) r = Some r1"
    "Raft_appendEntry st [pb_Entry] (r1\<lparr>r_Lead := r_id r1, r_State := StateLeader, r_PendingConfIndex := li\<rparr>) = Some r'"
    by (auto simp: Raft_becomeLeader_def bind_eq_Some_conv)
  from pres_appendEntry [OF r1(2)] reset_frame(2) [OF r1(1)] show ?thesis by (simp add: pres_def quiet_def)
qed

lemma vol_inv_stepCandidate:
  assumes v: "vol_inv N H G cast r" and s: "r_State r = StateCandidate" and fin: "finite N" and i: "input_ok N G r m"
    and t: "msg_Term m = 0 \<or> msg_Term m = r_Term r" and t': "votemsg m \<longrightarrow> msg_Term m = r_Term r"
    and step: "Raft_stepCandidate st env m r = Some (r', e)"
  shows "vol_inv N H G cast r'"
proof -
  have bf: "vol_inv N H G cast r1"
    if "Raft_becomeFollower env (msg_Term m) (msg_From m) r = Some r1" "msg_Term m = r_Term r" for r1
    by (rule vol_inv_becomeFollower [OF v _ that(1)]) (simp add: that(2))
  have conf: "msg_conf N m" and lead: "leadmsg m \<longrightarrow> msg_Term m \<noteq> 0" using i by (simp_all add: input_ok_def)
  have bt: "r_Term r1 \<noteq> 0" if "Raft_becomeFollower env (msg_Term m) (msg_From m) r = Some r1" "leadmsg m" for r1
    using becomeFollower_frame(2) [OF that(1)] that(2) lead by simp
  show ?thesis
  proof (cases "msg_MsgType m")
    case MsgAppend
    with step obtain r1 where r1: "Raft_becomeFollower env (msg_Term m) (msg_From m) r = Some r1"
      "Raft_handleAppendEntries st m r1 = Some r'" by (auto simp: Raft_stepCandidate_def bind_eq_Some_conv)
    show ?thesis
      by (rule vol_inv_pres [OF bf [OF r1(1)] pres_handleAppendEntries [OF r1(2)]]) (use t lead bt [OF r1(1)] MsgAppend in \<open>auto simp: leadmsg_def\<close>)
  next
    case MsgHeartbeat
    with step obtain r1 where r1: "Raft_becomeFollower env (msg_Term m) (msg_From m) r = Some r1"
      "Raft_handleHeartbeat m r1 = Some r'" by (auto simp: Raft_stepCandidate_def bind_eq_Some_conv)
    show ?thesis
      by (rule vol_inv_pres [OF bf [OF r1(1)] pres_handleHeartbeat [OF r1(2)]]) (use t lead bt [OF r1(1)] MsgHeartbeat in \<open>auto simp: leadmsg_def\<close>)
  next
    case MsgSnapshot
    with step obtain r1 where r1: "Raft_becomeFollower env (msg_Term m) (msg_From m) r = Some r1"
      "Raft_handleSnapshot m r1 = Some r'" by (auto simp: Raft_stepCandidate_def bind_eq_Some_conv)
    have v1: "vol_inv N H G cast r1" using bf [OF r1(1)] t lead MsgSnapshot by (auto simp: leadmsg_def)
    show ?thesis by (rule vol_inv_quiet [OF v1 handleSnapshot_quiet(1) [OF r1(2)] handleSnapshot_quiet(2) [OF r1(2) vol_invD(1) [OF v1] conf]])
      (use bt [OF r1(1)] MsgSnapshot in \<open>simp add: leadmsg_def\<close>)
  next
    case MsgRequestVoteResponse
    obtain gr r1 where p: "Raft_poll (msg_From m) (\<not> msg_Reject m) r = (gr, r1)" by (rule prod.exhaust)
    have f: "msg_From m \<in> N" "\<not> msg_Reject m \<longrightarrow> backed G (r_id r) (r_Term r) (msg_From m)"
      using i MsgRequestVoteResponse t' by (auto simp: input_ok_def votemsg_def vote_ok_def backed_def)
    note q = vol_inv_poll [OF v fin s f p]
    from step MsgRequestVoteResponse p
    have r': "(if Raft_quorum r1 = gr then do { r2 \<leftarrow> Raft_becomeLeader st env r1; Raft_bcastAppend st env r2 }
        else if Raft_quorum r1 = length (r_votes r1) - gr then Raft_becomeFollower env (r_Term r1) raft_None r1
        else Some r1) = Some r'"
      by (simp add: Raft_stepCandidate_def split: if_splits)
    show ?thesis
    proof (cases "Raft_quorum r1 = gr")
      case True
      have nz: "r_Term r1 \<noteq> 0" using vol_invD(12) [OF v] s q(5) by simp
      from True r' obtain r2 where r2: "Raft_becomeLeader st env r1 = Some r2" "Raft_bcastAppend st env r2 = Some r'"
        by (auto simp: bind_eq_Some_conv)
      show ?thesis
        by (rule vol_inv_pres [OF vol_inv_becomeLeader [OF q(1) q(2) [OF True] q(3) nz r2(1)] pres_bcastAppend [OF r2(2)]])
          (use becomeLeader_Term [OF r2(1)] nz in simp)
    next
      case False
      with r' have "r' = r1 \<or> Raft_becomeFollower env (r_Term r1) raft_None r1 = Some r'" by (simp split: if_splits)
      then show ?thesis using q(1) vol_inv_becomeFollower [OF q(1) order_refl] by blast
    qed
  qed (use step v in \<open>auto simp: Raft_stepCandidate_def\<close>)
qed

lemma vol_inv_stepFollower:
  assumes v: "vol_inv N H G cast r" and wrap: "r_Term r \<noteq> - 1" and zero: "0 \<notin> N" and i: "input_ok N G r m"
    and t: "msg_Term m = 0 \<or> msg_Term m = r_Term r" and step: "Raft_stepFollower st env m r = Some (r', e)"
  shows "\<exists>cast'. cast \<subseteq>\<^sub>m cast' \<and> vol_inv N H G cast' r'"
proof (cases "msg_MsgType m = MsgTimeoutNow \<and> Raft_promotable r")
  case True
  with step have "Raft_campaign st env r = Some r'" by (auto simp: Raft_stepFollower_def)
  with v wrap zero show ?thesis by (rule vol_inv_campaign)
next
  case False
  let ?r1 = "r\<lparr>r_electionElapsed := 0, r_Lead := msg_From m\<rparr>"
  have conf: "msg_conf N m" using i by (simp add: input_ok_def)
  have v1: "vol_inv N H G cast ?r1" by (rule vol_inv_silent [OF v]) simp_all
  have nz: "r_Term ?r1 \<noteq> 0" if "leadmsg m" using i t that by (auto simp: input_ok_def)
  consider "r' = r" | "leadmsg m" "Raft_handleAppendEntries st m ?r1 = Some r'"
    | "leadmsg m" "Raft_handleHeartbeat m ?r1 = Some r'" | "leadmsg m" "Raft_handleSnapshot m ?r1 = Some r'"
    | "msg_MsgType m = MsgTransferLeader" "Raft_send (m\<lparr>msg_To := r_Lead r\<rparr>) r = Some r'"
    using step False by (cases "msg_MsgType m") (auto simp: Raft_stepFollower_def Let_def leadmsg_def split: if_splits)
  then have "vol_inv N H G cast r'"
  proof cases
    case 4
    show ?thesis
      by (rule vol_inv_quiet [OF v1 handleSnapshot_quiet(1) [OF 4(2)] handleSnapshot_quiet(2) [OF 4(2) vol_invD(1) [OF v1] conf] nz [OF 4(1)]])
  next
    case 5
    show ?thesis by (rule vol_inv_send [OF v 5(2)]) (use 5 conf in \<open>simp_all add: msg_conf_def leadmsg_def votemsg_def\<close>)
  qed (use v vol_inv_pres [OF v1] nz pres_handleAppendEntries pres_handleHeartbeat in blast)+
  then show ?thesis using map_le_refl by blast
qed

lemma vol_inv_dispatch:
  assumes v: "vol_inv N H G cast r" and wrap: "r_Term r \<noteq> - 1" and zero: "0 \<notin> N" and fin: "finite N"
    and i: "input_ok N G r m" and t: "msg_Term m = 0 \<or> msg_Term m = r_Term r"
    and step: "Step_dispatch st env m r = Some (r', e)"
  shows "\<exists>cast'. cast \<subseteq>\<^sub>m cast' \<and> vol_inv N H G cast' r'"
proof -
  have t': "votemsg m \<longrightarrow> msg_Term m = r_Term r" using t i by (auto simp: input_ok_def vote_ok_def)
  consider (hup) "Step_Hup st env r = Some r'" | (req) "msg_MsgType m = MsgRequestVote" "Step_RequestVote m r = Some r'"
    | (follower) "Raft_stepFollower st env m r = Some (r', e)"
    | (candidate) "r_State r = StateCandidate" "Raft_stepCandidate st env m r = Some (r', e)"
    | (leader) "r_State r = StateLeader" "Raft_stepLeader st env m r = Some (r', e)"
    using step by (cases "msg_MsgType m"; cases "r_State r") (auto simp: Step_dispatch_def)
  then show ?thesis
  proof cases
    case hup
    then have "r' = r \<or> Raft_campaign st env r = Some r'"
      by (auto simp: Step_Hup_def bind_eq_Some_conv split: if_splits)
    then show ?thesis using v map_le_refl vol_inv_campaign [OF v wrap zero] by blast
  next
    case req
    with t' have "msg_Term m = r_Term r" by (simp add: votemsg_def)
    with v i req zero show ?thesis by (intro vol_inv_RequestVote)
  next
    case follower
    with v wrap zero i t show ?thesis by (rule vol_inv_stepFollower)
  next
    case candidate
    have "vol_inv N H G cast r'" by (rule vol_inv_stepCandidate [OF v candidate(1) fin i t t' candidate(2)])
    then show ?thesis using map_le_refl by blast
  next
    case leader
    have "r_Term r \<noteq> 0" using vol_invD(12) [OF v] leader(1) by simp
    then show ?thesis using vol_inv_pres [OF v pres_stepLeader [OF leader(2)]] map_le_refl by blast
  qed
qed

lemma vol_inv_Step:
  assumes v: "vol_inv N H G cast r" and wrap: "r_Term r \<noteq> - 1" "msg_Term m \<noteq> - 1" and zero: "0 \<notin> N" and fin: "finite N"
    and i: "input_ok N G r m"
    and step: "Raft_Step st env m r = Some (r', e)"
  shows "\<exists>cast'. cast \<subseteq>\<^sub>m cast' \<and> vol_inv N H G cast' r'"
proof -
  consider "msg_Term m = 0 \<or> msg_Term m = r_Term r" "Step_dispatch st env m r = Some (r', e)" | "r' = r"
    | r1 lead where "r_Term r < msg_Term m" "Raft_becomeFollower env (msg_Term m) lead r = Some r1"
      "Step_dispatch st env m r1 = Some (r', e)"
    using step by (auto simp: Raft_Step_def bind_eq_Some_conv split: if_splits)
  then show ?thesis
  proof cases
    case 1
    then show ?thesis using vol_inv_dispatch [OF v wrap(1) zero fin i] by blast
  next
    case 2
    then show ?thesis using v map_le_refl by blast
  next
    case 3
    note f = becomeFollower_frame [OF 3(2)]
    have "vol_inv N H G cast r1" by (rule vol_inv_becomeFollower [OF v _ 3(2)]) (use 3(1) in simp)
    then show ?thesis
      by (rule vol_inv_dispatch [OF _ _ zero fin _ _ 3(3)]) (use f wrap i in \<open>simp_all add: input_ok_def\<close>)
  qed
qed

lemma tick_cases:
  assumes "Raft_tick st env r = Some r'"
  obtains "pres r r'" "r_msgs r' = r_msgs r"
  | r1 m e where "pres r r1" "r_msgs r1 = r_msgs r" "Raft_Step st env m r1 = Some (r', e)" "msg_Term m = 0"
      "msg_MsgType m = MsgHup \<or> msg_MsgType m = MsgBeat" "msg_Snapshot m = None"
proof (cases "r_State r = StateLeader")
  case True
  define r1 where "r1 = r\<lparr>r_heartbeatElapsed := r_heartbeatElapsed r + 1, r_electionElapsed := r_electionElapsed r + 1\<rparr>"
  define r2 where "r2 = (if r_electionTimeout r1 \<le> r_electionElapsed r1 then
      let r' = r1\<lparr>r_electionElapsed := 0\<rparr> in
      if r_State r' = StateLeader \<and> r_leadTransferee r' \<noteq> raft_None then Raft_abortLeaderTransfer r' else r'
    else r1)"
  have "pres r r1" by (simp add: r1_def)
  also have "pres r1 r2"
    using pres_trans [of r1 "r1\<lparr>r_electionElapsed := 0\<rparr>" "Raft_abortLeaderTransfer (r1\<lparr>r_electionElapsed := 0\<rparr>)"]
    by (simp add: r2_def Let_def)
  finally have p: "pres r r2" .
  have m: "r_msgs r2 = r_msgs r" by (simp add: r1_def r2_def Raft_abortLeaderTransfer_def Let_def)
  have step: "(if r_State r2 \<noteq> StateLeader then Some r2
     else if r_heartbeatTimeout r2 \<le> r_heartbeatElapsed r2 then
       map_option fst (Raft_Step st env (pb_Message\<lparr>msg_From := r_id r2, msg_MsgType := MsgBeat\<rparr>) (r2\<lparr>r_heartbeatElapsed := 0\<rparr>))
     else Some r2) = Some r'"
    using assms True unfolding Raft_tick_def Raft_tickHeartbeat_def Let_def r1_def r2_def by simp
  have p2: "pres r (r2\<lparr>r_heartbeatElapsed := 0\<rparr>)" by (rule pres_trans [OF p]) simp
  consider "r' = r2" | e where "Raft_Step st env (pb_Message\<lparr>msg_From := r_id r2, msg_MsgType := MsgBeat\<rparr>) (r2\<lparr>r_heartbeatElapsed := 0\<rparr>) = Some (r', e)"
    using step by (auto split: if_splits)
  then show thesis
  proof cases
    case 2
    show thesis by (rule that(2) [OF p2 _ 2]) (simp_all add: m)
  qed (use that(1) p m in simp)
next
  case False
  let ?r1 = "r\<lparr>r_electionElapsed := r_electionElapsed r + 1\<rparr>"
  have "Raft_tickElection st env r = Some r'" using assms False by (cases "r_State r") (simp_all add: Raft_tick_def)
  then consider "r' = ?r1" | e where "Raft_Step st env (pb_Message\<lparr>msg_From := r_id ?r1, msg_MsgType := MsgHup\<rparr>) (?r1\<lparr>r_electionElapsed := 0\<rparr>) = Some (r', e)"
    by (auto simp: Raft_tickElection_def Let_def split: if_splits)
  then show thesis
  proof cases
    case 2
    have "pres r (?r1\<lparr>r_electionElapsed := 0\<rparr>)" by simp
    then show thesis by (rule that(2) [OF _ _ 2]) simp_all
  qed (use that(1) in simp)
qed

lemma vol_inv_tick:
  assumes v: "vol_inv N H G cast r" and wrap: "r_Term r \<noteq> - 1" and zero: "0 \<notin> N" and fin: "finite N"
    and tick: "Raft_tick st env r = Some r'"
  shows "\<exists>cast'. cast \<subseteq>\<^sub>m cast' \<and> vol_inv N H G cast' r'"
  using tick
proof (cases rule: tick_cases)
  case 1
  then show ?thesis using vol_inv_silent [OF v] map_le_refl by blast
next
  case (2 r1 m e)
  have v1: "vol_inv N H G cast r1" by (rule vol_inv_silent [OF v 2(1,2)])
  show ?thesis
    by (rule vol_inv_Step [OF v1 _ _ zero fin _ 2(3)])
      (use 2 wrap in \<open>auto simp: input_ok_def votemsg_def leadmsg_def pres_def quiet_def\<close>)
qed

end

end
