(* ===== verification/Raft_Cluster.thy ===== *)
theory Raft_Cluster
  imports Raft_Election
begin

text \<open>
  Election safety: at most one leader is ever elected in a term.  A cluster of nodes runs the
  functions of \<^verbatim>\<open>raft/raft.go\<close> and \<^verbatim>\<open>raft/rawnode.go\<close> over a network that loses, duplicates and reorders
  messages; nodes crash at any moment and restart from their stable storage, for which \<open>MemoryStorage\<close>
  is shown to fulfil the contract.
\<close>

subsection \<open>The cluster\<close>

text \<open>
  The nodes that are up, the stable storage of every node, and all messages that were ever sent; a
  message may be delivered any number of times or never.
\<close>

record 's Net =
  net_node :: "u64 \<Rightarrow> 's RawNode option"
  net_disk :: "u64 \<Rightarrow> 's"
  net_wire :: "Message set"

definition set_storage :: "'s \<Rightarrow> 's RawNode \<Rightarrow> 's RawNode" where
  "set_storage d rn = rn\<lparr>rn_Raft := (rn_Raft rn)\<lparr>r_RaftLog := (r_RaftLog (rn_Raft rn))\<lparr>rl_storage := d\<rparr>\<rparr>\<rparr>"

definition put_node :: "u64 \<Rightarrow> 's RawNode \<Rightarrow> 's Net \<Rightarrow> 's Net" where
  "put_node i rn s = s\<lparr>net_node := (net_node s)(i \<mapsto> rn),
     net_disk := (net_disk s)(i := rl_storage (r_RaftLog (rn_Raft rn)))\<rparr>"

text \<open>
  A node takes a step of the library: a message, a tick or a call of the application.  The application
  handles a \<open>Ready\<close> the way \<^verbatim>\<open>raft/doc.go\<close> prescribes: save it, send its messages, advance.  A node in the
  last term, \<open>2 ^ 64 - 1\<close>, does not step.
\<close>

inductive node_call :: "'s RaftStorage \<Rightarrow> Message set \<Rightarrow> u64 \<Rightarrow> 's RawNode \<Rightarrow> 's RawNode \<Rightarrow> bool"
  for st :: "'s RaftStorage" and wire :: "Message set" and i :: u64 where
  call_step: "m \<in> wire \<Longrightarrow> msg_To m = i \<Longrightarrow> msg_Term m \<noteq> - 1 \<Longrightarrow> env_ok env \<Longrightarrow>
    RawNode_Step st env m rn = Some (rn', e) \<Longrightarrow> node_call st wire i rn rn'"
| call_tick: "env_ok env \<Longrightarrow> RawNode_Tick st env rn = Some rn' \<Longrightarrow> node_call st wire i rn rn'"
| call_campaign: "env_ok env \<Longrightarrow> RawNode_Campaign st env rn = Some (rn', e) \<Longrightarrow> node_call st wire i rn rn'"
| call_propose: "env_ok env \<Longrightarrow> RawNode_Propose st env data rn = Some (rn', e) \<Longrightarrow> node_call st wire i rn rn'"
| call_conf_change: "env_ok env \<Longrightarrow> RawNode_ProposeConfChange marshal st env cc rn = Some (rn', e) \<Longrightarrow> node_call st wire i rn rn'"
| call_transfer: "env_ok env \<Longrightarrow> RawNode_TransferLeader st env to rn = Some rn' \<Longrightarrow> node_call st wire i rn rn'"

inductive net_step ::
  "'s RaftStorage \<Rightarrow> (Ready \<Rightarrow> 's \<Rightarrow> 's option) \<Rightarrow> ('s \<Rightarrow> 's \<Rightarrow> bool) \<Rightarrow> u64 set \<Rightarrow> 's Net \<Rightarrow> 's Net \<Rightarrow> bool"
  for st :: "'s RaftStorage" and save :: "Ready \<Rightarrow> 's \<Rightarrow> 's option" and maintain :: "'s \<Rightarrow> 's \<Rightarrow> bool" and N :: "u64 set" where
  net_call: "i \<in> N \<Longrightarrow> net_node s i = Some rn \<Longrightarrow> r_Term (rn_Raft rn) \<noteq> - 1 \<Longrightarrow> node_call st (net_wire s) i rn rn' \<Longrightarrow>
    net_step st save maintain N s (put_node i rn' s)"
| net_ready: "i \<in> N \<Longrightarrow> net_node s i = Some rn \<Longrightarrow> RawNode_Ready rn = Some (rd, rn1) \<Longrightarrow>
    save rd (net_disk s i) = Some d \<Longrightarrow> RawNode_Advance rd (set_storage d rn1) = Some rn2 \<Longrightarrow>
    net_step st save maintain N s (put_node i rn2 (s\<lparr>net_wire := net_wire s \<union> set (rd_Messages rd)\<rparr>))"
| net_maintain: "i \<in> N \<Longrightarrow> net_node s i = Some rn \<Longrightarrow> maintain (net_disk s i) d \<Longrightarrow>
    net_step st save maintain N s (put_node i (set_storage d rn) s)"
| net_crash: "i \<in> N \<Longrightarrow> net_step st save maintain N s (s\<lparr>net_node := (net_node s)(i := None)\<rparr>)"
| net_restart: "i \<in> N \<Longrightarrow> net_node s i = None \<Longrightarrow> env_ok env \<Longrightarrow> cfg_ID cfg = i \<Longrightarrow>
    cfg_Storage cfg = Some (net_disk s i) \<Longrightarrow> cfg_peers cfg = [] \<Longrightarrow> NewRawNode st env cfg = Some rn \<Longrightarrow>
    net_step st save maintain N s (put_node i rn s)"

inductive net_run ::
  "'s RaftStorage \<Rightarrow> (Ready \<Rightarrow> 's \<Rightarrow> 's option) \<Rightarrow> ('s \<Rightarrow> 's \<Rightarrow> bool) \<Rightarrow> u64 set \<Rightarrow> 's Net \<Rightarrow> 's Net \<Rightarrow> bool"
  for st :: "'s RaftStorage" and save :: "Ready \<Rightarrow> 's \<Rightarrow> 's option" and maintain :: "'s \<Rightarrow> 's \<Rightarrow> bool" and N :: "u64 set" where
  net_refl: "net_run st save maintain N s s"
| net_trans: "net_run st save maintain N s s' \<Longrightarrow> net_step st save maintain N s' s'' \<Longrightarrow> net_run st save maintain N s s''"

definition leads :: "'s Net \<Rightarrow> u64 \<Rightarrow> u64 \<Rightarrow> bool" where
  "leads s i t \<longleftrightarrow> (\<exists>rn. net_node s i = Some rn \<and> r_State (rn_Raft rn) = StateLeader \<and> r_Term (rn_Raft rn) = t)"

definition net_start :: "('s \<Rightarrow> HardState) \<Rightarrow> ('s \<Rightarrow> u64 set) \<Rightarrow> u64 set \<Rightarrow> 's Net \<Rightarrow> bool" where
  "net_start stored members N s \<longleftrightarrow> finite N \<and> 0 \<notin> N \<and> (\<forall>i. net_node s i = None) \<and> net_wire s = {} \<and>
     (\<forall>i\<in>N. members (net_disk s i) = N \<and> hs_Term (stored (net_disk s i)) = 0 \<and> hs_Vote (stored (net_disk s i)) = 0)"

subsection \<open>The invariant of the cluster\<close>

context raft_storage
begin

definition disk_inv :: "u64 set \<Rightarrow> (u64 \<Rightarrow> u64 option) \<Rightarrow> 's \<Rightarrow> bool" where
  "disk_inv N g d \<longleftrightarrow> members d = N \<and> (\<forall>t. g t \<noteq> None \<longrightarrow> t \<le> hs_Term (stored d)) \<and>
     g (hs_Term (stored d)) = (if hs_Vote (stored d) = 0 then None else Some (hs_Vote (stored d)))"

definition node_inv :: "u64 set \<Rightarrow> (u64 \<Rightarrow> u64 \<Rightarrow> u64 option) \<Rightarrow> u64 \<Rightarrow> 's \<Rightarrow> 's RawNode \<Rightarrow> bool" where
  "node_inv N G i d rn \<longleftrightarrow> (\<exists>cast. vol_inv N \<lparr>ow_id = i, ow_hard = stored d\<rparr> G cast (rn_Raft rn)) \<and>
     hs_Term (rn_prevHardSt rn) = hs_Term (stored d) \<and> hs_Vote (rn_prevHardSt rn) = hs_Vote (stored d) \<and>
     rl_storage (r_RaftLog (rn_Raft rn)) = d"

definition net_inv :: "u64 set \<Rightarrow> (u64 \<Rightarrow> u64 \<Rightarrow> u64 option) \<Rightarrow> 's Net \<Rightarrow> bool" where
  "net_inv N G s \<longleftrightarrow> finite N \<and> 0 \<notin> N \<and> (\<forall>m\<in>net_wire s. wire_ok N G m) \<and>
     (\<forall>i\<in>N. disk_inv N (G i) (net_disk s i)) \<and>
     (\<forall>i\<in>N. \<forall>rn. net_node s i = Some rn \<longrightarrow> node_inv N G i (net_disk s i) rn)"

lemma net_start_inv: "net_start stored members N s \<Longrightarrow> net_inv N (\<lambda>_ _. None) s"
  by (simp add: net_start_def net_inv_def disk_inv_def)

lemma vol_inv_id: "vol_inv N H G cast r \<Longrightarrow> r_id r = ow_id H \<and> stored (rl_storage (r_RaftLog r)) = ow_hard H \<and> members (rl_storage (r_RaftLog r)) = N"
  by (simp add: vol_inv_def conf_inv_def)

lemma vol_inv_call:
  assumes v: "vol_inv N H G cast (rn_Raft rn)" and w: "\<forall>m\<in>wire. wire_ok N G m" and wrap: "r_Term (rn_Raft rn) \<noteq> - 1"
    and i: "ow_id H = i" and zero: "0 \<notin> N" and fin: "finite N" and call: "node_call st wire i rn rn'"
  shows "\<exists>cast'. cast \<subseteq>\<^sub>m cast' \<and> vol_inv N H G cast' (rn_Raft rn') \<and> rn_prevHardSt rn' = rn_prevHardSt rn"
proof -
  have local: ?thesis if "step_raft st env m rn = Some (rn', e)" "msg_Term m = 0" "\<not> votemsg m" "\<not> leadmsg m"
    "msg_Snapshot m = None" for env m e
  proof -
    from that(1) have s: "Raft_Step st env m (rn_Raft rn) = Some (rn_Raft rn', e)" "rn_prevHardSt rn' = rn_prevHardSt rn"
      by (auto simp: step_raft_def bind_eq_Some_conv)
    show ?thesis using vol_inv_Step [OF v wrap _ zero fin _ s(1)] s(2) that by (simp add: input_ok_def)
  qed
  show ?thesis using call
  proof cases
    case (call_step m env e)
    show ?thesis
    proof (cases "step_raft st env m rn = Some (rn', e)")
      case True
      then have s: "Raft_Step st env m (rn_Raft rn) = Some (rn_Raft rn', e)" "rn_prevHardSt rn' = rn_prevHardSt rn"
        by (auto simp: step_raft_def bind_eq_Some_conv)
      have "wire_ok N G m" using w call_step by simp
      then have "input_ok N G (rn_Raft rn) m"
        using call_step i vol_inv_id [OF v] by (auto simp: wire_ok_def input_ok_def vote_ok_def)
      with vol_inv_Step [OF v wrap _ zero fin _ s(1)] s(2) call_step show ?thesis by simp
    next
      case False
      with call_step(5) have "rn' = rn" by (auto simp: RawNode_Step_def split: if_splits)
      with v show ?thesis using map_le_refl by blast
    qed
  next
    case (call_tick env)
    then have t: "Raft_tick st env (rn_Raft rn) = Some (rn_Raft rn')" "rn_prevHardSt rn' = rn_prevHardSt rn"
      by (auto simp: RawNode_Tick_def)
    with vol_inv_tick [OF v wrap zero fin t(1)] show ?thesis by simp
  next
    case (call_campaign env e)
    from call_campaign(2) [unfolded RawNode_Campaign_def] show ?thesis
      by (rule local) (simp_all add: votemsg_def leadmsg_def)
  next
    case (call_propose env data e)
    from call_propose(2) [unfolded RawNode_Propose_def] show ?thesis
      by (rule local) (simp_all add: votemsg_def leadmsg_def)
  next
    case (call_conf_change env marshal cc e)
    show ?thesis
    proof (cases "marshal cc")
      case (Inl x)
      with call_conf_change have "rn' = rn" by (simp add: RawNode_ProposeConfChange_def)
      with v show ?thesis using map_le_refl by blast
    next
      case (Inr data)
      from call_conf_change(2) [unfolded RawNode_ProposeConfChange_def Inr sum.case] show ?thesis
        by (rule local) (simp_all add: votemsg_def leadmsg_def)
    qed
  next
    case (call_transfer env to)
    then obtain e where "step_raft st env (pb_Message\<lparr>msg_MsgType := MsgTransferLeader, msg_From := to\<rparr>) rn = Some (rn', e)"
      by (auto simp: RawNode_TransferLeader_def)
    then show ?thesis by (rule local) (simp_all add: votemsg_def leadmsg_def)
  qed
qed

lemma vol_inv_mono:
  assumes v: "vol_inv N H G cast r" and le: "\<And>j. G j \<subseteq>\<^sub>m G' j" and own: "G' (r_id r) \<subseteq>\<^sub>m cast"
  shows "vol_inv N H G' cast r"
proof -
  have b: "backed G' i t x" if "backed G i t x" for i t x
    using that map_leD [OF le] by (auto simp: backed_def)
  have w: "won N G' t i" if "won N G t i" for t i using that b by (auto simp: won_def)
  have m: "vote_ok G' cast x" if "vote_ok G cast x" for x using that map_leD [OF le] by (auto simp: vote_ok_def)
  show ?thesis using v b w m own unfolding vol_inv_def by simp
qed

lemma wire_ok_mono:
  assumes "wire_ok N G m" "\<And>j. G j \<subseteq>\<^sub>m G' j"
  shows "wire_ok N G' m"
  using assms(1) map_leD [OF assms(2)] by (auto simp: wire_ok_def vote_ok_def)

lemma net_inv_call:
  assumes n: "net_inv N G s" and i: "i \<in> N" "net_node s i = Some rn" and "r_Term (rn_Raft rn) \<noteq> - 1"
    and "node_call st (net_wire s) i rn rn'"
  shows "net_inv N G (put_node i rn' s)"
proof -
  let ?d = "net_disk s i" and ?d' = "rl_storage (r_RaftLog (rn_Raft rn'))"
  have base: "finite N" "0 \<notin> N" "\<forall>m\<in>net_wire s. wire_ok N G m" and disk: "disk_inv N (G i) ?d"
    and node: "node_inv N G i ?d rn" using n i unfolding net_inv_def by blast+
  from node obtain cast where v: "vol_inv N \<lparr>ow_id = i, ow_hard = stored ?d\<rparr> G cast (rn_Raft rn)" unfolding node_inv_def by blast
  from vol_inv_call [OF v base(3) assms(4) _ base(2,1) assms(5)] obtain cast' where
    v': "vol_inv N \<lparr>ow_id = i, ow_hard = stored ?d\<rparr> G cast' (rn_Raft rn')" "rn_prevHardSt rn' = rn_prevHardSt rn" "cast \<subseteq>\<^sub>m cast'" by auto
  from vol_inv_id [OF v'(1)] have d': "stored ?d' = stored ?d" "members ?d' = N" by simp_all
  then have "node_inv N G i ?d' rn'" using v' node d' unfolding node_inv_def by auto
  moreover have "disk_inv N (G i) ?d'" using disk d' unfolding disk_inv_def by simp
  ultimately show ?thesis using n unfolding net_inv_def put_node_def by simp
qed

lemma net_inv_step_node:
  assumes n: "net_inv N G s" and i: "i \<in> N" and le: "G i \<subseteq>\<^sub>m g"
    and wire: "\<forall>m\<in>wire. wire_ok N (G(i := g)) m"
    and disk: "disk_inv N g (rl_storage (r_RaftLog (rn_Raft rn)))"
    and node: "node_inv N (G(i := g)) i (rl_storage (r_RaftLog (rn_Raft rn))) rn"
  shows "net_inv N (G(i := g)) (put_node i rn (s\<lparr>net_wire := net_wire s \<union> wire\<rparr>))"
proof -
  have le': "G j \<subseteq>\<^sub>m (G(i := g)) j" for j using le by simp
  have "node_inv N (G(i := g)) j (net_disk s j) rn'"
    if j: "j \<in> N" "j \<noteq> i" "net_node s j = Some rn'" for j rn'
  proof -
    have "node_inv N G j (net_disk s j) rn'" using n j unfolding net_inv_def by blast
    then obtain cast where v: "vol_inv N \<lparr>ow_id = j, ow_hard = stored (net_disk s j)\<rparr> G cast (rn_Raft rn')"
      and rest: "hs_Term (rn_prevHardSt rn') = hs_Term (stored (net_disk s j))"
        "hs_Vote (rn_prevHardSt rn') = hs_Vote (stored (net_disk s j))" "rl_storage (r_RaftLog (rn_Raft rn')) = net_disk s j"
      unfolding node_inv_def by blast
    have "vol_inv N \<lparr>ow_id = j, ow_hard = stored (net_disk s j)\<rparr> (G(i := g)) cast (rn_Raft rn')"
      by (rule vol_inv_mono [OF v le']) (use j(2) vol_invD(5) [OF v] vol_inv_id [OF v] in simp)
    with rest show ?thesis unfolding node_inv_def by blast
  qed
  moreover have "\<forall>m\<in>net_wire s. wire_ok N (G(i := g)) m"
    using n wire_ok_mono [of N G _ "G(i := g)"] le' unfolding net_inv_def by blast
  ultimately show ?thesis using n wire disk node unfolding net_inv_def put_node_def by auto
qed

lemma Advance_frame:
  fixes rn rn' :: "'s RawNode"
  assumes "RawNode_Advance rd rn = Some rn'"
  shows "\<exists>l. rn_Raft rn' = (rn_Raft rn)\<lparr>r_RaftLog := l\<rparr> \<and> rl_storage l = rl_storage (r_RaftLog (rn_Raft rn)) \<and>
      (rl_pending_snapshot l = rl_pending_snapshot (r_RaftLog (rn_Raft rn)) \<or> rl_pending_snapshot l = None)"
    "rn_prevHardSt rn' = (if IsEmptyHardState (rd_HardState rd) then rn_prevHardSt rn else rd_HardState rd)"
proof -
  have ap: "log_same a b" if "RaftLog_appliedTo i a = Some b" for i and a b :: "'s RaftLog"
    using that by (auto simp: RaftLog_appliedTo_def log_same_def split: if_splits)
  have stb: "log_same a b" if "RaftLog_stableTo i t a = Some b" for i t and a b :: "'s RaftLog"
    using that by (auto simp: RaftLog_stableTo_def log_same_def bind_eq_Some_conv)
  have sn: "rl_storage b = rl_storage a \<and> (rl_pending_snapshot b = rl_pending_snapshot a \<or> rl_pending_snapshot b = None)"
    if "RaftLog_stableSnapTo i a = Some b" for i and a b :: "'s RaftLog"
    using that by (auto simp: RaftLog_stableSnapTo_def bind_eq_Some_conv split: option.splits if_splits)
  define hard where "hard = (if IsEmptyHardState (rd_HardState rd) then rn_prevHardSt rn else rd_HardState rd)"
  from assms obtain l1 l2 l3 where
    l1: "(if hs_Commit hard \<noteq> 0 then RaftLog_appliedTo (hs_Commit hard) (r_RaftLog (rn_Raft rn)) else Some (r_RaftLog (rn_Raft rn))) = Some l1"
    and l2: "(if rd_Entries rd \<noteq> [] then RaftLog_stableTo (ent_Index (last (rd_Entries rd))) (ent_Term (last (rd_Entries rd))) l1
      else Some l1) = Some l2"
    and l3: "(if IsEmptySnap (Some (rd_Snapshot rd)) then Some l2 else do { md \<leftarrow> snap_Metadata (rd_Snapshot rd); RaftLog_stableSnapTo (md_Index md) l2 }) = Some l3"
    and rn': "rn_Raft rn' = (rn_Raft rn)\<lparr>r_RaftLog := l3\<rparr>" "rn_prevHardSt rn' = hard"
    unfolding RawNode_Advance_def Let_def bind_eq_Some_conv hard_def [symmetric] by fastforce
  have l3': "l3 = l2 \<or> (\<exists>i. RaftLog_stableSnapTo i l2 = Some l3)"
    using l3 by (auto simp: bind_eq_Some_conv split: if_splits)
  have "log_same (r_RaftLog (rn_Raft rn)) l1" using l1 ap [of "hs_Commit hard" "r_RaftLog (rn_Raft rn)" l1] by (auto split: if_splits)
  moreover have "log_same l1 l2" using l2 stb [where a = l1 and b = l2] by (auto split: if_splits)
  ultimately show "\<exists>l. rn_Raft rn' = (rn_Raft rn)\<lparr>r_RaftLog := l\<rparr> \<and> rl_storage l = rl_storage (r_RaftLog (rn_Raft rn)) \<and>
      (rl_pending_snapshot l = rl_pending_snapshot (r_RaftLog (rn_Raft rn)) \<or> rl_pending_snapshot l = None)"
    using l3' rn'(1) sn [where a = l2 and b = l3] by (intro exI [of _ l3]) (auto simp: log_same_def)
  show "rn_prevHardSt rn' = (if IsEmptyHardState (rd_HardState rd) then rn_prevHardSt rn else rd_HardState rd)"
    using rn'(2) by (simp add: hard_def)
qed

lemma Ready_frame:
  assumes "RawNode_Ready rn = Some (rd, rn')"
  shows "rn' = rn\<lparr>rn_Raft := (rn_Raft rn)\<lparr>r_msgs := []\<rparr>\<rparr>" "rd_Messages rd = r_msgs (rn_Raft rn)"
    "rd_HardState rd = (if isHardStateEqual (Raft_hardState (rn_Raft rn)) (rn_prevHardSt rn) then pb_HardState else Raft_hardState (rn_Raft rn))"
    "rl_pending_snapshot (r_RaftLog (rn_Raft rn)) = None \<Longrightarrow> rd_Snapshot rd = pb_Snapshot"
    "rl_pending_snapshot (r_RaftLog (rn_Raft rn)) = Some snap \<Longrightarrow> rd_Snapshot rd = snap"
  using assms by (auto simp: RawNode_Ready_def newReady_def Let_def bind_eq_Some_conv)

lemma net_inv_ready:
  assumes n: "net_inv N G s" and i: "i \<in> N" "net_node s i = Some rn" and rd: "RawNode_Ready rn = Some (rd, rn1)"
    and d: "save rd (net_disk s i) = Some d" and adv: "RawNode_Advance rd (set_storage d rn1) = Some rn2"
  shows "\<exists>g. G i \<subseteq>\<^sub>m g \<and> net_inv N (G(i := g)) (put_node i rn2 (s\<lparr>net_wire := net_wire s \<union> set (rd_Messages rd)\<rparr>))"
proof -
  let ?r = "rn_Raft rn" and ?d = "net_disk s i"
  have disk: "disk_inv N (G i) ?d" and node: "node_inv N G i ?d rn" using n i unfolding net_inv_def by blast+
  from node obtain cast where v: "vol_inv N \<lparr>ow_id = i, ow_hard = stored ?d\<rparr> G cast ?r" unfolding node_inv_def by blast
  note vd = vol_invD [OF v] and rf = Ready_frame [OF rd] and vi = vol_inv_id [OF v]
  have conf: "conf_inv N \<lparr>ow_id = i, ow_hard = stored ?d\<rparr> ?r" by (rule vd(1))
  have snap: "snap_conf N (rd_Snapshot rd)"
    using rf(4,5) conf by (cases "rl_pending_snapshot (r_RaftLog ?r)") (auto simp: conf_inv_def snap_conf_def pb_Snapshot_def)
  have mem: "members d = N" using save_members [OF d] snap disk by (simp add: disk_inv_def)
  have hard: "hs_Term (stored d) = r_Term ?r \<and> hs_Vote (stored d) = r_Vote ?r"
  proof -
    have prev: "hs_Term (rn_prevHardSt rn) = hs_Term (stored ?d)" "hs_Vote (rn_prevHardSt rn) = hs_Vote (stored ?d)"
      using node unfolding node_inv_def by blast+
    have zero: "hs_Term (stored ?d) = 0 \<and> hs_Vote (stored ?d) = 0" if "r_Term ?r = 0" "r_Vote ?r = 0"
    proof -
      have t: "hs_Term (stored ?d) = 0" using vd(13) that by simp
      have "cast 0 = None" using vd(4) that by simp
      with vd(5) vi have "G i 0 = None" by (auto simp: map_le_def dom_def)
      with disk t show ?thesis by (auto simp: disk_inv_def split: if_splits)
    qed
    show ?thesis using save_stored [OF d] rf(3) prev zero
      by (auto simp: isHardStateEqual_def IsEmptyHardState_def Raft_hardState_def pb_HardState_def split: if_splits)
  qed
  from Advance_frame(1) [OF adv] obtain l where
    l: "rn_Raft rn2 = ?r\<lparr>r_msgs := [], r_RaftLog := l\<rparr>" "rl_storage l = d"
      "rl_pending_snapshot l = rl_pending_snapshot (r_RaftLog ?r) \<or> rl_pending_snapshot l = None"
    using rf(1) by (auto simp: set_storage_def)
  let ?G = "G(i := cast)"
  have le: "G i \<subseteq>\<^sub>m cast" using vd(5) vi by simp
  have le': "G j \<subseteq>\<^sub>m ?G j" for j using le by simp
  have vm: "vol_inv N \<lparr>ow_id = i, ow_hard = stored ?d\<rparr> ?G cast ?r"
    by (rule vol_inv_mono [OF v le']) (use vi in simp)
  have "conf_inv N \<lparr>ow_id = i, ow_hard = stored d\<rparr> (rn_Raft rn2)"
    using conf l mem unfolding conf_inv_def by auto
  then have "vol_inv N \<lparr>ow_id = i, ow_hard = stored d\<rparr> ?G cast (rn_Raft rn2)"
    using vm l hard unfolding vol_inv_def by simp
  moreover have "hs_Term (rn_prevHardSt rn2) = hs_Term (stored d) \<and> hs_Vote (rn_prevHardSt rn2) = hs_Vote (stored d)"
    using Advance_frame(2) [OF adv] save_stored [OF d] rf(1) node
    by (auto simp: node_inv_def set_storage_def)
  ultimately have nd: "node_inv N ?G i (rl_storage (r_RaftLog (rn_Raft rn2))) rn2"
    using l unfolding node_inv_def by auto
  have dk: "disk_inv N cast (rl_storage (r_RaftLog (rn_Raft rn2)))"
    using l mem hard vd(3,4) unfolding disk_inv_def by simp
  have "\<forall>m\<in>set (rd_Messages rd). wire_ok N ?G m"
    using vm conf vi rf(2) unfolding wire_ok_def vol_inv_def conf_inv_def by auto
  from net_inv_step_node [OF n i(1) le this dk nd] le show ?thesis by blast
qed

lemma net_inv_maintain:
  assumes n: "net_inv N G s" and i: "i \<in> N" "net_node s i = Some rn" and m: "maintain (net_disk s i) d"
  shows "net_inv N G (put_node i (set_storage d rn) s)"
proof -
  let ?d = "net_disk s i"
  have disk: "disk_inv N (G i) ?d" and node: "node_inv N G i ?d rn" using n i unfolding net_inv_def by blast+
  from maintain_keeps [OF m] have k: "stored d = stored ?d" "members d = members ?d" by simp_all
  from node obtain cast where v: "vol_inv N \<lparr>ow_id = i, ow_hard = stored ?d\<rparr> G cast (rn_Raft rn)" unfolding node_inv_def by blast
  have "conf_inv N \<lparr>ow_id = i, ow_hard = stored ?d\<rparr> (rn_Raft (set_storage d rn))"
    using vol_invD(1) [OF v] k disk by (simp add: conf_inv_def set_storage_def disk_inv_def)
  with v have "vol_inv N \<lparr>ow_id = i, ow_hard = stored d\<rparr> G cast (rn_Raft (set_storage d rn))"
    unfolding k(1) by (simp add: vol_inv_def set_storage_def)
  then have "node_inv N G i d (set_storage d rn)" using node k unfolding node_inv_def set_storage_def by auto
  moreover have "disk_inv N (G i) d" using disk k unfolding disk_inv_def by simp
  moreover have "rl_storage (r_RaftLog (rn_Raft (set_storage d rn))) = d" by (simp add: set_storage_def)
  ultimately show ?thesis using n unfolding net_inv_def put_node_def by simp
qed

lemma fold_put_keys:
  "set (map_keys (fold (\<lambda>p. map_put p x) ps prs)) = set ps \<union> set (map_keys prs)"
  "distinct (map_keys prs) \<Longrightarrow> distinct (map_keys (fold (\<lambda>p. map_put p x) ps prs))"
  by (induction ps arbitrary: prs) (auto simp: update_keys distinct_update simp del: set_map)

lemma newLog_frame: "newLog st d = Some l \<Longrightarrow> rl_storage l = d \<and> rl_pending_snapshot l = None"
  by (auto simp: newLog_def bind_eq_Some_conv)

lemma newRaft_frame:
  assumes "newRaft st env cfg = Some r" "cfg_Storage cfg = Some d" "cfg_peers cfg = []"
  shows "r_id r = cfg_ID cfg" "r_Term r = hs_Term (stored d)" "r_Vote r = hs_Vote (stored d)" "r_State r = StateFollower"
    "r_votes r = []" "r_msgs r = []" "rl_storage (r_RaftLog r) = d" "rl_pending_snapshot (r_RaftLog r) = None"
    "set (map_keys (r_Prs r)) = members d" "distinct (map_keys (r_Prs r))"
proof -
  from assms obtain l hs cs where l: "newLog st d = Some l" and "or_panic (st_InitialState st d) = Some (hs, cs)"
    by (auto simp: newRaft_def bind_eq_Some_conv split: if_splits)
  then have init: "st_InitialState st d = Some (Inr (hs, cs))"
    by (cases "st_InitialState st d" rule: or_panic.cases) auto
  have ok: "Config_validate cfg = None" using assms(1) by (auto simp: newRaft_def split: if_splits)
  define r0 where "r0 = Raft_initial cfg (cs_Nodes cs) l"
  have "do {
      r1 \<leftarrow> (if IsEmptyHardState hs then Some r0 else Raft_loadState hs r0);
      l \<leftarrow> (if 0 < cfg_Applied cfg then RaftLog_appliedTo (cfg_Applied cfg) (r_RaftLog r1) else Some (r_RaftLog r1));
      r2 \<leftarrow> Raft_becomeFollower env (r_Term r1) raft_None (r1\<lparr>r_RaftLog := l\<rparr>);
      _ \<leftarrow> RaftLog_lastTerm (r_RaftLog r2);
      Some r2 } = Some r"
    unfolding r0_def using assms l init ok
    by (cases "cs_Nodes cs = []") (simp_all add: newRaft_def Let_def split del: if_split cong: if_cong)
  then obtain r1 l' where
    r1: "(if IsEmptyHardState hs then Some r0 else Raft_loadState hs r0) = Some r1"
    and l': "(if 0 < cfg_Applied cfg then RaftLog_appliedTo (cfg_Applied cfg) (r_RaftLog r1) else Some (r_RaftLog r1)) = Some l'"
    and r: "Raft_becomeFollower env (r_Term r1) raft_None (r1\<lparr>r_RaftLog := l'\<rparr>) = Some r"
    unfolding bind_eq_Some_conv by blast
  have f1: "r_id r1 = cfg_ID cfg" "r_Term r1 = hs_Term hs" "r_Vote r1 = hs_Vote hs" "r_msgs r1 = []"
    "r_Prs r1 = r_Prs r0" "rl_storage (r_RaftLog r1) = d" "rl_pending_snapshot (r_RaftLog r1) = None"
    using r1 newLog_frame [OF l] unfolding r0_def Raft_initial_def
    by (auto simp: Raft_loadState_def IsEmptyHardState_def isHardStateEqual_def pb_HardState_def bind_eq_Some_conv split: if_splits)
  have f2: "rl_storage l' = d" "rl_pending_snapshot l' = None"
    using l' f1 by (auto simp: RaftLog_appliedTo_def split: if_splits)
  from r obtain r2 where r2: "Raft_reset env (r_Term r1) (r1\<lparr>r_RaftLog := l'\<rparr>) = Some r2"
    "r = r2\<lparr>r_Lead := raft_None, r_State := StateFollower\<rparr>"
    by (auto simp: Raft_becomeFollower_def bind_eq_Some_conv)
  note f3 = reset_frame [OF r2(1)]
  from InitialState [OF init] have hs: "hs = stored d" "set (cs_Nodes cs) = members d" by simp_all
  have keys: "set (map_keys (r_Prs r0)) = members d" "distinct (map_keys (r_Prs r0))"
    using fold_put_keys [where x = "\<lparr>pr_Match = 0, pr_Next = 1\<rparr>" and ps = "cs_Nodes cs" and prs = "[]"] hs(2) by (simp_all add: r0_def Raft_initial_def)
  show "r_id r = cfg_ID cfg" "r_Term r = hs_Term (stored d)" "r_Vote r = hs_Vote (stored d)" "r_State r = StateFollower"
    "r_votes r = []" "r_msgs r = []" "rl_storage (r_RaftLog r) = d" "rl_pending_snapshot (r_RaftLog r) = None"
    using f1 f2 f3 r2(2) hs by simp_all
  show "set (map_keys (r_Prs r)) = members d" "distinct (map_keys (r_Prs r))" using f3(8) f1(5) r2(2) keys by simp_all
qed

lemma net_inv_restart:
  assumes n: "net_inv N G s" and i: "i \<in> N" and c: "cfg_ID cfg = i" "cfg_Storage cfg = Some (net_disk s i)" "cfg_peers cfg = []"
    and r: "NewRawNode st env cfg = Some rn"
  shows "net_inv N G (put_node i rn s)"
proof -
  let ?d = "net_disk s i"
  have disk: "disk_inv N (G i) ?d" using n i unfolding net_inv_def by blast
  from r obtain r1 where r1: "newRaft st env cfg = Some r1"
    "rn = \<lparr>rn_Raft = r1, rn_prevSoftSt = Raft_softState r1, rn_prevHardSt = Raft_hardState r1\<rparr>"
    by (auto simp: NewRawNode_def bind_eq_Some_conv split: if_splits)
  note f = newRaft_frame [OF r1(1) c(2,3)]
  have "conf_inv N \<lparr>ow_id = i, ow_hard = stored ?d\<rparr> r1" using f c disk unfolding conf_inv_def disk_inv_def by simp
  then have "vol_inv N \<lparr>ow_id = i, ow_hard = stored ?d\<rparr> G (G i) r1"
    using f c(1) i disk unfolding vol_inv_def disk_inv_def by simp
  then have "node_inv N G i ?d rn" using f r1(2) unfolding node_inv_def by (auto simp: Raft_hardState_def)
  then show ?thesis using n disk f(7) r1(2) unfolding net_inv_def put_node_def by auto
qed

lemma net_inv_step:
  assumes "net_inv N G s" "net_step st save maintain N s s'"
  shows "\<exists>G'. (\<forall>i. G i \<subseteq>\<^sub>m G' i) \<and> net_inv N G' s'"
  using assms(2,1)
proof (induction rule: net_step.induct)
  case (net_call i s rn rn')
  then show ?case using net_inv_call map_le_refl by blast
next
  case (net_ready i s rn rd rn1 d rn2)
  from net_inv_ready [OF net_ready.prems net_ready.hyps] obtain g where
    g: "G i \<subseteq>\<^sub>m g" "net_inv N (G(i := g)) (put_node i rn2 (s\<lparr>net_wire := net_wire s \<union> set (rd_Messages rd)\<rparr>))" by blast
  moreover have "\<forall>j. G j \<subseteq>\<^sub>m (G(i := g)) j" using g(1) by simp
  ultimately show ?case by blast
next
  case (net_maintain i s rn d)
  then show ?case using net_inv_maintain map_le_refl by blast
next
  case (net_crash i s)
  then have "net_inv N G (s\<lparr>net_node := (net_node s)(i := None)\<rparr>)" unfolding net_inv_def by simp
  then show ?case using map_le_refl by blast
next
  case (net_restart i s env cfg rn)
  then show ?case using net_inv_restart map_le_refl by blast
qed

lemma net_inv_run:
  assumes "net_run st save maintain N s s'" "net_inv N G s"
  shows "\<exists>G'. (\<forall>i. G i \<subseteq>\<^sub>m G' i) \<and> net_inv N G' s'"
  using assms
proof (induction rule: net_run.induct)
  case (net_refl s)
  then show ?case using map_le_refl by blast
next
  case (net_trans s s' s'')
  then obtain G1 where G1: "\<forall>i. G i \<subseteq>\<^sub>m G1 i" "net_inv N G1 s'" by blast
  from net_inv_step [OF G1(2) net_trans.hyps(2)] obtain G2 where "\<forall>i. G1 i \<subseteq>\<^sub>m G2 i" "net_inv N G2 s''" by blast
  with G1(1) show ?case using map_le_trans by blast
qed

lemma leads_won: "net_inv N G s \<Longrightarrow> i \<in> N \<Longrightarrow> leads s i t \<Longrightarrow> won N G t i"
  unfolding net_inv_def leads_def node_inv_def using vol_invD(11) vol_inv_id by fastforce

lemma won_mono: "won N G t i \<Longrightarrow> \<forall>j. G j \<subseteq>\<^sub>m G' j \<Longrightarrow> won N G' t i"
  unfolding won_def backed_def by (meson map_leD)

lemma leaders_unique:
  assumes "net_start stored members N s0" "net_run st save maintain N s0 s" "net_run st save maintain N s s'"
    and "i \<in> N" "leads s i t" "j \<in> N" "leads s' j t"
  shows "i = j"
proof -
  from net_inv_run [OF assms(2) net_start_inv [OF assms(1)]] obtain G where G: "net_inv N G s" by blast
  from net_inv_run [OF assms(3) G] obtain G' where G': "\<forall>i. G i \<subseteq>\<^sub>m G' i" "net_inv N G' s'" by blast
  have "won N G' t i" by (rule won_mono [OF leads_won [OF G assms(4,5)] G'(1)])
  moreover have "won N G' t j" by (rule leads_won [OF G'(2) assms(6,7)])
  moreover have "finite N" using assms(1) by (simp add: net_start_def)
  ultimately show ?thesis using won_unique assms(4,6) by blast
qed

end

subsection \<open>MemoryStorage as the stable storage\<close>

text \<open>What an application does with a \<open>Ready\<close>: the snapshot first, then the entries, then the hard state.\<close>

definition MemoryStorage_save :: "Ready \<Rightarrow> MemoryStorage \<Rightarrow> MemoryStorage option" where
  "MemoryStorage_save rd ms = do {
     ms1 \<leftarrow> (if IsEmptySnap (Some (rd_Snapshot rd)) then Some ms
            else or_panic (MemoryStorage_ApplySnapshot (rd_Snapshot rd) ms));
     ms2 \<leftarrow> or_panic (MemoryStorage_Append (rd_Entries rd) ms1);
     Some (if IsEmptyHardState (rd_HardState rd) then ms2 else MemoryStorage_SetHardState (rd_HardState rd) ms2)
   }"

text \<open>Its background work: snapshots of the current membership and log compaction.\<close>

definition MemoryStorage_maintain :: "MemoryStorage \<Rightarrow> MemoryStorage \<Rightarrow> bool" where
  "MemoryStorage_maintain ms ms' \<longleftrightarrow>
     (\<exists>i data snap. MemoryStorage_CreateSnapshot i None data ms = Some (Inr (snap, ms'))) \<or>
     (\<exists>i. MemoryStorage_Compact i ms = Some (Inr ms'))"

definition ms_members :: "MemoryStorage \<Rightarrow> u64 set" where
  "ms_members ms = (case snap_Metadata (ms_snapshot ms) of Some md \<Rightarrow> md_nodes md | None \<Rightarrow> {})"

lemma or_panic_Some: "or_panic x = Some y \<longleftrightarrow> x = Some (Inr y)"
  by (cases x rule: or_panic.cases) auto

lemma MemoryStorage_Append_keeps:
  "MemoryStorage_Append ents ms = Some (Inr ms') \<Longrightarrow> ms_hardState ms' = ms_hardState ms \<and> ms_snapshot ms' = ms_snapshot ms"
  by (auto simp: MemoryStorage_Append_def Let_def bind_eq_Some_conv split: list.splits if_splits)

lemma MemoryStorage_saveE:
  assumes "MemoryStorage_save rd ms = Some ms'"
  obtains ms2 where "ms_hardState ms2 = ms_hardState ms"
    "ms_snapshot ms2 = (if IsEmptySnap (Some (rd_Snapshot rd)) then ms_snapshot ms else rd_Snapshot rd)"
    "ms' = (if IsEmptyHardState (rd_HardState rd) then ms2 else MemoryStorage_SetHardState (rd_HardState rd) ms2)"
proof -
  from assms obtain ms1 ms2 where 1: "(if IsEmptySnap (Some (rd_Snapshot rd)) then Some ms
      else or_panic (MemoryStorage_ApplySnapshot (rd_Snapshot rd) ms)) = Some ms1"
    and 2: "MemoryStorage_Append (rd_Entries rd) ms1 = Some (Inr ms2)"
    and 3: "ms' = (if IsEmptyHardState (rd_HardState rd) then ms2 else MemoryStorage_SetHardState (rd_HardState rd) ms2)"
    unfolding MemoryStorage_save_def bind_eq_Some_conv or_panic_Some by fastforce
  have "ms_hardState ms1 = ms_hardState ms"
    "ms_snapshot ms1 = (if IsEmptySnap (Some (rd_Snapshot rd)) then ms_snapshot ms else rd_Snapshot rd)"
    using 1 by (auto simp: or_panic_Some MemoryStorage_ApplySnapshot_def bind_eq_Some_conv split: if_splits)
  with MemoryStorage_Append_keeps [OF 2] 3 show thesis by (intro that [of ms2]) simp_all
qed

lemma MemoryStorage_maintain_keeps:
  assumes "MemoryStorage_maintain ms ms'"
  shows "ms_hardState ms' = ms_hardState ms" "ms_members ms' = ms_members ms"
proof -
  have "ms_hardState ms' = ms_hardState ms \<and> ms_members ms' = ms_members ms"
    if "MemoryStorage_CreateSnapshot i None data ms = Some (Inr (snap, ms'))" for i data snap
  proof -
    from that obtain md where md: "snap_Metadata (ms_snapshot ms) = Some md" by (auto simp: MemoryStorage_CreateSnapshot_def bind_eq_Some_conv)
    with that show ?thesis
      by (auto simp: MemoryStorage_CreateSnapshot_def Let_def bind_eq_Some_conv ms_members_def md_nodes_def split: if_splits)
  qed
  moreover have "ms_hardState ms' = ms_hardState ms \<and> ms_snapshot ms' = ms_snapshot ms"
    if "MemoryStorage_Compact i ms = Some (Inr ms')" for i
    using that by (auto simp: MemoryStorage_Compact_def Let_def bind_eq_Some_conv split: if_splits)
  ultimately show "ms_hardState ms' = ms_hardState ms" "ms_members ms' = ms_members ms"
    using assms unfolding MemoryStorage_maintain_def ms_members_def by metis+
qed

interpretation mem: raft_storage MemoryStorage_methods MemoryStorage_save MemoryStorage_maintain ms_hardState ms_members
proof
  fix s s' :: MemoryStorage and hs cs x snap rd
  show "hs = ms_hardState s \<and> set (cs_Nodes cs) = ms_members s" if "st_InitialState MemoryStorage_methods s = Some (Inr (hs, cs))"
    using that by (auto simp: MemoryStorage_methods_def MemoryStorage_InitialState_def bind_eq_Some_conv ms_members_def md_nodes_def)
  show "ms_hardState s' = ms_hardState s \<and> ms_members s' = ms_members s" if "st_Snapshot MemoryStorage_methods s = Some (x, s')"
    using that by (simp add: MemoryStorage_methods_def MemoryStorage_Snapshot_def)
  show "snap_conf (ms_members s) snap" if "st_Snapshot MemoryStorage_methods s = Some (Inr snap, s')"
    using that by (auto simp: MemoryStorage_methods_def MemoryStorage_Snapshot_def snap_conf_def ms_members_def)
  show "ms_hardState s' = (if IsEmptyHardState (rd_HardState rd) then ms_hardState s else rd_HardState rd)"
    if "MemoryStorage_save rd s = Some s'"
    using that by (rule MemoryStorage_saveE) (simp add: MemoryStorage_SetHardState_def)
  show "ms_members s' = ms_members s" if "MemoryStorage_save rd s = Some s'" "snap_conf (ms_members s) (rd_Snapshot rd)"
  proof -
    from that(1) have "ms_snapshot s' = (if IsEmptySnap (Some (rd_Snapshot rd)) then ms_snapshot s else rd_Snapshot rd)"
      by (rule MemoryStorage_saveE) (simp add: MemoryStorage_SetHardState_def)
    then show ?thesis
    proof (cases "IsEmptySnap (Some (rd_Snapshot rd))")
      case False
      then obtain md where "snap_Metadata (rd_Snapshot rd) = Some md"
        by (cases "snap_Metadata (rd_Snapshot rd)") (simp_all add: IsEmptySnap_def)
      with that(2) have "ms_members s = md_nodes md" by (simp add: snap_conf_def)
      moreover have "ms_members s' = md_nodes md"
        using \<open>ms_snapshot s' = _\<close> False \<open>snap_Metadata (rd_Snapshot rd) = Some md\<close> by (simp add: ms_members_def)
      ultimately show ?thesis by simp
    qed (simp add: ms_members_def)
  qed
  show "ms_hardState s' = ms_hardState s \<and> ms_members s' = ms_members s" if "MemoryStorage_maintain s s'"
    using MemoryStorage_maintain_keeps [OF that] by simp
qed

subsection \<open>Election safety\<close>

text \<open>
  C1.  At most one leader per term: if node \<open>i\<close> leads term \<open>t\<close> at some moment of a run and node \<open>j\<close> leads it
  at that or any later moment, they are the same node, whatever messages were lost, repeated or reordered
  and whichever nodes crashed and restarted from their stable storage.
\<close>

theorem election_safety:
  assumes "raft_storage st save maintain stored members"
    and "net_start stored members N s0" "net_run st save maintain N s0 s" "net_run st save maintain N s s'"
    and "i \<in> N" "leads s i t" "j \<in> N" "leads s' j t"
  shows "i = j"
  by (rule raft_storage.leaders_unique [OF assms])

definition demo_env :: Env where
  "demo_env = \<lparr>env_Intn = (\<lambda>_. 0), env_order = (\<lambda>ks. ks)\<rparr>"

definition demo_disk :: MemoryStorage where
  "demo_disk = NewMemoryStorage\<lparr>ms_snapshot := pb_Snapshot\<lparr>snap_Metadata :=
     Some \<lparr>md_ConfState = Some \<lparr>cs_Nodes = [1, 2, 3]\<rparr>, md_Index = 0, md_Term = 0\<rparr>\<rparr>\<rparr>"

definition demo_cfg :: "u64 \<Rightarrow> MemoryStorage Config" where
  "demo_cfg i = \<lparr>cfg_ID = i, cfg_peers = [], cfg_ElectionTick = 10, cfg_HeartbeatTick = 1,
     cfg_Storage = Some demo_disk, cfg_Applied = 0\<rparr>"

definition ready_cycle :: "MemoryStorage RawNode \<Rightarrow> (Ready \<times> MemoryStorage RawNode) option" where
  "ready_cycle rn = do {
     (rd, rn1) \<leftarrow> RawNode_Ready rn;
     d \<leftarrow> MemoryStorage_save rd (rl_storage (r_RaftLog (rn_Raft rn)));
     rn2 \<leftarrow> RawNode_Advance rd (set_storage d rn1);
     Some (rd, rn2)
   }"

text \<open>Node 1 campaigns, node 2 grants its vote, node 1 counts it.\<close>

definition demo_election ::
  "(MemoryStorage RawNode \<times> MemoryStorage RawNode \<times> MemoryStorage RawNode \<times> Message \<times> Message \<times> MemoryStorage RawNode) option" where
  "demo_election = do {
     a0 \<leftarrow> NewRawNode MemoryStorage_methods demo_env (demo_cfg 1);
     b0 \<leftarrow> NewRawNode MemoryStorage_methods demo_env (demo_cfg 2);
     (a1, _) \<leftarrow> RawNode_Campaign MemoryStorage_methods demo_env a0;
     (rd1, a2) \<leftarrow> ready_cycle a1;
     m1 \<leftarrow> index_at (rd_Messages rd1) 0;
     (b1, _) \<leftarrow> RawNode_Step MemoryStorage_methods demo_env m1 b0;
     (rd2, b2) \<leftarrow> ready_cycle b1;
     m2 \<leftarrow> index_at (rd_Messages rd2) 0;
     (a3, _) \<leftarrow> RawNode_Step MemoryStorage_methods demo_env m2 a2;
     Some (a0, b0, a2, m1, m2, a3)
   }"

lemma demo_election_eval:
  "case demo_election of None \<Rightarrow> False | Some (a0, b0, a2, m1, m2, rn) \<Rightarrow>
     r_Term (rn_Raft a0) \<noteq> - 1 \<and> r_Term (rn_Raft b0) \<noteq> - 1 \<and> r_Term (rn_Raft a2) \<noteq> - 1 \<and>
     msg_To m1 = 2 \<and> msg_Term m1 = 1 \<and> msg_To m2 = 1 \<and> msg_Term m2 = 1 \<and>
     r_State (rn_Raft rn) = StateLeader \<and> r_Term (rn_Raft rn) = 1"
  by code_simp

text \<open>The same run as steps of the cluster.\<close>

definition demo_net :: "MemoryStorage Net" where
  "demo_net = \<lparr>net_node = (\<lambda>_. None), net_disk = (\<lambda>_. demo_disk), net_wire = {}\<rparr>"

lemma demo_start: "net_start ms_hardState ms_members {1, 2, 3} demo_net"
  by (simp add: net_start_def demo_net_def demo_disk_def ms_members_def md_nodes_def NewMemoryStorage_def pb_HardState_def)

lemma demo_env_ok: "env_ok demo_env"
  by (simp add: env_ok_def demo_env_def)

abbreviation demo_step :: "MemoryStorage Net \<Rightarrow> MemoryStorage Net \<Rightarrow> bool" where
  "demo_step \<equiv> net_step MemoryStorage_methods MemoryStorage_save MemoryStorage_maintain {1, 2, 3}"

lemma demo_restart:
  assumes "NewRawNode MemoryStorage_methods demo_env (demo_cfg i) = Some rn" "i \<in> {1, 2, 3}" "net_node s i = None" "net_disk s i = demo_disk"
  shows "demo_step s (put_node i rn s)"
  by (rule net_restart [OF assms(2,3) demo_env_ok _ _ _ assms(1)]) (simp_all add: demo_cfg_def assms(4))

lemma demo_ready:
  assumes "ready_cycle rn = Some (rd, rn')" "i \<in> {1, 2, 3}" "net_node s i = Some rn" "net_disk s i = rl_storage (r_RaftLog (rn_Raft rn))"
  shows "demo_step s (put_node i rn' (s\<lparr>net_wire := net_wire s \<union> set (rd_Messages rd)\<rparr>))"
proof -
  from assms(1) obtain rn1 d where "RawNode_Ready rn = Some (rd, rn1)"
    "MemoryStorage_save rd (rl_storage (r_RaftLog (rn_Raft rn))) = Some d" "RawNode_Advance rd (set_storage d rn1) = Some rn'"
    by (auto simp: ready_cycle_def bind_eq_Some_conv)
  with assms(4) show ?thesis by (intro net_ready [OF assms(2,3)]) simp_all
qed

lemma put_node_simps [simp]:
  "net_node (put_node i rn s) = (net_node s)(i \<mapsto> rn)" "net_wire (put_node i rn s) = net_wire s"
  "net_disk (put_node i rn s) = (net_disk s)(i := rl_storage (r_RaftLog (rn_Raft rn)))"
  by (simp_all add: put_node_def)

lemma demo_leader: "\<exists>s. net_run MemoryStorage_methods MemoryStorage_save MemoryStorage_maintain {1, 2, 3} demo_net s \<and> leads s 1 1"
proof -
  let ?st = MemoryStorage_methods and ?run = "net_run MemoryStorage_methods MemoryStorage_save MemoryStorage_maintain {1, 2, 3} demo_net"
  from demo_election_eval obtain a0 b0 a1 e1 rd1 a2 m1 b1 e2 rd2 b2 m2 a3 e3 where
    a0: "NewRawNode ?st demo_env (demo_cfg 1) = Some a0" and b0: "NewRawNode ?st demo_env (demo_cfg 2) = Some b0"
    and a1: "RawNode_Campaign ?st demo_env a0 = Some (a1, e1)" and a2: "ready_cycle a1 = Some (rd1, a2)"
    and m1: "index_at (rd_Messages rd1) 0 = Some m1" and b1: "RawNode_Step ?st demo_env m1 b0 = Some (b1, e2)"
    and b2: "ready_cycle b1 = Some (rd2, b2)" and m2: "index_at (rd_Messages rd2) 0 = Some m2"
    and a3: "RawNode_Step ?st demo_env m2 a2 = Some (a3, e3)"
    and m: "msg_To m1 = 2" "msg_Term m1 = 1" "msg_To m2 = 1" "msg_Term m2 = 1"
    and t: "r_Term (rn_Raft a0) \<noteq> - 1" "r_Term (rn_Raft b0) \<noteq> - 1" "r_Term (rn_Raft a2) \<noteq> - 1"
    and lead: "r_State (rn_Raft a3) = StateLeader" "r_Term (rn_Raft a3) = 1"
    by (auto simp: demo_election_def bind_eq_Some_conv split: option.splits simp del: index_at_Some)
  have mem: "m1 \<in> set (rd_Messages rd1)" "m2 \<in> set (rd_Messages rd2)" using m1 m2 by (auto simp: in_set_conv_nth)
  define s1 where "s1 = put_node 1 a0 demo_net"
  define s2 where "s2 = put_node 2 b0 s1"
  define s3 where "s3 = put_node 1 a1 s2"
  define s4 where "s4 = put_node 1 a2 (s3\<lparr>net_wire := net_wire s3 \<union> set (rd_Messages rd1)\<rparr>)"
  define s5 where "s5 = put_node 2 b1 s4"
  define s6 where "s6 = put_node 2 b2 (s5\<lparr>net_wire := net_wire s5 \<union> set (rd_Messages rd2)\<rparr>)"
  define s7 where "s7 = put_node 1 a3 s6"
  note defs = s1_def s2_def s3_def s4_def s5_def s6_def s7_def demo_net_def
  have "?run demo_net" by (rule net_refl)
  moreover have "demo_step demo_net s1" unfolding s1_def by (rule demo_restart [OF a0]) (simp_all add: demo_net_def)
  moreover have "demo_step s1 s2" unfolding s2_def by (rule demo_restart [OF b0]) (simp_all add: s1_def demo_net_def)
  moreover have "demo_step s2 s3" unfolding s3_def
    by (rule net_call [OF _ _ t(1) call_campaign [OF demo_env_ok a1]]) (simp_all add: defs)
  moreover have "demo_step s3 s4" unfolding s4_def by (rule demo_ready [OF a2]) (simp_all add: defs)
  moreover have "demo_step s4 s5" unfolding s5_def
    by (rule net_call [OF _ _ t(2) call_step [OF _ m(1) _ demo_env_ok b1]]) (use mem m in \<open>simp_all add: defs\<close>)
  moreover have "demo_step s5 s6" unfolding s6_def by (rule demo_ready [OF b2]) (simp_all add: defs)
  moreover have "demo_step s6 s7" unfolding s7_def
    by (rule net_call [OF _ _ t(3) call_step [OF _ m(3) _ demo_env_ok a3]]) (use mem m in \<open>simp_all add: defs\<close>)
  ultimately have "?run s7" by (meson net_trans)
  moreover have "leads s7 1 1" using lead by (simp add: leads_def s7_def)
  ultimately show ?thesis by blast
qed

theorem election_safety_witness:
  "\<exists>s i j. net_run MemoryStorage_methods MemoryStorage_save MemoryStorage_maintain {1, 2, 3} demo_net s \<and>
     leads s i 1 \<and> leads s j 1 \<and> i = j"
proof -
  obtain s where s: "net_run MemoryStorage_methods MemoryStorage_save MemoryStorage_maintain {1, 2, 3} demo_net s" "leads s 1 1"
    using demo_leader by blast
  have "(1::u64) = 1"
    by (rule election_safety [OF mem.raft_storage_axioms demo_start s(1) net_refl _ s(2) _ s(2)]) simp_all
  with s show ?thesis by blast
qed

subsection \<open>The invariant of reachable clusters\<close>

context raft_storage
begin

lemma won_durable:
  assumes "net_inv N G s" "won N G t i"
  shows "\<exists>Q\<subseteq>N. card N < 2 * card Q \<and>
    (\<forall>q\<in>Q. q \<noteq> i \<longrightarrow> t \<le> hs_Term (stored (net_disk s q)) \<and> (hs_Term (stored (net_disk s q)) = t \<longrightarrow> hs_Vote (stored (net_disk s q)) = i))"
proof -
  from assms(2) obtain Q where Q: "Q \<subseteq> N" "card N < 2 * card Q" "\<forall>v\<in>Q. backed G i t v" by (auto simp: won_def)
  have "t \<le> hs_Term (stored (net_disk s q)) \<and> (hs_Term (stored (net_disk s q)) = t \<longrightarrow> hs_Vote (stored (net_disk s q)) = i)"
    if "q \<in> Q" "q \<noteq> i" for q
  proof -
    from that Q(3) have "G q t = Some i" by (auto simp: backed_def)
    moreover from that Q(1) assms(1) have "disk_inv N (G q) (net_disk s q)" by (auto simp: net_inv_def)
    ultimately show ?thesis by (auto simp: disk_inv_def split: if_splits)
  qed
  with Q show ?thesis by blast
qed

lemma reachable_node:
  assumes "net_start stored members N s0" "net_run st save maintain N s0 s" "i \<in> N" "net_node s i = Some rn"
  shows "\<exists>G cast. net_inv N G s \<and> vol_inv N \<lparr>ow_id = i, ow_hard = stored (net_disk s i)\<rparr> G cast (rn_Raft rn) \<and>
    disk_inv N (G i) (net_disk s i)"
  using net_inv_run [OF assms(2) net_start_inv [OF assms(1)]] assms(3,4) unfolding net_inv_def node_inv_def by blast

end

text \<open>
  C24.  In every reachable state of the cluster, each running node knows exactly the members of the cluster, is in no earlier term than the one on
  its stable storage and has not changed a vote recorded there, has voted for itself in a nonzero term if it is a candidate or the
  leader, and if it leads, the votes of a majority of the members for it are on their stable storages, unless these have moved to
  a later term.
\<close>

theorem cluster_invariant:
  assumes "raft_storage st save maintain stored members"
    and "net_start stored members N s0" "net_run st save maintain N s0 s" "i \<in> N" "net_node s i = Some rn"
  defines "r \<equiv> rn_Raft rn" and "hard \<equiv> \<lambda>q. stored (net_disk s q)"
  shows "r_id r = i \<and> distinct (map_keys (r_Prs r)) \<and> set (map_keys (r_Prs r)) = N \<and>
    hs_Term (hard i) \<le> r_Term r \<and> (hs_Term (hard i) = r_Term r \<and> hs_Vote (hard i) \<noteq> 0 \<longrightarrow> r_Vote r = hs_Vote (hard i)) \<and>
    (r_State r \<noteq> StateFollower \<longrightarrow> r_Vote r = i \<and> r_Term r \<noteq> 0) \<and>
    (r_State r = StateLeader \<longrightarrow> (\<exists>Q\<subseteq>N. card N < 2 * card Q \<and>
      (\<forall>q\<in>Q. q \<noteq> i \<longrightarrow> r_Term r \<le> hs_Term (hard q) \<and> (hs_Term (hard q) = r_Term r \<longrightarrow> hs_Vote (hard q) = i))))"
proof -
  obtain G cast where G: "raft_storage.net_inv stored members N G s"
    and v: "raft_storage.vol_inv stored members N \<lparr>ow_id = i, ow_hard = hard i\<rparr> G cast r"
    and d: "raft_storage.disk_inv stored members N (G i) (net_disk s i)"
    using raft_storage.reachable_node [OF assms(1-5)] by (auto simp: r_def hard_def)
  note D = raft_storage.vol_invD [OF assms(1) v]
  have c: "r_id r = i" "distinct (map_keys (r_Prs r))" "set (map_keys (r_Prs r)) = N"
    using D(1) by (simp_all add: raft_storage.conf_inv_def [OF assms(1)])
  have "r_Vote r = hs_Vote (hard i)" if "hs_Term (hard i) = r_Term r" "hs_Vote (hard i) \<noteq> 0"
  proof -
    have "G i (r_Term r) = Some (hs_Vote (hard i))" using d that by (simp add: raft_storage.disk_inv_def [OF assms(1)] hard_def)
    then have "cast (r_Term r) = Some (hs_Vote (hard i))" using D(5) c(1) by (metis domI map_le_def)
    with D(4) show ?thesis by (simp split: if_splits)
  qed
  moreover have "\<exists>Q\<subseteq>N. card N < 2 * card Q \<and>
      (\<forall>q\<in>Q. q \<noteq> i \<longrightarrow> r_Term r \<le> hs_Term (hard q) \<and> (hs_Term (hard q) = r_Term r \<longrightarrow> hs_Vote (hard q) = i))" if "r_State r = StateLeader"
    using raft_storage.won_durable [OF assms(1) G, of "r_Term r" i] D(11) [OF that] c(1) by (simp add: hard_def)
  ultimately show ?thesis using c D(7,12,13) by auto
qed

theorem cluster_invariant_witness:
  "\<exists>s rn. net_run MemoryStorage_methods MemoryStorage_save MemoryStorage_maintain {1, 2, 3} demo_net s \<and> net_node s 1 = Some rn \<and>
     r_State (rn_Raft rn) = StateLeader \<and> r_Vote (rn_Raft rn) = 1 \<and>
     (\<exists>Q\<subseteq>{1, 2, 3}. 3 < 2 * card Q \<and> (\<forall>q\<in>Q. q \<noteq> 1 \<longrightarrow> r_Term (rn_Raft rn) \<le> hs_Term (ms_hardState (net_disk s q))))"
proof -
  obtain s rn where s: "net_run MemoryStorage_methods MemoryStorage_save MemoryStorage_maintain {1, 2, 3} demo_net s"
    and rn: "net_node s 1 = Some rn" "r_State (rn_Raft rn) = StateLeader"
    using demo_leader by (auto simp: leads_def)
  have one: "(1 :: u64) \<in> {1, 2, 3}" by simp
  note inv = cluster_invariant [OF mem.raft_storage_axioms demo_start s one rn(1)]
  from inv rn(2) obtain Q where Q: "Q \<subseteq> {1, 2, 3}" "card {1, 2, 3 :: u64} < 2 * card Q"
    "\<forall>q\<in>Q. q \<noteq> 1 \<longrightarrow> r_Term (rn_Raft rn) \<le> hs_Term (ms_hardState (net_disk s q)) \<and>
      (hs_Term (ms_hardState (net_disk s q)) = r_Term (rn_Raft rn) \<longrightarrow> hs_Vote (ms_hardState (net_disk s q)) = 1)" by blast
  have "card {1, 2, 3 :: u64} = 3" by simp
  with Q have "\<exists>Q\<subseteq>{1, 2, 3}. 3 < 2 * card Q \<and> (\<forall>q\<in>Q. q \<noteq> 1 \<longrightarrow> r_Term (rn_Raft rn) \<le> hs_Term (ms_hardState (net_disk s q)))"
    by (intro exI [of _ Q]) auto
  moreover have "r_Vote (rn_Raft rn) = 1" using inv rn(2) by simp
  ultimately show ?thesis using s rn by blast
qed

end
