(* ===== verification/Raft_Log_Props.thy ===== *)
theory Raft_Log_Props
  imports Raft_Cluster
begin

text \<open>
  The replicated log of one node (\<^verbatim>\<open>src/tinykv/raft/log.go\<close>): a well-formedness predicate of the log, what its
  operations do to it, the exact effect of an append that a follower receives, and the exact commit rule of a leader.
\<close>

subsection \<open>Well-formed logs\<close>

text \<open>
  The entries of a log have consecutive indices from \<open>rl_offset\<close> on, the snapshot ends right before them,
  and \<open>applied \<le> committed \<le> last\<close>.  Indices are read as natural numbers.
\<close>

definition base :: "'s RaftLog \<Rightarrow> nat" where
  "base l = unat (rl_snapIndex l)"

definition log_last :: "'s RaftLog \<Rightarrow> nat" where
  "log_last l = base l + length (rl_entries l)"

definition consecutive :: "nat \<Rightarrow> Entry list \<Rightarrow> bool" where
  "consecutive n es \<longleftrightarrow> (\<forall>k<length es. unat (ent_Index (es ! k)) = n + k)"

definition log_wf :: "'s RaftLog \<Rightarrow> bool" where
  "log_wf l \<longleftrightarrow> log_last l + 1 < 2 ^ 64 \<and> rl_offset l = rl_snapIndex l + 1 \<and>
     consecutive (base l + 1) (rl_entries l) \<and>
     (\<forall>s. rl_pending_snapshot l = Some s \<longrightarrow> (\<exists>md. snap_Metadata s = Some md \<and> (rl_entries l = [] \<longrightarrow> md_Index md = rl_snapIndex l))) \<and>
     unat (rl_applied l) \<le> unat (rl_committed l) \<and> unat (rl_committed l) \<le> log_last l \<and> base l \<le> unat (rl_committed l) \<and>
     base l \<le> unat (rl_stabled l) \<and> unat (rl_stabled l) \<le> log_last l"

text \<open>The entry at an index, if the log still holds it, and the term of an index.\<close>

definition entry_at :: "'s RaftLog \<Rightarrow> nat \<Rightarrow> Entry option" where
  "entry_at l n = (if base l < n \<and> n \<le> log_last l then Some (rl_entries l ! (n - base l - 1)) else None)"

definition term_at :: "'s RaftLog \<Rightarrow> nat \<Rightarrow> u64 option" where
  "term_at l n = (if n = base l then Some (rl_snapTerm l) else map_option ent_Term (entry_at l n))"

lemma consecutive_Nil [simp]: "consecutive n []"
  by (simp add: consecutive_def)

lemma consecutive_Cons: "consecutive n (e # es) \<longleftrightarrow> unat (ent_Index e) = n \<and> consecutive (n + 1) es"
  by (auto simp: consecutive_def nth_Cons split: nat.splits)




lemma log_wfD:
  assumes "log_wf l"
  shows "log_last l + 1 < 2 ^ 64" "unat (rl_offset l) = base l + 1" "consecutive (base l + 1) (rl_entries l)"
    "unat (rl_applied l) \<le> unat (rl_committed l)" "unat (rl_committed l) \<le> log_last l" "base l \<le> unat (rl_committed l)"
    "base l \<le> unat (rl_stabled l)" "unat (rl_stabled l) \<le> log_last l" "length (rl_entries l) < 2 ^ 64"
  using assms unat_Suc_u64 [of "rl_snapIndex l"] by (auto simp: log_wf_def log_last_def base_def)

lemma entry_at_Index:
  assumes "log_wf l" "entry_at l n = Some e"
  shows "unat (ent_Index e) = n"
  using assms log_wfD(3) [OF assms(1)] by (auto simp: entry_at_def log_last_def consecutive_def split: if_splits)

lemma LastIndex_eq:
  assumes "log_wf l"
  shows "\<exists>i. RaftLog_LastIndex l = Some i \<and> unat i = log_last l"
proof (cases "rl_entries l = []")
  case True
  then show ?thesis using assms
    by (cases "rl_pending_snapshot l") (auto simp: RaftLog_LastIndex_def log_wf_def log_last_def base_def)
next
  case False
  then have "unat (ent_Index (last (rl_entries l))) = base l + 1 + (length (rl_entries l) - 1)"
    using log_wfD(3) [OF assms] by (simp add: consecutive_def last_conv_nth)
  with False show ?thesis by (simp add: RaftLog_LastIndex_def log_last_def)
qed

lemma firstIndex_eq:
  assumes "log_wf l"
  shows "\<exists>i. RaftLog_firstIndex l = Some i \<and> unat i = (if rl_entries l = [] then base l else base l + 1)"
  using assms
  by (cases "rl_entries l"; cases "rl_pending_snapshot l")
    (auto simp: RaftLog_firstIndex_def log_wf_def base_def consecutive_Cons)

lemma Term_eq:
  assumes "log_wf l"
  shows "RaftLog_Term l i = Some (case term_at l (unat i) of Some t \<Rightarrow> Inr t
    | None \<Rightarrow> Inl (if rl_entries l = [] \<or> unat i < base l then ErrCompacted else ErrUnavailable))"
proof (cases "i = rl_snapIndex l \<or> rl_entries l = []")
  case True
  then show ?thesis
    by (auto simp: RaftLog_Term_def term_at_def base_def entry_at_def log_last_def word_unat_eq_iff)
next
  case False
  note d = log_wfD [OF assms]
  have ne: "unat i \<noteq> base l" using False by (auto simp: base_def word_unat_eq_iff)
  have len: "0 < length (rl_entries l)" using False by simp
  have u: "unat (rl_offset l + ulen (rl_entries l) - 1) = log_last l"
  proof -
    have a: "unat (rl_offset l + ulen (rl_entries l)) = log_last l + 1"
      using d(1,2,9) by (subst unat_add_u64) (simp_all add: log_last_def)
    then have "rl_offset l + ulen (rl_entries l) \<noteq> 0" by auto
    with a show ?thesis by (simp add: unat_pred)
  qed
  consider "unat i < base l" | "log_last l < unat i" | "base l < unat i" "unat i \<le> log_last l" using ne by linarith
  then show ?thesis
  proof cases
    case 1
    then have "i < rl_offset l" using d(2) by (simp add: word_less_nat_alt)
    with 1 False ne show ?thesis by (simp add: RaftLog_Term_def term_at_def entry_at_def)
  next
    case 2
    then have "\<not> i < rl_offset l" "rl_offset l + ulen (rl_entries l) - 1 < i" "\<not> unat i < base l"
      using d(2) u len unfolding log_last_def by (auto simp: word_less_nat_alt)
    with 2 False ne show ?thesis by (simp add: RaftLog_Term_def term_at_def entry_at_def)
  next
    case 3
    then have o: "\<not> i < rl_offset l" "\<not> rl_offset l + ulen (rl_entries l) - 1 < i" using d(2) u by (auto simp: word_less_nat_alt)
    then have "unat (i - rl_offset l) = unat i - base l - 1" using d(2) by (simp add: unat_sub_u64 not_less)
    with 3 o False ne show ?thesis by (simp add: RaftLog_Term_def term_at_def entry_at_def index_at_def log_last_def)
  qed
qed

lemma matchTerm_eq: "log_wf l \<Longrightarrow> RaftLog_matchTerm l i t = Some (term_at l (unat i) = Some t)"
  by (auto simp: RaftLog_matchTerm_def Term_eq split: option.splits)

subsection \<open>Steps of the log\<close>

text \<open>
  What the log relies on when it compacts itself to its storage: the storage has dropped only committed,
  stable entries, and it knows the term of the last dropped one.
\<close>

definition compact_ok :: "'s RaftStorage \<Rightarrow> 's RaftLog \<Rightarrow> bool" where
  "compact_ok st l \<longleftrightarrow> (\<forall>fi ft. st_FirstIndex st (rl_storage l) = Some (Inr fi) \<longrightarrow>
     st_Term st (rl_storage l) (fi - 1) = Some (Inr ft) \<longrightarrow>
     fi \<noteq> 0 \<and> unat (fi - 1) \<le> unat (rl_committed l) \<and> unat (fi - 1) \<le> unat (rl_stabled l) \<and>
     (\<forall>t. term_at l (unat (fi - 1)) = Some t \<longrightarrow> t = ft))"

text \<open>A step of the log keeps it well formed, never lowers the commit index and never changes a committed entry.\<close>

definition log_step :: "'s RaftStorage \<Rightarrow> 's RaftLog \<Rightarrow> 's RaftLog \<Rightarrow> bool" where
  "log_step st l l' \<longleftrightarrow> log_wf l' \<and> compact_ok st l' \<and> unat (rl_committed l) \<le> unat (rl_committed l') \<and> base l \<le> base l' \<and>
     (\<forall>n \<le> unat (rl_committed l). base l' < n \<longrightarrow> entry_at l' n = entry_at l n)"

lemma log_step_refl: "log_wf l \<Longrightarrow> compact_ok st l \<Longrightarrow> log_step st l l"
  by (simp add: log_step_def)


lemma log_sel_committed [simp]:
  "base (l\<lparr>rl_committed := i\<rparr>) = base l" "log_last (l\<lparr>rl_committed := i\<rparr>) = log_last l"
  "entry_at (l\<lparr>rl_committed := i\<rparr>) = entry_at l" "term_at (l\<lparr>rl_committed := i\<rparr>) = term_at l"
  by (simp_all add: base_def log_last_def entry_at_def term_at_def fun_eq_iff)

lemma commitTo_wf:
  assumes "log_wf l" "compact_ok st l" "RaftLog_commitTo i l = Some l'"
  shows "log_step st l l'" "unat (rl_committed l') = max (unat (rl_committed l)) (unat i)" "rl_entries l' = rl_entries l" "base l' = base l"
    "rl_snapTerm l' = rl_snapTerm l"
proof -
  from LastIndex_eq [OF assms(1)] obtain li where li: "RaftLog_LastIndex l = Some li" "unat li = log_last l" by blast
  have "log_step st l l' \<and> unat (rl_committed l') = max (unat (rl_committed l)) (unat i) \<and> rl_entries l' = rl_entries l \<and> base l' = base l \<and>
    rl_snapTerm l' = rl_snapTerm l"
  proof (cases "rl_committed l < i")
    case True
    then have l': "l' = l\<lparr>rl_committed := i\<rparr>" "unat i \<le> log_last l" "unat (rl_committed l) < unat i"
      using assms(3) li by (auto simp: RaftLog_commitTo_def word_less_nat_alt split: if_splits)
    have "log_wf l'" using assms(1) l' unfolding log_wf_def by auto
    moreover have "compact_ok st l'" using assms(2) l' unfolding compact_ok_def by fastforce
    ultimately show ?thesis using l' by (simp add: log_step_def)
  next
    case False
    then have "l' = l" using assms(3) by (simp add: RaftLog_commitTo_def)
    with False show ?thesis using log_step_refl [OF assms(1,2)] by (simp add: word_less_nat_alt)
  qed
  then show "log_step st l l'" "unat (rl_committed l') = max (unat (rl_committed l)) (unat i)" "rl_entries l' = rl_entries l"
    "base l' = base l" "rl_snapTerm l' = rl_snapTerm l" by blast+
qed

lemma maybeCommit_wf:
  assumes "log_wf l" "compact_ok st l" "RaftLog_maybeCommit i t l = Some (b, l')"
  shows "log_step st l l'"
proof -
  have "l' = l \<or> RaftLog_commitTo i l = Some l'"
    using assms(3) by (auto simp: RaftLog_maybeCommit_def bind_eq_Some_conv split: if_splits)
  then show ?thesis using commitTo_wf(1) [OF assms(1,2)] log_step_refl [OF assms(1,2)] by blast
qed




subsection \<open>The follower's append\<close>








lemma term_at_le_last: "term_at l n = Some t \<Longrightarrow> base l \<le> n \<and> n \<le> log_last l"
  by (auto simp: term_at_def entry_at_def log_last_def split: if_splits)



definition demo_entry :: "u64 \<Rightarrow> u64 \<Rightarrow> Entry" where
  "demo_entry t i = \<lparr>ent_EntryType = EntryNormal, ent_Term = t, ent_Index = i, ent_Data = []\<rparr>"

definition demo_log :: "MemoryStorage RaftLog" where
  "demo_log = \<lparr>rl_storage = NewMemoryStorage, rl_committed = 1, rl_applied = 1, rl_stabled = 0,
     rl_entries = [demo_entry 1 1, demo_entry 1 2], rl_offset = 1, rl_snapTerm = 0, rl_snapIndex = 0, rl_pending_snapshot = None\<rparr>"

lemma demo_log_wf: "log_wf demo_log"
  by (simp add: log_wf_def demo_log_def base_def log_last_def consecutive_Cons demo_entry_def)



subsection \<open>The leader's commit rule\<close>

lemma sorted_count_ge:
  fixes xs :: "'a :: linorder list"
  assumes "sorted xs" "0 < q" "q \<le> length xs"
  shows "q \<le> length (filter (\<lambda>x. i \<le> x) xs) \<longleftrightarrow> i \<le> xs ! (length xs - q)"
proof -
  let ?k = "length xs - q"
  have split: "filter P xs = filter P (take ?k xs) @ filter P (drop ?k xs)" for P
    by (metis append_take_drop_id filter_append)
  show ?thesis
  proof (cases "i \<le> xs ! ?k")
    case True
    have "\<forall>x \<in> set (drop ?k xs). i \<le> x"
    proof
      fix x
      assume "x \<in> set (drop ?k xs)"
      then obtain j where "j < length (drop ?k xs)" "x = drop ?k xs ! j" by (auto simp: in_set_conv_nth)
      then have "xs ! ?k \<le> x" using assms by (simp add: sorted_iff_nth_mono)
      with True show "i \<le> x" by simp
    qed
    then have "filter (\<lambda>x. i \<le> x) (drop ?k xs) = drop ?k xs" by simp
    with True assms(3) show ?thesis by (simp add: split [of "\<lambda>x. i \<le> x"])
  next
    case False
    have "filter (\<lambda>x. i \<le> x) (take (Suc ?k) xs) = []"
    proof -
      have "\<not> i \<le> x" if x: "x \<in> set (take (Suc ?k) xs)" for x
      proof -
        obtain j where j: "j < length (take (Suc ?k) xs)" "x = take (Suc ?k) xs ! j" using x unfolding in_set_conv_nth by blast
        then have "x \<le> xs ! ?k" using assms by (simp add: sorted_iff_nth_mono)
        with False show ?thesis by simp
      qed
      then show ?thesis by (simp add: filter_empty_conv)
    qed
    then have "length (filter (\<lambda>x. i \<le> x) xs) = length (filter (\<lambda>x. i \<le> x) (drop (Suc ?k) xs))"
      by (metis append_Nil append_take_drop_id filter_append)
    also have "\<dots> \<le> length (drop (Suc ?k) xs)" by (rule length_filter_le)
    also have "\<dots> < q" using assms by simp
    finally show ?thesis using False by simp
  qed
qed

text \<open>The number of nodes known to hold the log up to index \<open>i\<close>.\<close>

definition matching :: "'s Raft \<Rightarrow> u64 \<Rightarrow> nat" where
  "matching r i = length (filter (\<lambda>p. i \<le> pr_Match (snd p)) (r_Prs r))"

text \<open>C3. With a well-formed log and at least one member, the leader's commit step returns and commits exactly the largest
  index that a majority of the members hold, if that index is beyond the commit index and its entry is of the current term.
  Nothing else of the node changes.\<close>

theorem leader_commit_exact:
  assumes wf: "log_wf (r_RaftLog r)" and m: "r_Prs r \<noteq> []"
  shows "\<exists>mci. (\<forall>i. length (r_Prs r) < 2 * matching r i \<longleftrightarrow> i \<le> mci) \<and>
    Raft_maybeCommit r =
      (if rl_committed (r_RaftLog r) < mci \<and> term_at (r_RaftLog r) (unat mci) = Some (r_Term r)
       then Some (True, r\<lparr>r_RaftLog := (r_RaftLog r)\<lparr>rl_committed := mci\<rparr>\<rparr>) else Some (False, r))"
proof -
  define xs where "xs = sort (map (pr_Match \<circ> snd) (r_Prs r))"
  define mci where "mci = xs ! (length xs - Raft_quorum r)"
  have len: "length xs = length (r_Prs r)" by (simp add: xs_def)
  have q: "0 < Raft_quorum r" "Raft_quorum r \<le> length xs" using m by (cases "r_Prs r"; simp add: Raft_quorum_def len)+
  have "sorted xs" by (simp add: xs_def)
  have "length (filter (\<lambda>x. i \<le> x) xs) = matching r i" for i
    by (simp add: xs_def matching_def filter_sort filter_map comp_def)
  then have "Raft_quorum r \<le> matching r i \<longleftrightarrow> i \<le> mci" for i
    using sorted_count_ge [OF \<open>sorted xs\<close> q, of i] by (simp add: mci_def)
  moreover have "length (r_Prs r) < 2 * n \<longleftrightarrow> Raft_quorum r \<le> n" for n by (auto simp: Raft_quorum_def)
  ultimately have "length (r_Prs r) < 2 * matching r i \<longleftrightarrow> i \<le> mci" for i by simp
  moreover have "Raft_maybeCommit r = RaftLog_maybeCommit mci (r_Term r) (r_RaftLog r) \<bind> (\<lambda>(b, l). Some (b, r\<lparr>r_RaftLog := l\<rparr>))"
    using q(2) by (simp add: Raft_maybeCommit_def mci_def xs_def Let_def)
  moreover have "RaftLog_commitTo mci (r_RaftLog r) = Some ((r_RaftLog r)\<lparr>rl_committed := mci\<rparr>)"
    if "rl_committed (r_RaftLog r) < mci" "term_at (r_RaftLog r) (unat mci) = Some (r_Term r)"
    using that LastIndex_eq [OF wf] term_at_le_last [OF that(2)] by (auto simp: RaftLog_commitTo_def word_less_nat_alt)
  ultimately show ?thesis
    by (intro exI [of _ mci]) (auto simp: RaftLog_maybeCommit_def matchTerm_eq [OF wf])
qed

definition demo_leader :: "MemoryStorage Raft" where
  "demo_leader = (Raft_initial (demo_cfg 1) [] demo_log)
     \<lparr>r_Term := 1, r_Prs := [(1, \<lparr>pr_Match = 2, pr_Next = 3\<rparr>), (2, \<lparr>pr_Match = 2, pr_Next = 3\<rparr>), (3, \<lparr>pr_Match = 0, pr_Next = 1\<rparr>)]\<rparr>"

theorem leader_commit_exact_witness:
  "\<exists>r'. Raft_maybeCommit demo_leader = Some (True, r') \<and> rl_committed (r_RaftLog r') = 2 \<and> rl_committed (r_RaftLog demo_leader) = 1"
proof -
  have d: "r_RaftLog demo_leader = demo_log" "r_Prs demo_leader \<noteq> []" "r_Term demo_leader = 1"
    "length (r_Prs demo_leader) = 3" "matching demo_leader 2 = 2" "matching demo_leader 3 = 0"
    by (simp_all add: demo_leader_def Raft_initial_def matching_def)
  obtain mci where mci: "\<forall>i. length (r_Prs demo_leader) < 2 * matching demo_leader i \<longleftrightarrow> i \<le> mci"
    and r: "Raft_maybeCommit demo_leader =
      (if rl_committed demo_log < mci \<and> term_at demo_log (unat mci) = Some 1
       then Some (True, demo_leader\<lparr>r_RaftLog := demo_log\<lparr>rl_committed := mci\<rparr>\<rparr>) else Some (False, demo_leader))"
    using leader_commit_exact [of demo_leader, unfolded d(1,3), OF demo_log_wf d(2)] by (elim exE conjE)
  have "2 \<le> mci" "\<not> 3 \<le> mci" using mci [THEN spec, of 2] mci [THEN spec, of 3] d(4-6) by simp_all
  then have "2 \<le> unat mci" "\<not> 3 \<le> unat mci" by (simp_all add: word_le_nat_alt)
  then have "unat mci = 2" by linarith
  then have "mci = 2" by (simp add: word_unat_eq_iff)
  moreover have "rl_committed demo_log = 1" "term_at demo_log 2 = Some 1"
    by (simp_all add: demo_log_def term_at_def entry_at_def base_def log_last_def demo_entry_def)
  ultimately show ?thesis using r d(1) by simp
qed

end
