(* ===== verification/Raft_Meta.thy ===== *)
theory Raft_Meta
  imports Engine Raft_Storage
begin

text \<open>
  The metadata of a Raft peer in the embedded store: the keys of \<^verbatim>\<open>kv/raftstore/meta/keys.go\<close> and the values of
  \<^verbatim>\<open>kv/raftstore/meta/values.go\<close>.  The message codecs generated from the protocol files are parameters, collected in the
  record \<open>pb_codecs\<close>.
\<close>

subsection \<open>Keys\<close>

definition LocalPrefix :: byte where
  "LocalPrefix = 0x01"

definition RegionRaftPrefix :: byte where
  "RegionRaftPrefix = 0x02"

definition RegionMetaPrefix :: byte where
  "RegionMetaPrefix = 0x03"

definition RegionRaftLogLen :: nat where
  "RegionRaftLogLen = 19"

definition RaftLogSuffix :: byte where
  "RaftLogSuffix = 0x01"

definition RaftStateSuffix :: byte where
  "RaftStateSuffix = 0x02"

definition ApplyStateSuffix :: byte where
  "ApplyStateSuffix = 0x03"

definition RegionStateSuffix :: byte where
  "RegionStateSuffix = 0x01"

definition RegionMetaMinKey :: bytes where
  "RegionMetaMinKey = [LocalPrefix, RegionMetaPrefix]"

definition makeRegionPrefix :: "u64 \<Rightarrow> byte \<Rightarrow> bytes" where
  "makeRegionPrefix regionID suffix = [LocalPrefix, RegionRaftPrefix] @ PutUint64 regionID @ [suffix]"

definition makeRegionKey :: "u64 \<Rightarrow> byte \<Rightarrow> u64 \<Rightarrow> bytes" where
  "makeRegionKey regionID suffix subID = [LocalPrefix, RegionRaftPrefix] @ PutUint64 regionID @ [suffix] @ PutUint64 subID"

definition RegionRaftPrefixKey :: "u64 \<Rightarrow> bytes" where
  "RegionRaftPrefixKey regionID = [LocalPrefix, RegionRaftPrefix] @ PutUint64 regionID"

definition RaftLogKey :: "u64 \<Rightarrow> u64 \<Rightarrow> bytes" where
  "RaftLogKey regionID idx = makeRegionKey regionID RaftLogSuffix idx"

definition RaftStateKey :: "u64 \<Rightarrow> bytes" where
  "RaftStateKey regionID = makeRegionPrefix regionID RaftStateSuffix"

definition ApplyStateKey :: "u64 \<Rightarrow> bytes" where
  "ApplyStateKey regionID = makeRegionPrefix regionID ApplyStateSuffix"

definition IsRaftStateKey :: "bytes \<Rightarrow> bool" where
  "IsRaftStateKey key \<longleftrightarrow> length key = 11 \<and> key ! 0 = LocalPrefix \<and> key ! 1 = RegionRaftPrefix"

definition DecodeRegionMetaKey :: "bytes \<Rightarrow> string + u64 \<times> byte" where
  "DecodeRegionMetaKey key =
     (if length RegionMetaMinKey + 8 + 1 \<noteq> length key
      then Inl (''invalid region meta key length for key '' @ fmt_bytes key)
      else if take (length RegionMetaMinKey) key \<noteq> RegionMetaMinKey
      then Inl (''invalid region meta key prefix for key '' @ fmt_bytes key)
      else case Uint64 (drop (length RegionMetaMinKey) key) of
             Some regionID \<Rightarrow> Inr (regionID, key ! (length key - 1))
           | None \<Rightarrow> Inl '''')"

definition RegionMetaPrefixKey :: "u64 \<Rightarrow> bytes" where
  "RegionMetaPrefixKey regionID = [LocalPrefix, RegionMetaPrefix] @ PutUint64 regionID"

definition RegionStateKey :: "u64 \<Rightarrow> bytes" where
  "RegionStateKey regionID = [LocalPrefix, RegionMetaPrefix] @ PutUint64 regionID @ [RegionStateSuffix]"

definition RaftLogIndex :: "bytes \<Rightarrow> string + u64" where
  "RaftLogIndex key =
     (if length key \<noteq> RegionRaftLogLen then Inl (''key '' @ fmt_bytes key @ '' is not a valid raft log key'')
      else case Uint64 (drop (RegionRaftLogLen - 8) key) of Some idx \<Rightarrow> Inr idx | None \<Rightarrow> Inl '''')"

lemma RaftLogKey_eq [simp]: "RaftLogKey r i = RaftLogKey r' j \<longleftrightarrow> r = r' \<and> i = j"
  by (auto simp: RaftLogKey_def makeRegionKey_def)

lemma RaftLogKey_less: "RaftLogKey r i < RaftLogKey r j \<longleftrightarrow> i < j"
  by (simp add: RaftLogKey_def makeRegionKey_def PutUint64_less)

lemma RaftLogKey_le: "RaftLogKey r i \<le> RaftLogKey r j \<longleftrightarrow> i \<le> j"
  using RaftLogKey_less [of r j i] by (metis not_less)

lemma RaftLogIndex_RaftLogKey: "RaftLogIndex (RaftLogKey r i) = Inr i"
  by (simp add: RaftLogIndex_def RaftLogKey_def makeRegionKey_def RegionRaftLogLen_def)

lemma DecodeRegionMetaKey_RegionStateKey: "DecodeRegionMetaKey (RegionStateKey r) = Inr (r, RegionStateSuffix)"
  by (simp add: DecodeRegionMetaKey_def RegionStateKey_def RegionMetaMinKey_def nth_append)

lemma meta_keys_distinct [simp]:
  "RaftLogKey r i \<noteq> RaftStateKey r'" "RaftLogKey r i \<noteq> ApplyStateKey r'" "RaftLogKey r i \<noteq> RegionStateKey r'"
  "RaftStateKey r \<noteq> RaftLogKey r' i"
  by (simp_all add: RaftLogKey_def RaftStateKey_def ApplyStateKey_def RegionStateKey_def makeRegionKey_def makeRegionPrefix_def
      RegionRaftPrefix_def RegionMetaPrefix_def RaftLogSuffix_def RaftStateSuffix_def ApplyStateSuffix_def)

subsection \<open>Values\<close>

record RaftLocalState =
  rs_HardState :: "HardState option"
  rs_LastIndex :: u64
  rs_LastTerm :: u64

record RaftTruncatedState =
  ts_Index :: u64
  ts_Term :: u64

record RaftApplyState =
  as_AppliedIndex :: u64
  as_TruncatedState :: "RaftTruncatedState option"

datatype PeerState = PeerState_Normal | PeerState_Tombstone

record RegionLocalState =
  ls_State :: PeerState
  ls_Region :: "metapb_Region option"

text \<open>\<^verbatim>\<open>Marshal\<close> and \<^verbatim>\<open>Unmarshal\<close> of the messages kept in the store, and the region in the data of a snapshot.\<close>

record 'm codec =
  co_Marshal :: "'m \<Rightarrow> badger_error + gobytes"
  co_Unmarshal :: "gobytes \<Rightarrow> badger_error + 'm"

record pb_codecs =
  co_Entry :: "Entry codec"
  co_RaftLocalState :: "RaftLocalState codec"
  co_RaftApplyState :: "RaftApplyState codec"
  co_RegionLocalState :: "RegionLocalState codec"
  co_SnapshotRegion :: "bytes \<Rightarrow> badger_error + metapb_Region option"

definition GetRegionLocalState :: "('d, 't, 'i) badger \<Rightarrow> pb_codecs \<Rightarrow> 'd \<Rightarrow> u64 \<Rightarrow> badger_error + RegionLocalState" where
  "GetRegionLocalState B C db regionId = GetMeta B (co_Unmarshal (co_RegionLocalState C)) db (RegionStateKey regionId)"

definition GetRaftLocalState :: "('d, 't, 'i) badger \<Rightarrow> pb_codecs \<Rightarrow> 'd \<Rightarrow> u64 \<Rightarrow> badger_error + RaftLocalState" where
  "GetRaftLocalState B C db regionId = GetMeta B (co_Unmarshal (co_RaftLocalState C)) db (RaftStateKey regionId)"

definition GetApplyState :: "('d, 't, 'i) badger \<Rightarrow> pb_codecs \<Rightarrow> 'd \<Rightarrow> u64 \<Rightarrow> badger_error + RaftApplyState" where
  "GetApplyState B C db regionId = GetMeta B (co_Unmarshal (co_RaftApplyState C)) db (ApplyStateKey regionId)"

definition GetRaftEntry :: "('d, 't, 'i) badger \<Rightarrow> pb_codecs \<Rightarrow> 'd \<Rightarrow> u64 \<Rightarrow> u64 \<Rightarrow> badger_error + Entry" where
  "GetRaftEntry B C db regionId idx = GetMeta B (co_Unmarshal (co_Entry C)) db (RaftLogKey regionId idx)"

definition RaftInitLogTerm :: u64 where
  "RaftInitLogTerm = 5"

definition RaftInitLogIndex :: u64 where
  "RaftInitLogIndex = 5"

definition InitRaftLocalState ::
  "('d, 't, 'i) badger \<Rightarrow> pb_codecs \<Rightarrow> 'd \<Rightarrow> metapb_Region \<Rightarrow> badger_error + RaftLocalState \<times> 'd" where
  "InitRaftLocalState B C raftEngine region =
     (case GetRaftLocalState B C raftEngine (rg_Id region) of
        Inr raftState \<Rightarrow> Inr (raftState, raftEngine)
      | Inl err \<Rightarrow>
          (if err \<noteq> ErrKeyNotFound then Inl err
           else if length (rg_Peers region) > 0
           then let raftState = \<lparr>rs_HardState = Some \<lparr>hs_Term = RaftInitLogTerm, hs_Vote = 0, hs_Commit = RaftInitLogIndex\<rparr>,
                      rs_LastIndex = RaftInitLogIndex, rs_LastTerm = RaftInitLogTerm\<rparr>
                in (case PutMeta B (co_Marshal (co_RaftLocalState C)) raftEngine (RaftStateKey (rg_Id region)) raftState of
                      Inl err \<Rightarrow> Inl err
                    | Inr db \<Rightarrow> Inr (raftState, db))
           else Inr (\<lparr>rs_HardState = Some pb_HardState, rs_LastIndex = 0, rs_LastTerm = 0\<rparr>, raftEngine)))"

definition InitApplyState ::
  "('d, 't, 'i) badger \<Rightarrow> pb_codecs \<Rightarrow> 'd \<Rightarrow> metapb_Region \<Rightarrow> badger_error + RaftApplyState \<times> 'd" where
  "InitApplyState B C kvEngine region =
     (case GetApplyState B C kvEngine (rg_Id region) of
        Inr applyState \<Rightarrow> Inr (applyState, kvEngine)
      | Inl err \<Rightarrow>
          (if err \<noteq> ErrKeyNotFound then Inl err
           else let applyState =
                  (if length (rg_Peers region) > 0
                   then \<lparr>as_AppliedIndex = RaftInitLogIndex, as_TruncatedState = Some \<lparr>ts_Index = RaftInitLogIndex, ts_Term = RaftInitLogTerm\<rparr>\<rparr>
                   else \<lparr>as_AppliedIndex = 0, as_TruncatedState = Some \<lparr>ts_Index = 0, ts_Term = 0\<rparr>\<rparr>)
                in (case PutMeta B (co_Marshal (co_RaftApplyState C)) kvEngine (ApplyStateKey (rg_Id region)) applyState of
                      Inl err \<Rightarrow> Inl err
                    | Inr db \<Rightarrow> Inr (applyState, db))))"

text \<open>\<^verbatim>\<open>SetMeta\<close> where the source drops its error: the batch stays as it was if the message cannot be marshalled.\<close>

definition SetMeta_unchecked :: "'m codec \<Rightarrow> bytes \<Rightarrow> 'm \<Rightarrow> eng_WriteBatch \<Rightarrow> eng_WriteBatch" where
  "SetMeta_unchecked co key msg wb = (case WriteBatch_SetMeta (co_Marshal co) key msg wb of Inl _ \<Rightarrow> wb | Inr wb' \<Rightarrow> wb')"

definition WriteRegionState :: "pb_codecs \<Rightarrow> metapb_Region \<Rightarrow> PeerState \<Rightarrow> eng_WriteBatch \<Rightarrow> eng_WriteBatch" where
  "WriteRegionState C region state kvWB =
     SetMeta_unchecked (co_RegionLocalState C) (RegionStateKey (rg_Id region)) \<lparr>ls_State = state, ls_Region = Some region\<rparr> kvWB"

end
