(* ===== verification/Peer_Storage.thy ===== *)
theory Peer_Storage
  imports Raft_Meta Raft_Node
begin

text \<open>
  The storage of a Raft peer, \<^verbatim>\<open>kv/raftstore/peer_storage.go\<close>: reading the log from the embedded store, appending to it, applying a
  snapshot and saving a \<^verbatim>\<open>Ready\<close>.  A panic and a \<^verbatim>\<open>nil\<close> dereference are \<^const>\<open>None\<close>, as is a loop that does not end.
\<close>

subsection \<open>The state of a peer's storage\<close>

datatype SnapStateType = SnapState_Relax | SnapState_Generating | SnapState_Applying

text \<open>The tasks a peer sends to the region worker.\<close>

datatype region_task =
    RegionTaskGen u64
  | RegionTaskApply u64 "SnapshotMetadata option" bytes bytes
  | RegionTaskDestroy u64 bytes bytes

text \<open>
  The pointers to the two engines are the engines themselves; \<open>ps_tasks\<close> collects what was sent on \<^verbatim>\<open>regionSched\<close>.  The
  effect of the region worker on the key-value engine is not part of this model.
\<close>

record 'd PeerStorage =
  ps_peerID :: u64
  ps_region :: metapb_Region
  ps_raftState :: RaftLocalState
  ps_snapState :: SnapStateType
  ps_snapTriedCnt :: int
  ps_Raft :: 'd
  ps_Kv :: 'd
  ps_tasks :: "region_task list"

record ApplySnapResult =
  ar_PrevRegion :: metapb_Region
  ar_Region :: metapb_Region

fun badger_text :: "badger_error \<Rightarrow> string" where
  "badger_text ErrKeyNotFound = ''Key not found''"
| "badger_text (BadgerError msg) = msg"

definition raft_result :: "badger_error + 'a \<Rightarrow> raft_error + 'a" where
  "raft_result r = (case r of Inl err \<Rightarrow> Inl (ErrOther (badger_text err)) | Inr a \<Rightarrow> Inr a)"

definition NewPeerStorage ::
  "('d, 't, 'i) badger \<Rightarrow> pb_codecs \<Rightarrow> 'd \<Rightarrow> 'd \<Rightarrow> metapb_Region \<Rightarrow> u64 \<Rightarrow> (badger_error + 'd PeerStorage) option" where
  "NewPeerStorage B C raftEngine kvEngine region peerID =
     (case InitRaftLocalState B C raftEngine region of
        Inl err \<Rightarrow> Some (Inl err)
      | Inr (raftState, raftEngine) \<Rightarrow> (case InitApplyState B C kvEngine region of
          Inl err \<Rightarrow> Some (Inl err)
        | Inr (applyState, kvEngine) \<Rightarrow>
            (if rs_LastIndex raftState < as_AppliedIndex applyState then None
             else Some (Inr \<lparr>ps_peerID = peerID, ps_region = region, ps_raftState = raftState, ps_snapState = SnapState_Relax,
               ps_snapTriedCnt = 0, ps_Raft = raftEngine, ps_Kv = kvEngine, ps_tasks = []\<rparr>))))"

definition ps_isInitialized :: "'d PeerStorage \<Rightarrow> bool" where
  "ps_isInitialized ps \<longleftrightarrow> length (rg_Peers (ps_region ps)) > 0"

definition ps_applyState :: "('d, 't, 'i) badger \<Rightarrow> pb_codecs \<Rightarrow> 'd PeerStorage \<Rightarrow> RaftApplyState option" where
  "ps_applyState B C ps = (case GetApplyState B C (ps_Kv ps) (rg_Id (ps_region ps)) of Inl _ \<Rightarrow> None | Inr state \<Rightarrow> Some state)"

definition ps_truncatedIndex :: "('d, 't, 'i) badger \<Rightarrow> pb_codecs \<Rightarrow> 'd PeerStorage \<Rightarrow> u64 option" where
  "ps_truncatedIndex B C ps = ps_applyState B C ps \<bind> as_TruncatedState \<bind> (\<lambda>t. Some (ts_Index t))"

definition ps_truncatedTerm :: "('d, 't, 'i) badger \<Rightarrow> pb_codecs \<Rightarrow> 'd PeerStorage \<Rightarrow> u64 option" where
  "ps_truncatedTerm B C ps = ps_applyState B C ps \<bind> as_TruncatedState \<bind> (\<lambda>t. Some (ts_Term t))"

definition ps_AppliedIndex :: "('d, 't, 'i) badger \<Rightarrow> pb_codecs \<Rightarrow> 'd PeerStorage \<Rightarrow> u64 option" where
  "ps_AppliedIndex B C ps = ps_applyState B C ps \<bind> (\<lambda>a. Some (as_AppliedIndex a))"

subsection \<open>Reading the log\<close>

definition ps_InitialState :: "'d PeerStorage \<Rightarrow> (raft_error + HardState \<times> ConfState) option" where
  "ps_InitialState ps = do {
     hs \<leftarrow> rs_HardState (ps_raftState ps);
     if IsEmptyHardState hs
     then (if ps_isInitialized ps then None else Some (Inr (pb_HardState, \<lparr>cs_Nodes = []\<rparr>)))
     else Some (Inr (hs, \<lparr>cs_Nodes = map pe_Id (rg_Peers (ps_region ps))\<rparr>))
   }"

definition ps_checkRange :: "('d, 't, 'i) badger \<Rightarrow> pb_codecs \<Rightarrow> u64 \<Rightarrow> u64 \<Rightarrow> 'd PeerStorage \<Rightarrow> raft_error option option" where
  "ps_checkRange B C low high ps =
     (if low > high
      then Some (Some (ErrOther (''low '' @ fmt_nat (unat low) @ '' is greater than high '' @ fmt_nat (unat high))))
      else do {
        trunc \<leftarrow> ps_truncatedIndex B C ps;
        if low \<le> trunc then Some (Some ErrCompacted)
        else if high > rs_LastIndex (ps_raftState ps) + 1
        then Some (Some (ErrOther (''entries' high '' @ fmt_nat (unat high) @ '' is out of bound, lastIndex '' @
          fmt_nat (unat (rs_LastIndex (ps_raftState ps))))))
        else Some None
      })"

text \<open>The loop of \<^verbatim>\<open>Entries\<close> over the keys of the log; it ends at the end key, at a gap and at the end of the store.\<close>

partial_function (option) Entries_loop ::
  "('d, 't, 'i) badger \<Rightarrow> (gobytes \<Rightarrow> badger_error + Entry) \<Rightarrow> bytes \<Rightarrow> 'i \<Rightarrow> u64 \<Rightarrow> Entry list \<Rightarrow> (badger_error + Entry list) option" where
  "Entries_loop B unmarshal endKey iter nextIndex buf =
     (if bg_Valid B iter
      then let item = bg_Item B iter
           in if bytes_Compare (it_Key item) endKey \<ge> 0 then Some (Inr buf)
              else case it_Value item of
                     Inl err \<Rightarrow> Some (Inl err)
                   | Inr val \<Rightarrow> (case unmarshal val of
                       Inl err \<Rightarrow> Some (Inl err)
                     | Inr entry \<Rightarrow>
                         if ent_Index entry \<noteq> nextIndex then Some (Inr buf)
                         else Entries_loop B unmarshal endKey (bg_Next B iter) (nextIndex + 1) (buf @ [entry]))
      else Some (Inr buf))"

definition ps_Entries :: "('d, 't, 'i) badger \<Rightarrow> pb_codecs \<Rightarrow> u64 \<Rightarrow> u64 \<Rightarrow> 'd PeerStorage \<Rightarrow> (raft_error + Entry list) option" where
  "ps_Entries B C low high ps = do {
     err \<leftarrow> ps_checkRange B C low high ps;
     case err of
       Some err \<Rightarrow> Some (Inl err)
     | None \<Rightarrow>
         if low = high then Some (Inr [])
         else do {
           let txn = bg_NewTransaction B (ps_Raft ps) False;
           let startKey = RaftLogKey (rg_Id (ps_region ps)) low;
           let endKey = RaftLogKey (rg_Id (ps_region ps)) high;
           r \<leftarrow> Entries_loop B (co_Unmarshal (co_Entry C)) endKey (bg_Seek B (bg_NewIterator B txn) startKey) low [];
           Some (case r of
             Inl err \<Rightarrow> Inl (ErrOther (badger_text err))
           | Inr buf \<Rightarrow> if int (length buf) = sint (high - low) then Inr buf else Inl ErrUnavailable)
         }
   }"

definition ps_Term :: "('d, 't, 'i) badger \<Rightarrow> pb_codecs \<Rightarrow> u64 \<Rightarrow> 'd PeerStorage \<Rightarrow> (raft_error + u64) option" where
  "ps_Term B C idx ps = do {
     trunc \<leftarrow> ps_truncatedIndex B C ps;
     truncTerm \<leftarrow> ps_truncatedTerm B C ps;
     if idx = trunc then Some (Inr truncTerm)
     else do {
       err \<leftarrow> ps_checkRange B C idx (idx + 1) ps;
       Some (case err of
         Some err \<Rightarrow> Inl err
       | None \<Rightarrow>
           if truncTerm = rs_LastTerm (ps_raftState ps) \<or> idx = rs_LastIndex (ps_raftState ps)
           then Inr (rs_LastTerm (ps_raftState ps))
           else (case GetMeta B (co_Unmarshal (co_Entry C)) (ps_Raft ps) (RaftLogKey (rg_Id (ps_region ps)) idx) of
             Inl err \<Rightarrow> Inl (ErrOther (badger_text err))
           | Inr entry \<Rightarrow> Inr (ent_Term entry)))
     }
   }"

definition ps_LastIndex :: "'d PeerStorage \<Rightarrow> u64" where
  "ps_LastIndex ps = rs_LastIndex (ps_raftState ps)"

definition ps_FirstIndex :: "('d, 't, 'i) badger \<Rightarrow> pb_codecs \<Rightarrow> 'd PeerStorage \<Rightarrow> u64 option" where
  "ps_FirstIndex B C ps = ps_truncatedIndex B C ps \<bind> (\<lambda>i. Some (i + 1))"

text \<open>
  \<^verbatim>\<open>validateSnap\<close> and \<^verbatim>\<open>Snapshot\<close>; \<open>received\<close> is what the non-blocking receive from the worker finds: nothing yet, a \<^verbatim>\<open>nil\<close>, or
  a snapshot.  An absent region or epoch reads as zero through the generated accessors.
\<close>

definition epoch_ConfVer :: "metapb_RegionEpoch option \<Rightarrow> u64" where
  "epoch_ConfVer e = (case e of None \<Rightarrow> 0 | Some e \<Rightarrow> ep_ConfVer e)"

definition ps_validateSnap :: "('d, 't, 'i) badger \<Rightarrow> pb_codecs \<Rightarrow> Snapshot \<Rightarrow> 'd PeerStorage \<Rightarrow> bool option" where
  "ps_validateSnap B C s ps = do {
     trunc \<leftarrow> ps_truncatedIndex B C ps;
     if (case snap_Metadata s of None \<Rightarrow> 0 | Some md \<Rightarrow> md_Index md) < trunc then Some False
     else Some (case co_SnapshotRegion C (snap_Data s) of
       Inl _ \<Rightarrow> False
     | Inr region \<Rightarrow> \<not> epoch_ConfVer (region \<bind> rg_RegionEpoch) < epoch_ConfVer (rg_RegionEpoch (ps_region ps)))
   }"

definition ps_request_snapshot :: "Snapshot \<Rightarrow> 'd PeerStorage \<Rightarrow> (raft_error + Snapshot) \<times> 'd PeerStorage" where
  "ps_request_snapshot s ps =
     (if ps_snapTriedCnt ps \<ge> 5
      then (Inl (ErrOther (''failed to get snapshot after '' @ fmt_nat (nat (ps_snapTriedCnt ps)) @ '' times'')), ps\<lparr>ps_snapTriedCnt := 0\<rparr>)
      else (Inl ErrSnapshotTemporarilyUnavailable,
        ps\<lparr>ps_snapTriedCnt := ps_snapTriedCnt ps + 1, ps_snapState := SnapState_Generating,
           ps_tasks := ps_tasks ps @ [RegionTaskGen (rg_Id (ps_region ps))]\<rparr>))"

definition ps_Snapshot ::
  "('d, 't, 'i) badger \<Rightarrow> pb_codecs \<Rightarrow> Snapshot option option \<Rightarrow> 'd PeerStorage \<Rightarrow> ((raft_error + Snapshot) \<times> 'd PeerStorage) option" where
  "ps_Snapshot B C received ps =
     (if ps_snapState ps = SnapState_Generating
      then case received of
             None \<Rightarrow> Some (Inl ErrSnapshotTemporarilyUnavailable, ps)
           | Some got \<Rightarrow>
               let s = (case got of None \<Rightarrow> pb_Snapshot | Some s \<Rightarrow> s); ps = ps\<lparr>ps_snapState := SnapState_Relax\<rparr>
               in if snap_Metadata s \<noteq> None
                  then let ps = ps\<lparr>ps_snapTriedCnt := 0\<rparr>
                       in ps_validateSnap B C s ps \<bind> (\<lambda>ok. Some (if ok then (Inr s, ps) else ps_request_snapshot s ps))
                  else Some (ps_request_snapshot s ps)
      else Some (ps_request_snapshot pb_Snapshot ps))"

subsection \<open>Writing the log\<close>

text \<open>
  \<^verbatim>\<open>Append\<close> puts the new entries into the batch of the caller, but deletes the entries behind them directly in the engine, one
  transaction each.  The loop does not end when the last index is the largest integer.
\<close>

definition append_entries :: "pb_codecs \<Rightarrow> u64 \<Rightarrow> Entry list \<Rightarrow> eng_WriteBatch \<Rightarrow> eng_WriteBatch" where
  "append_entries C regionID entries raftWB =
     fold (\<lambda>entry. SetMeta_unchecked (co_Entry C) (RaftLogKey regionID (ent_Index entry)) entry) entries raftWB"

partial_function (option) delete_entries ::
  "('d, 't, 'i) badger \<Rightarrow> u64 \<Rightarrow> u64 \<Rightarrow> u64 \<Rightarrow> 'd \<Rightarrow> (badger_error option \<times> 'd) option" where
  "delete_entries B regionID i prevLastIndex db =
     (if i \<le> prevLastIndex
      then case bg_Update B db (\<lambda>txn. bg_Delete B txn (RaftLogKey regionID i)) of
             Inl err \<Rightarrow> Some (Some err, db)
           | Inr db \<Rightarrow> delete_entries B regionID (i + 1) prevLastIndex db
      else Some (None, db))"

definition ps_Append ::
  "('d, 't, 'i) badger \<Rightarrow> pb_codecs \<Rightarrow> Entry list \<Rightarrow> eng_WriteBatch \<Rightarrow> 'd PeerStorage \<Rightarrow>
   (badger_error option \<times> eng_WriteBatch \<times> 'd PeerStorage) option" where
  "ps_Append B C entries raftWB ps =
     (if length entries = 0 then Some (None, raftWB, ps)
      else do {
        let regionID = rg_Id (ps_region ps);
        let raftWB = append_entries C regionID entries raftWB;
        let lastEntry = last entries;
        (err, db) \<leftarrow> delete_entries B regionID (ent_Index lastEntry + 1) (rs_LastIndex (ps_raftState ps)) (ps_Raft ps);
        let ps = ps\<lparr>ps_Raft := db\<rparr>;
        Some (case err of
          Some err \<Rightarrow> (Some err, raftWB, ps)
        | None \<Rightarrow> (None, raftWB, ps\<lparr>ps_raftState := (ps_raftState ps)
            \<lparr>rs_LastIndex := ent_Index lastEntry, rs_LastTerm := ent_Term lastEntry\<rparr>\<rparr>))
      })"

text \<open>\<^verbatim>\<open>ClearMeta\<close> finds the first entry of the log by its key and puts the deletion of all of them into the batch.\<close>

partial_function (option) delete_log_keys :: "u64 \<Rightarrow> u64 \<Rightarrow> u64 \<Rightarrow> eng_WriteBatch \<Rightarrow> eng_WriteBatch option" where
  "delete_log_keys regionID i lastIndex raftWB =
     (if i \<le> lastIndex then delete_log_keys regionID (i + 1) lastIndex (WriteBatch_DeleteMeta (RaftLogKey regionID i) raftWB)
      else Some raftWB)"

definition ClearMeta ::
  "('d, 't, 'i) badger \<Rightarrow> 'd \<Rightarrow> u64 \<Rightarrow> u64 \<Rightarrow> eng_WriteBatch \<Rightarrow> eng_WriteBatch \<Rightarrow>
   (string option \<times> eng_WriteBatch \<times> eng_WriteBatch) option" where
  "ClearMeta B raftEngine regionID lastIndex kvWB raftWB =
     (let kvWB = WriteBatch_DeleteMeta (ApplyStateKey regionID) (WriteBatch_DeleteMeta (RegionStateKey regionID) kvWB);
          endLogKey = RaftLogKey regionID (lastIndex + 1);
          it = bg_Seek B (bg_NewIterator B (bg_NewTransaction B raftEngine False)) (RaftLogKey regionID 0);
          firstIndex =
            (if bg_Valid B it \<and> bytes_Compare (it_Key (bg_Item B it)) endLogKey < 0
             then RaftLogIndex (it_Key (bg_Item B it)) else Inr (lastIndex + 1))
      in case firstIndex of
           Inl err \<Rightarrow> Some (Some err, kvWB, raftWB)
         | Inr firstIndex \<Rightarrow> delete_log_keys regionID firstIndex lastIndex raftWB \<bind> (\<lambda>raftWB.
             Some (None, kvWB, WriteBatch_DeleteMeta (RaftStateKey regionID) raftWB)))"

definition ps_clearRange :: "u64 \<Rightarrow> bytes \<Rightarrow> bytes \<Rightarrow> 'd PeerStorage \<Rightarrow> 'd PeerStorage" where
  "ps_clearRange regionID start endKey ps = ps\<lparr>ps_tasks := ps_tasks ps @ [RegionTaskDestroy regionID start endKey]\<rparr>"

definition ps_clearExtraData :: "metapb_Region \<Rightarrow> 'd PeerStorage \<Rightarrow> 'd PeerStorage" where
  "ps_clearExtraData newRegion ps =
     (let oldStartKey = rg_StartKey (ps_region ps); oldEndKey = rg_EndKey (ps_region ps);
          newStartKey = rg_StartKey newRegion; newEndKey = rg_EndKey newRegion;
          ps = (if bytes_Compare oldStartKey newStartKey < 0 then ps_clearRange (rg_Id newRegion) oldStartKey newStartKey ps else ps)
      in if bytes_Compare newEndKey oldEndKey < 0 then ps_clearRange (rg_Id newRegion) newEndKey oldEndKey ps else ps)"

definition ps_ClearData :: "'d PeerStorage \<Rightarrow> 'd PeerStorage" where
  "ps_ClearData ps = ps_clearRange (rg_Id (ps_region ps)) (rg_StartKey (ps_region ps)) (rg_EndKey (ps_region ps)) ps"

definition ps_ApplySnapshot ::
  "('d, 't, 'i) badger \<Rightarrow> pb_codecs \<Rightarrow> Snapshot \<Rightarrow> eng_WriteBatch \<Rightarrow> eng_WriteBatch \<Rightarrow> 'd PeerStorage \<Rightarrow>
   ((string + ApplySnapResult) \<times> eng_WriteBatch \<times> eng_WriteBatch \<times> 'd PeerStorage) option" where
  "ps_ApplySnapshot B C snapshot kvWB raftWB ps =
     (case co_SnapshotRegion C (snap_Data snapshot) of
        Inl err \<Rightarrow> Some (Inl (badger_text err), kvWB, raftWB, ps)
      | Inr region \<Rightarrow> do {
          newRegion \<leftarrow> region;
          if rg_Id newRegion \<noteq> rg_Id (ps_region ps)
          then Some (Inl (''mismatch region id '' @ fmt_nat (unat (rg_Id newRegion)) @ '' != '' @ fmt_nat (unat (rg_Id (ps_region ps)))), kvWB, raftWB, ps)
          else do {
            (err, kvWB, raftWB, ps) \<leftarrow>
              (if ps_isInitialized ps
               then do {
                 (err, kvWB, raftWB) \<leftarrow> ClearMeta B (ps_Raft ps) (rg_Id (ps_region ps)) (rs_LastIndex (ps_raftState ps)) kvWB raftWB;
                 Some (err, kvWB, raftWB, if err = None then ps_clearExtraData newRegion ps else ps)
               } else Some (None, kvWB, raftWB, ps));
            case err of
              Some err \<Rightarrow> Some (Inl err, kvWB, raftWB, ps)
            | None \<Rightarrow> do {
                md \<leftarrow> snap_Metadata snapshot;
                let applyRes = \<lparr>ar_PrevRegion = ps_region ps, ar_Region = newRegion\<rparr>;
                let applyState = \<lparr>as_AppliedIndex = md_Index md,
                  as_TruncatedState = Some \<lparr>ts_Index = md_Index md, ts_Term = md_Term md\<rparr>\<rparr>;
                let kvWB = SetMeta_unchecked (co_RaftApplyState C) (ApplyStateKey (rg_Id newRegion)) applyState kvWB;
                let kvWB = WriteRegionState C newRegion PeerState_Normal kvWB;
                Some (Inr applyRes, kvWB, raftWB,
                  ps\<lparr>ps_raftState := (ps_raftState ps)\<lparr>rs_LastIndex := md_Index md, rs_LastTerm := md_Term md\<rparr>,
                     ps_region := newRegion, ps_snapState := SnapState_Applying,
                     ps_tasks := ps_tasks ps @ [RegionTaskApply (rg_Id newRegion) (Some md) (rg_StartKey newRegion) (rg_EndKey newRegion)]\<rparr>)
              }
          }
        })"

text \<open>\<^verbatim>\<open>SaveReadyState\<close>; the error of \<^verbatim>\<open>Append\<close> is dropped, a failing write of a batch panics.\<close>

definition ps_SaveReadyState ::
  "('d, 't, 'i) badger \<Rightarrow> pb_codecs \<Rightarrow> Ready \<Rightarrow> 'd PeerStorage \<Rightarrow> ((string + ApplySnapResult option) \<times> 'd PeerStorage) option" where
  "ps_SaveReadyState B C ready ps = do {
     let prevRaftState = ps_raftState ps;
     (res, kvWB, raftWB, ps) \<leftarrow>
       (if \<not> IsEmptySnap (Some (rd_Snapshot ready))
        then do {
          (res, kvWB, raftWB, ps) \<leftarrow> ps_ApplySnapshot B C (rd_Snapshot ready) new_WriteBatch new_WriteBatch ps;
          Some (map_sum (\<lambda>e. e) Some res, kvWB, raftWB, ps)
        } else Some (Inr None, new_WriteBatch, new_WriteBatch, ps));
     case res of
       Inl err \<Rightarrow> Some (Inl err, ps)
     | Inr applyRes \<Rightarrow> do {
         (_, raftWB, ps) \<leftarrow> (if length (rd_Entries ready) \<noteq> 0 then ps_Append B C (rd_Entries ready) raftWB ps else Some (None, raftWB, ps));
         let ps = (if rs_LastIndex (ps_raftState ps) > 0 \<and> \<not> IsEmptyHardState (rd_HardState ready)
                   then ps\<lparr>ps_raftState := (ps_raftState ps)\<lparr>rs_HardState := Some (rd_HardState ready)\<rparr>\<rparr> else ps);
         let raftWB = (if prevRaftState \<noteq> ps_raftState ps
                       then SetMeta_unchecked (co_RaftLocalState C) (RaftStateKey (rg_Id (ps_region ps))) (ps_raftState ps) raftWB else raftWB);
         kv \<leftarrow> WriteBatch_MustWriteToDB B (ps_Kv ps) kvWB;
         raft \<leftarrow> WriteBatch_MustWriteToDB B (ps_Raft ps) raftWB;
         Some (Inr applyRes, ps\<lparr>ps_Kv := kv, ps_Raft := raft\<rparr>)
       }
   }"

definition ps_SetRegion :: "metapb_Region \<Rightarrow> 'd PeerStorage \<Rightarrow> 'd PeerStorage" where
  "ps_SetRegion region ps = ps\<lparr>ps_region := region\<rparr>"

end
