(* ===== verification/Peer_Storage_Props.thy ===== *)
theory Peer_Storage_Props
  imports Peer_Storage
begin

text \<open>
  The log on disk: what \<^verbatim>\<open>SaveReadyState\<close> leaves in the Raft engine and what \<^verbatim>\<open>Entries\<close> reads from it, over a store and
  message codecs with the contract \<open>peer_engine\<close>.
\<close>

subsection \<open>What the log on disk holds\<close>











subsection \<open>A concrete store and codec\<close>






subsection \<open>Saving and reading the log\<close>








end
