(* ===== verification/Go_Int64.thy ===== *)
theory Go_Int64
  imports Go_Slices
begin

text \<open>
  The signed and the unsigned reading of a 64-bit word, and when the arithmetic of the words agrees with that of the integers.  The components
  that calculate with \<^verbatim>\<open>int64\<close> (the checked arithmetic of the SQL layer, the clocks of the scheduler) rest on these facts.
\<close>

subsection \<open>Signed and unsigned readings of a 64-bit word\<close>

definition fits_i64 :: "int \<Rightarrow> bool" where
  "fits_i64 x \<longleftrightarrow> - (2 ^ 63) \<le> x \<and> x < 2 ^ 63"

definition fits_u64 :: "int \<Rightarrow> bool" where
  "fits_u64 x \<longleftrightarrow> 0 \<le> x \<and> x < 2 ^ 64"

lemma fits_sint: "fits_i64 (sint (a :: u64))"
  using sint_ge [of a] sint_lt [of a] by (simp add: fits_i64_def)

lemma fits_uint: "fits_u64 (uint (a :: u64))"
  using uint_bounded [of a] by (simp add: fits_u64_def)

lemma sint_of_int_u64: "fits_i64 x \<Longrightarrow> sint (of_int x :: u64) = x"
  by (simp add: fits_i64_def signed_of_int signed_take_bit_int_eq_self)

lemma uint_of_int_u64: "fits_u64 x \<Longrightarrow> uint (of_int x :: u64) = x"
  by (simp add: fits_u64_def unsigned_of_int take_bit_int_eq_self)

text \<open>A word whose signed (unsigned) reading is known to be in range when computed on integers has exactly that reading.\<close>

lemma sint_eqI: "a = (of_int x :: u64) \<Longrightarrow> fits_i64 x \<Longrightarrow> sint a = x"
  by (simp add: sint_of_int_u64)

lemma uint_eqI: "a = (of_int x :: u64) \<Longrightarrow> fits_u64 x \<Longrightarrow> uint a = x"
  by (simp add: uint_of_int_u64)

lemma sint_inject: "sint a = sint b \<longleftrightarrow> a = (b :: u64)"
  by (auto intro: signed_word_eqI)

lemma sint_plus: "fits_i64 (sint a + sint b) \<Longrightarrow> sint (a + b :: u64) = sint a + sint b"
  by (rule sint_eqI) simp_all

lemma sint_minus: "fits_i64 (sint a - sint b) \<Longrightarrow> sint (a - b :: u64) = sint a - sint b"
  by (rule sint_eqI) simp_all

lemma uint_plus: "fits_u64 (uint a + uint b) \<Longrightarrow> uint (a + b :: u64) = uint a + uint b"
  by (rule uint_eqI) simp_all

lemma uint_minus: "fits_u64 (uint a - uint b) \<Longrightarrow> uint (a - b :: u64) = uint a - uint b"
  by (rule uint_eqI) simp_all

lemma uint_times: "fits_u64 (uint a * uint b) \<Longrightarrow> uint (a * b :: u64) = uint a * uint b"
  by (rule uint_eqI) simp_all

lemma uint_of_nonneg: "0 \<le> sint a \<Longrightarrow> uint (a :: u64) = sint a"
  using fits_sint [of a] by (intro uint_eqI) (simp_all add: fits_i64_def fits_u64_def)

lemma uint_uminus_neg: "sint a < 0 \<Longrightarrow> uint (- a :: u64) = - sint a"
  using fits_sint [of a] by (intro uint_eqI) (simp_all add: fits_i64_def fits_u64_def)

lemma sint_of_small: "uint a < 2 ^ 63 \<Longrightarrow> sint (a :: u64) = uint a"
  by (intro sint_eqI) (simp_all add: fits_i64_def order.trans [of _ 0])

lemma sint_uminus_of: "uint a \<le> 2 ^ 63 \<Longrightarrow> sint (- a :: u64) = - uint a"
  by (intro sint_eqI) (simp_all add: fits_i64_def order.strict_trans1 [of _ 0])

end
