(* ===== verification/Etcd.thy ===== *)
theory Etcd
  imports Go_Int64
begin

text \<open>
  The part of the etcd client the scheduler uses, and the helpers around it (\<^verbatim>\<open>src/tinykv/scheduler/pkg/etcdutil/etcdutil.go\<close>,
  \<^verbatim>\<open>src/tinykv/scheduler/pkg/typeutil/convension.go\<close>).  The client is a parameter: a table of its two methods, whose contract is the locale
  \<open>etcd_store\<close>: reads see the store, a transaction takes effect exactly when its comparisons hold, and one that reports an error may or
  may not have taken effect.
\<close>

text \<open>\<^verbatim>\<open>Compare(Value(key), "=", v)\<close> and \<^verbatim>\<open>Compare(CreateRevision(key), "=", 0)\<close>, which says that the key does not exist.\<close>

datatype etcd_cmp = CmpValue string bytes | CmpAbsent string

record 'e etcd =
  et_Get :: "string \<Rightarrow> 'e \<Rightarrow> (string + bytes list) \<times> 'e"
  et_Txn :: "etcd_cmp list \<Rightarrow> string \<times> bytes \<Rightarrow> 'e \<Rightarrow> (string + bool) \<times> 'e"

definition etcdutil_get :: "'e etcd \<Rightarrow> string \<Rightarrow> 'e \<Rightarrow> (string + bytes list option) \<times> 'e" where
  "etcdutil_get E key e =
     (case et_Get E key e of
        (Inl err, e) \<Rightarrow> (Inl err, e)
      | (Inr kvs, e) \<Rightarrow>
          (let n = length kvs
           in if n = 0 then (Inr None, e)
              else if n > 1 then (Inl ''invalid get value resp, must only one'', e)
              else (Inr (Some kvs), e)))"

definition etcd_GetValue :: "'e etcd \<Rightarrow> string \<Rightarrow> 'e \<Rightarrow> (string + bytes option) \<times> 'e" where
  "etcd_GetValue E key e =
     (case etcdutil_get E key e of
        (Inl err, e) \<Rightarrow> (Inl err, e)
      | (Inr None, e) \<Rightarrow> (Inr None, e)
      | (Inr (Some kvs), e) \<Rightarrow> (Inr (Some (kvs ! 0)), e))"

definition BytesToUint64 :: "bytes \<Rightarrow> string + u64" where
  "BytesToUint64 b =
     (if length b \<noteq> 8 then Inl (''invalid data, must 8 bytes, but '' @ fmt_nat (length b))
      else case Uint64 b of None \<Rightarrow> Inl ''index out of range'' | Some v \<Rightarrow> Inr v)"

definition Uint64ToBytes :: "u64 \<Rightarrow> bytes" where
  "Uint64ToBytes v = PutUint64 v"

lemma BytesToUint64_Uint64ToBytes [simp]: "BytesToUint64 (Uint64ToBytes v) = Inr v"
  by (simp add: BytesToUint64_def Uint64ToBytes_def)

lemma Uint64ToBytes_inject [simp]: "Uint64ToBytes v = Uint64ToBytes w \<longleftrightarrow> v = w"
  by (simp add: Uint64ToBytes_def)

lemma Uint64ToBytes_not_empty [simp]: "Uint64ToBytes v \<noteq> []"
  using length_PutUint64 [of v] unfolding Uint64ToBytes_def by (metis list.size(3) zero_neq_numeral)

text \<open>\<^verbatim>\<open>path.Join\<close> of a clean path and a name; the root path of the scheduler is itself a result of \<^verbatim>\<open>path.Join\<close>.\<close>

definition path_Join :: "string \<Rightarrow> string \<Rightarrow> string" where
  "path_Join root name = root @ ''/'' @ name"

lemma path_Join_eq [simp]: "path_Join root a = path_Join root b \<longleftrightarrow> a = b"
  by (simp add: path_Join_def)

subsection \<open>The contract of the store\<close>

fun cmp_holds :: "(string \<Rightarrow> bytes option) \<Rightarrow> etcd_cmp \<Rightarrow> bool" where
  "cmp_holds m (CmpValue k v) \<longleftrightarrow> m k = Some v"
| "cmp_holds m (CmpAbsent k) \<longleftrightarrow> m k = None"

locale etcd_store =
  fixes E :: "'e etcd" and kvs :: "'e \<Rightarrow> string \<Rightarrow> bytes option"
  assumes get_keeps: "et_Get E k e = (r, e') \<Longrightarrow> kvs e' = kvs e"
    and get_value: "et_Get E k e = (Inr vs, e') \<Longrightarrow> vs = (case kvs e k of None \<Rightarrow> [] | Some v \<Rightarrow> [v])"
    and txn_done: "et_Txn E cs (k, v) e = (Inr True, e') \<Longrightarrow> list_all (cmp_holds (kvs e)) cs \<and> kvs e' = (kvs e)(k \<mapsto> v)"
    and txn_refused: "et_Txn E cs (k, v) e = (Inr False, e') \<Longrightarrow> kvs e' = kvs e"
    and txn_failed: "et_Txn E cs (k, v) e = (Inl err, e') \<Longrightarrow>
      kvs e' = kvs e \<or> list_all (cmp_holds (kvs e)) cs \<and> kvs e' = (kvs e)(k \<mapsto> v)"
begin

lemma GetValue_eq:
  assumes "etcd_GetValue E k e = (r, e')"
  shows "kvs e' = kvs e" "r = Inr x \<Longrightarrow> x = kvs e k"
  using assms get_keeps [of k e] get_value [of k e]
  by (auto simp: etcd_GetValue_def etcdutil_get_def Let_def split: prod.splits sum.splits option.splits if_splits)

end

text \<open>
  A store that keeps the contract: an association list, and a script that says of every call whether it goes through, is lost on the way there, or
  takes effect with its answer lost.
\<close>

datatype delivery = Delivered | Request_lost | Answer_lost

record scripted =
  sc_kvs :: "(string \<times> bytes) list"
  sc_script :: "delivery list"

definition next_call :: "scripted \<Rightarrow> delivery \<times> scripted" where
  "next_call e = (case sc_script e of [] \<Rightarrow> (Delivered, e) | d # ds \<Rightarrow> (d, e\<lparr>sc_script := ds\<rparr>))"

definition scripted_get :: "string \<Rightarrow> scripted \<Rightarrow> (string + bytes list) \<times> scripted" where
  "scripted_get k e =
     (case next_call e of (d, e) \<Rightarrow>
        (if d = Delivered then Inr (case map_of (sc_kvs e) k of None \<Rightarrow> [] | Some v \<Rightarrow> [v]) else Inl ''context deadline exceeded'', e))"

definition scripted_txn :: "etcd_cmp list \<Rightarrow> string \<times> bytes \<Rightarrow> scripted \<Rightarrow> (string + bool) \<times> scripted" where
  "scripted_txn cs kv e =
     (case next_call e of (d, e) \<Rightarrow>
        (let ok = list_all (cmp_holds (map_of (sc_kvs e))) cs; e' = (if ok then e\<lparr>sc_kvs := kv # sc_kvs e\<rparr> else e)
         in case d of
              Delivered \<Rightarrow> (Inr ok, e')
            | Request_lost \<Rightarrow> (Inl ''context deadline exceeded'', e)
            | Answer_lost \<Rightarrow> (Inl ''context deadline exceeded'', e')))"

definition scripted_etcd :: "scripted etcd" where
  "scripted_etcd = \<lparr>et_Get = scripted_get, et_Txn = scripted_txn\<rparr>"

lemma next_call_kvs: "next_call e = (d, e') \<Longrightarrow> sc_kvs e' = sc_kvs e"
  by (auto simp: next_call_def split: list.splits)

interpretation scripted: etcd_store scripted_etcd "\<lambda>e. map_of (sc_kvs e)"
proof
  fix k e and r :: "string + bytes list" and e' assume "et_Get scripted_etcd k e = (r, e')"
  then show "map_of (sc_kvs e') = map_of (sc_kvs e)"
    by (auto simp: scripted_etcd_def scripted_get_def next_call_kvs split: prod.splits)
next
  fix k e vs e' assume "et_Get scripted_etcd k e = (Inr vs, e')"
  then show "vs = (case map_of (sc_kvs e) k of None \<Rightarrow> [] | Some v \<Rightarrow> [v])"
    by (auto simp: scripted_etcd_def scripted_get_def next_call_kvs split: prod.splits if_splits option.splits)
qed (auto simp: scripted_etcd_def scripted_txn_def Let_def next_call_kvs split: prod.splits delivery.splits if_splits)

end
