(* ===== verification/Tso_Spec.thy ===== *)
theory Tso_Spec
  imports Main
begin

text \<open>
  What the timestamp oracle promises, on integers: a state of the whole service with several members, of which any number may believe that
  they serve, and a relation of the moves the service may make.  A member serves from a window that ends at the time it saved last; it opens a
  window above everything saved before, and moves the end of its window only while the leader key names it.  No two grants of timestamps of
  such a service share a timestamp.  The oracle of the scheduler is shown to move like this in \<open>Tso\<close>.
\<close>

text \<open>Times are nanoseconds; the physical part of a timestamp counts milliseconds.\<close>

definition millis :: "int \<Rightarrow> int" where
  "millis t = t div 1000000"

lemma millis_bounds: "millis a * 1000000 \<le> a" "a < millis a * 1000000 + 1000000"
  using div_mult_mod_eq [of a 1000000] pos_mod_bound [of 1000000 a] pos_mod_sign [of 1000000 a] unfolding millis_def by linarith+

lemma millis_gap: "a + 1000000 \<le> b \<Longrightarrow> millis a < millis b"
  using millis_bounds [of a] millis_bounds [of b] by linarith

lemma millis_above: "a + 1000000 \<le> b \<Longrightarrow> a \<le> millis b * 1000000"
  using millis_bounds [of b] by linarith

lemma millis_below: "a < l \<Longrightarrow> l \<le> m * 1000000 \<Longrightarrow> millis a < m"
  using millis_bounds [of a] by linarith

subsection \<open>The moves of the service\<close>

text \<open>
  A clock object has a member, a number and the pair of its physical and its logical time; it is never changed but for its logical time.  A
  member that serves has a current object and the end of its window.  A grant is a physical time in milliseconds, the largest
  logical time of the grant and the number of timestamps granted.
\<close>

type_synonym grant = "int \<times> int \<times> int"

record service =
  sv_saved :: "int option"
  sv_leader :: "nat option"
  sv_clock :: "nat \<Rightarrow> nat \<Rightarrow> (int \<times> int) option"
  sv_current :: "nat \<Rightarrow> nat option"
  sv_end :: "nat \<Rightarrow> int"
  sv_grants :: "grant list"

definition set_clock :: "nat \<Rightarrow> nat \<Rightarrow> int \<times> int \<Rightarrow> service \<Rightarrow> service" where
  "set_clock j i c s = s\<lparr>sv_clock := (sv_clock s)(j := (sv_clock s j)(i := Some c))\<rparr>"

definition current_time :: "service \<Rightarrow> nat \<Rightarrow> int option" where
  "current_time s j = (case sv_current s j of None \<Rightarrow> None | Some i \<Rightarrow> map_option fst (sv_clock s j i))"

inductive service_step :: "service \<Rightarrow> service \<Rightarrow> bool" where
  elect: "\<lbrakk>\<And>j. l = Some j \<Longrightarrow> sv_current s j = None \<or> sv_leader s = Some j\<rbrakk> \<Longrightarrow> service_step s (s\<lparr>sv_leader := l\<rparr>)"
| raise: "\<lbrakk>\<And>j i p lg. sv_clock s j i = Some (p, lg) \<Longrightarrow> p < v; \<And>j. sv_current s j \<noteq> None \<Longrightarrow> sv_end s j \<le> v\<rbrakk> \<Longrightarrow>
    service_step s (s\<lparr>sv_saved := Some v\<rparr>)"
| start: "\<lbrakk>sv_current s j = None; sv_leader s = Some j; \<And>v. sv_saved s = Some v \<Longrightarrow> v + 1000000 \<le> p; p < l; sv_clock s j i = None\<rbrakk> \<Longrightarrow>
    service_step s (set_clock j i (p, 0) (s\<lparr>sv_saved := Some l, sv_current := (sv_current s)(j := Some i), sv_end := (sv_end s)(j := l)\<rparr>))"
| move: "\<lbrakk>current_time s j = Some c; c + 1000000 \<le> p; p < sv_end s j; sv_clock s j i = None\<rbrakk> \<Longrightarrow>
    service_step s (set_clock j i (p, 0) (s\<lparr>sv_current := (sv_current s)(j := Some i)\<rparr>))"
| extend: "\<lbrakk>current_time s j = Some c; sv_leader s = Some j; c + 1000000 \<le> p; p < l; sv_clock s j i = None\<rbrakk> \<Longrightarrow>
    service_step s (set_clock j i (p, 0) (s\<lparr>sv_saved := Some l, sv_current := (sv_current s)(j := Some i), sv_end := (sv_end s)(j := l)\<rparr>))"
| stop: "service_step s (s\<lparr>sv_current := (sv_current s)(j := None)\<rparr>)"
| spend: "\<lbrakk>sv_clock s j i = Some (p, lg); 0 < n\<rbrakk> \<Longrightarrow> service_step s (set_clock j i (p, lg + n) s)"
| grant: "\<lbrakk>sv_clock s j i = Some (p, lg); 0 < n; lg + n < 262144\<rbrakk> \<Longrightarrow>
    service_step s (set_clock j i (p, lg + n) (s\<lparr>sv_grants := (millis p, lg + n, n) # sv_grants s\<rparr>))"

inductive_cases service_stepE: "service_step s s'"

subsection \<open>The invariant\<close>

text \<open>Everything of a clock apart from the current object of \<open>j\<close> lies below its current time, or behind the end of its window.\<close>

definition aside :: "service \<Rightarrow> nat \<Rightarrow> int \<Rightarrow> nat \<Rightarrow> nat \<Rightarrow> int \<Rightarrow> bool" where
  "aside s j c k i p \<longleftrightarrow> (k = j \<and> sv_current s j = Some i) \<or> millis p < millis c \<or> sv_end s j \<le> millis p * 1000000"

definition clocks_ok :: "service \<Rightarrow> bool" where
  "clocks_ok s \<longleftrightarrow> (\<forall>j i p lg. sv_clock s j i = Some (p, lg) \<longrightarrow> 0 \<le> lg \<and> (\<exists>v. sv_saved s = Some v \<and> p < v)) \<and>
     (\<forall>j i p lg k n q lq. sv_clock s j i = Some (p, lg) \<longrightarrow> sv_clock s k n = Some (q, lq) \<longrightarrow> millis p = millis q \<longrightarrow> j = k \<and> i = n)"

definition windows_ok :: "service \<Rightarrow> bool" where
  "windows_ok s \<longleftrightarrow>
     (\<forall>j. sv_current s j \<noteq> None \<longrightarrow> (\<exists>c v. current_time s j = Some c \<and> sv_saved s = Some v \<and> c < sv_end s j \<and> sv_end s j \<le> v)) \<and>
     (\<forall>j c. current_time s j = Some c \<longrightarrow> (\<forall>k i p lg. sv_clock s k i = Some (p, lg) \<longrightarrow> aside s j c k i p)) \<and>
     (\<forall>j c k d. j \<noteq> k \<longrightarrow> current_time s j = Some c \<longrightarrow> current_time s k = Some d \<longrightarrow>
        sv_end s j + 1000000 \<le> d \<or> sv_end s k + 1000000 \<le> c)"

definition leader_ok :: "service \<Rightarrow> bool" where
  "leader_ok s \<longleftrightarrow> (\<forall>j c. sv_leader s = Some j \<longrightarrow> current_time s j = Some c \<longrightarrow>
     (\<forall>k i p lg. sv_clock s k i = Some (p, lg) \<longrightarrow> (k = j \<and> sv_current s j = Some i) \<or> millis p < millis c) \<and>
     (\<forall>k d. k \<noteq> j \<longrightarrow> current_time s k = Some d \<longrightarrow> sv_end s k + 1000000 \<le> c))"

text \<open>The timestamps of a grant, in the order of the 64-bit timestamps.\<close>

definition stamps :: "grant \<Rightarrow> int set" where
  "stamps g = (case g of (m, lg, n) \<Rightarrow> {m * 262144 + x | x. lg - n < x \<and> x \<le> lg})"

definition drawn :: "service \<Rightarrow> grant \<Rightarrow> bool" where
  "drawn s g \<longleftrightarrow> (case g of (m, lg, n) \<Rightarrow> 0 < n \<and> n \<le> lg \<and> lg < 262144 \<and>
     (\<exists>j i p l. sv_clock s j i = Some (p, l) \<and> millis p = m \<and> lg \<le> l))"

definition grants_ok :: "service \<Rightarrow> bool" where
  "grants_ok s \<longleftrightarrow> sorted_wrt (\<lambda>g h. stamps g \<inter> stamps h = {}) (sv_grants s) \<and> list_all (drawn s) (sv_grants s)"

definition service_inv :: "service \<Rightarrow> bool" where
  "service_inv s \<longleftrightarrow> clocks_ok s \<and> windows_ok s \<and> leader_ok s \<and> grants_ok s"

lemma current_time_set [simp]:
  "current_time (set_clock j i c s) k =
     (if k = j \<and> sv_current s j = Some i then Some (fst c) else current_time s k)"
  by (auto simp: current_time_def set_clock_def split: option.splits)

lemma set_clock_sel [simp]:
  "sv_saved (set_clock j i c s) = sv_saved s" "sv_leader (set_clock j i c s) = sv_leader s" "sv_current (set_clock j i c s) = sv_current s"
  "sv_end (set_clock j i c s) = sv_end s" "sv_grants (set_clock j i c s) = sv_grants s"
  "sv_clock (set_clock j i c s) k n = (if k = j \<and> n = i then Some c else sv_clock s k n)"
  by (simp_all add: set_clock_def)

lemma current_time_upd [simp]:
  "current_time (s\<lparr>sv_saved := v\<rparr>) = current_time s" "current_time (s\<lparr>sv_leader := l\<rparr>) = current_time s"
  "current_time (s\<lparr>sv_end := e\<rparr>) = current_time s" "current_time (s\<lparr>sv_grants := g\<rparr>) = current_time s"
  by (simp_all add: current_time_def fun_eq_iff split: option.split)

lemma current_timeD:
  "current_time s j = Some c \<Longrightarrow> \<exists>i lg. sv_current s j = Some i \<and> sv_clock s j i = Some (c, lg)"
  by (auto simp: current_time_def split: option.splits)

lemma current_time_None: "sv_current s j = None \<Longrightarrow> current_time s j = None"
  by (simp add: current_time_def)

text \<open>The invariant opened for use.\<close>

lemma clocks_okD:
  assumes "clocks_ok s"
  shows "sv_clock s j i = Some (p, lg) \<Longrightarrow> 0 \<le> lg" "sv_clock s j i = Some (p, lg) \<Longrightarrow> sv_saved s = Some v \<Longrightarrow> p < v"
    "sv_saved s = None \<Longrightarrow> sv_clock s j i = None"
    "sv_clock s j i = Some (p, lg) \<Longrightarrow> sv_clock s k n = Some (q, lq) \<Longrightarrow> millis p = millis q \<Longrightarrow> j = k \<and> i = n"
proof -
  note * = conjunct1 [OF assms [unfolded clocks_ok_def], rule_format]
  show "0 \<le> lg" if "sv_clock s j i = Some (p, lg)" using * [OF that] by blast
  show "p < v" if "sv_clock s j i = Some (p, lg)" "sv_saved s = Some v" using * [OF that(1)] that(2) by auto
  show "sv_clock s j i = None" if "sv_saved s = None" using * [of j i] that by (cases "sv_clock s j i") auto
  show "j = k \<and> i = n" if "sv_clock s j i = Some (p, lg)" "sv_clock s k n = Some (q, lq)" "millis p = millis q"
    using conjunct2 [OF assms [unfolded clocks_ok_def]] that by blast
qed

lemma windows_okD:
  assumes "windows_ok s" "current_time s j = Some c"
  shows "c < sv_end s j" "\<exists>v. sv_saved s = Some v \<and> sv_end s j \<le> v"
    "sv_clock s k i = Some (p, lg) \<Longrightarrow> aside s j c k i p"
    "j \<noteq> k \<Longrightarrow> current_time s k = Some d \<Longrightarrow> sv_end s j + 1000000 \<le> d \<or> sv_end s k + 1000000 \<le> c"
proof -
  have "sv_current s j \<noteq> None" using assms(2) by (auto dest: current_timeD)
  then show "c < sv_end s j" "\<exists>v. sv_saved s = Some v \<and> sv_end s j \<le> v"
    using conjunct1 [OF assms(1) [unfolded windows_ok_def], rule_format, of j] assms(2) by auto
qed (use assms in \<open>unfold windows_ok_def, blast+\<close>)

lemma leader_okD:
  assumes "leader_ok s" "sv_leader s = Some j" "current_time s j = Some c"
  shows "sv_clock s k i = Some (p, lg) \<Longrightarrow> (k = j \<and> sv_current s j = Some i) \<or> millis p < millis c"
    "k \<noteq> j \<Longrightarrow> current_time s k = Some d \<Longrightarrow> sv_end s k + 1000000 \<le> c"
  using assms unfolding leader_ok_def by blast+

subsection \<open>Every move keeps the invariant\<close>

lemma drawn_mono:
  assumes "drawn s g" "\<And>j i p l. sv_clock s j i = Some (p, l) \<Longrightarrow> \<exists>l' \<ge> l. sv_clock s' j i = Some (p, l')"
  shows "drawn s' g"
proof -
  obtain m lg n where g: "g = (m, lg, n)" by (cases g)
  with assms(1) obtain j i p l where *: "sv_clock s j i = Some (p, l)" "millis p = m" "lg \<le> l" by (auto simp: drawn_def)
  from assms(2) [OF *(1)] obtain l' where "l' \<ge> l" "sv_clock s' j i = Some (p, l')" by blast
  with * g assms(1) show ?thesis unfolding drawn_def by (simp, metis order_trans)
qed

lemma grants_ok_mono:
  assumes "grants_ok s" "sv_grants s' = sv_grants s"
    "\<And>j i p l. sv_clock s j i = Some (p, l) \<Longrightarrow> \<exists>l' \<ge> l. sv_clock s' j i = Some (p, l')"
  shows "grants_ok s'"
  using assms(1) drawn_mono [OF _ assms(3)] unfolding grants_ok_def assms(2) by (auto simp: list_all_iff)

text \<open>A member that puts a new object in place of its current one, with everything this needs of the time and of the window.\<close>

definition put_object :: "nat \<Rightarrow> nat \<Rightarrow> int \<Rightarrow> int \<Rightarrow> int \<Rightarrow> service \<Rightarrow> service" where
  "put_object j i p l v s =
     set_clock j i (p, 0) (s\<lparr>sv_saved := Some v, sv_current := (sv_current s)(j := Some i), sv_end := (sv_end s)(j := l)\<rparr>)"

definition can_put :: "nat \<Rightarrow> nat \<Rightarrow> int \<Rightarrow> int \<Rightarrow> int \<Rightarrow> service \<Rightarrow> bool" where
  "can_put j i p l v s \<longleftrightarrow> sv_clock s j i = None \<and> p < l \<and> l \<le> v \<and>
     (\<forall>k n q lq. sv_clock s k n = Some (q, lq) \<longrightarrow> q < v \<and> (millis q < millis p \<or> l \<le> millis q * 1000000)) \<and>
     (\<forall>k d. k \<noteq> j \<longrightarrow> current_time s k = Some d \<longrightarrow> sv_end s k \<le> v \<and> (l + 1000000 \<le> d \<or> sv_end s k + 1000000 \<le> p)) \<and>
     (sv_leader s = Some j \<longrightarrow> (\<forall>k n q lq. sv_clock s k n = Some (q, lq) \<longrightarrow> millis q < millis p) \<and>
       (\<forall>k d. k \<noteq> j \<longrightarrow> current_time s k = Some d \<longrightarrow> sv_end s k + 1000000 \<le> p)) \<and>
     (\<forall>k d. sv_leader s = Some k \<longrightarrow> k \<noteq> j \<longrightarrow> current_time s k = Some d \<longrightarrow> l + 1000000 \<le> d)"

lemma can_putD:
  assumes "can_put j i p l v s"
  shows "sv_clock s j i = None" "p < l" "l \<le> v"
    "sv_clock s k n = Some (q, lq) \<Longrightarrow> q < v" "sv_clock s k n = Some (q, lq) \<Longrightarrow> millis q < millis p \<or> l \<le> millis q * 1000000"
    "k \<noteq> j \<Longrightarrow> current_time s k = Some d \<Longrightarrow> sv_end s k \<le> v"
    "k \<noteq> j \<Longrightarrow> current_time s k = Some d \<Longrightarrow> l + 1000000 \<le> d \<or> sv_end s k + 1000000 \<le> p"
    "sv_leader s = Some j \<Longrightarrow> sv_clock s k n = Some (q, lq) \<Longrightarrow> millis q < millis p"
    "sv_leader s = Some j \<Longrightarrow> k \<noteq> j \<Longrightarrow> current_time s k = Some d \<Longrightarrow> sv_end s k + 1000000 \<le> p"
    "sv_leader s = Some k \<Longrightarrow> k \<noteq> j \<Longrightarrow> current_time s k = Some d \<Longrightarrow> l + 1000000 \<le> d"
  using assms unfolding can_put_def by blast+

lemma put_object_sel [simp]:
  "sv_saved (put_object j i p l v s) = Some v" "sv_leader (put_object j i p l v s) = sv_leader s"
  "sv_current (put_object j i p l v s) k = (if k = j then Some i else sv_current s k)"
  "sv_end (put_object j i p l v s) k = (if k = j then l else sv_end s k)" "sv_grants (put_object j i p l v s) = sv_grants s"
  "sv_clock (put_object j i p l v s) k n = (if k = j \<and> n = i then Some (p, 0) else sv_clock s k n)"
  "current_time (put_object j i p l v s) k = (if k = j then Some p else current_time s k)"
  by (simp_all add: put_object_def current_time_def split: option.split)

lemma put_object_clocks:
  assumes "clocks_ok s" "can_put j i p l v s"
  shows "clocks_ok (put_object j i p l v s)"
proof -
  have "millis q \<noteq> millis p" if "sv_clock s k n = Some (q, lq)" for k n q lq
    using can_putD(5) [OF assms(2) that] millis_bounds [of p] can_putD(2) [OF assms(2)] by linarith
  then show ?thesis
    using can_putD(2-4) [OF assms(2)] clocks_okD(1,4) [OF assms(1)] unfolding clocks_ok_def
    by (auto split: if_splits) (metis, metis, blast+)
qed

lemma put_object_aside:
  assumes w: "windows_ok s" and c: "can_put j i p l v s" and k: "current_time (put_object j i p l v s) k = Some c"
    and q: "sv_clock (put_object j i p l v s) n m = Some (x, lq)"
  shows "aside (put_object j i p l v s) k c n m x"
proof (cases "k = j")
  case True
  then show ?thesis using k q can_putD(5) [OF c, of n m x lq] unfolding aside_def by (auto split: if_splits)
next
  case False
  have "millis p < millis c \<or> sv_end s k \<le> millis p * 1000000"
    using can_putD(7) [OF c False] k False can_putD(2) [OF c] millis_gap [of p c] millis_above [of "sv_end s k" p] by auto
  then show ?thesis using k q False windows_okD(3) [OF w, of k c n m x lq] unfolding aside_def by (auto split: if_splits)
qed

lemma put_object_windows:
  assumes w: "windows_ok s" and c: "can_put j i p l v s"
  shows "windows_ok (put_object j i p l v s)"
  unfolding windows_ok_def
proof (intro conjI allI impI)
  let ?s = "put_object j i p l v s"
  show "\<exists>c v. current_time ?s k = Some c \<and> sv_saved ?s = Some v \<and> c < sv_end ?s k \<and> sv_end ?s k \<le> v" if "sv_current ?s k \<noteq> None" for k
    using that can_putD(2,3,6) [OF c] windows_okD(1) [OF w] conjunct1 [OF w [unfolded windows_ok_def], rule_format, of k] by (cases "k = j") auto
  show "sv_end ?s k + 1000000 \<le> d \<or> sv_end ?s n + 1000000 \<le> e" if "k \<noteq> n" "current_time ?s k = Some e" "current_time ?s n = Some d" for k e n d
    using that can_putD(7) [OF c, of n] can_putD(7) [OF c, of k] windows_okD(4) [OF w, of k e n d] by (auto split: if_splits)
qed (rule put_object_aside [OF assms])

lemma put_object_leader:
  assumes ld: "leader_ok s" and c: "can_put j i p l v s"
  shows "leader_ok (put_object j i p l v s)"
  unfolding leader_ok_def
proof (intro allI impI conjI)
  let ?s = "put_object j i p l v s"
  fix k e assume k: "sv_leader ?s = Some k" "current_time ?s k = Some e"
  show "n = k \<and> sv_current ?s k = Some q \<or> millis x < millis e" if "sv_clock ?s n q = Some (x, lq)" for n q x lq
    using that k can_putD(8) [OF c, of n q x lq] can_putD(10) [OF c, of k e] can_putD(2) [OF c] millis_gap [of p e]
      leader_okD(1) [OF ld, of k e n q x lq] by (cases "k = j") (auto split: if_splits)
  show "sv_end ?s n + 1000000 \<le> e" if "n \<noteq> k" "current_time ?s n = Some d" for n d
    using that k can_putD(9) [OF c, of n] can_putD(10) [OF c, of k e] leader_okD(2) [OF ld, of k e n d] by (auto split: if_splits)
qed

lemma put_object_grants:
  assumes "grants_ok s" "can_put j i p l v s"
  shows "grants_ok (put_object j i p l v s)"
proof (rule grants_ok_mono [OF assms(1)])
  fix k n q lq assume "sv_clock s k n = Some (q, lq)"
  then show "\<exists>l'\<ge>lq. sv_clock (put_object j i p l v s) k n = Some (q, l')" using can_putD(1) [OF assms(2)] by auto
qed simp

lemma put_object_inv: "service_inv s \<Longrightarrow> can_put j i p l v s \<Longrightarrow> service_inv (put_object j i p l v s)"
  by (simp add: service_inv_def put_object_clocks put_object_windows put_object_leader put_object_grants)

text \<open>The three moves that put an object.\<close>

lemma start_inv:
  assumes inv: "service_inv s" and "sv_current s j = None" "sv_leader s = Some j" "\<And>v. sv_saved s = Some v \<Longrightarrow> v + 1000000 \<le> p" "p < l" "sv_clock s j i = None"
  shows "service_inv (put_object j i p l l s)"
proof (rule put_object_inv [OF inv])
  have c: "clocks_ok s" and w: "windows_ok s" using inv by (simp_all add: service_inv_def)
  have q: "q < l \<and> millis q < millis p" if o: "sv_clock s k n = Some (q, lq)" for k n q lq
  proof -
    obtain v where v: "sv_saved s = Some v" using clocks_okD(3) [OF c, of k n] o by (cases "sv_saved s") auto
    from assms(4) [OF v] assms(5) clocks_okD(2) [OF c o v] millis_gap [of q p] show ?thesis by linarith
  qed
  have e: "sv_end s k \<le> l \<and> sv_end s k + 1000000 \<le> p" if o: "current_time s k = Some d" for k d
  proof -
    obtain v where v: "sv_saved s = Some v" "sv_end s k \<le> v" using windows_okD(2) [OF w o] by blast
    from assms(4) [OF v(1)] v(2) assms(5) show ?thesis by linarith
  qed
  show "can_put j i p l l s" using assms(3,5,6) q e unfolding can_put_def by simp
qed

lemma move_inv:
  assumes inv: "service_inv s" and j: "current_time s j = Some c" and p: "c + 1000000 \<le> p" "p < sv_end s j" and "sv_clock s j i = None"
  shows "service_inv (set_clock j i (p, 0) (s\<lparr>sv_current := (sv_current s)(j := Some i)\<rparr>))"
proof -
  have c: "clocks_ok s" and w: "windows_ok s" and ld: "leader_ok s" using inv by (simp_all add: service_inv_def)
  obtain v where v: "sv_saved s = Some v" "sv_end s j \<le> v" using windows_okD(2) [OF w j] by blast
  have 1: "q < v \<and> (millis q < millis p \<or> sv_end s j \<le> millis q * 1000000)" if "sv_clock s k n = Some (q, lq)" for k n q lq
    using clocks_okD(2) [OF c that v(1)] windows_okD(3) [OF w j that] that current_timeD [OF j] millis_gap [OF p(1)] by (auto simp: aside_def)
  have 2: "sv_end s k \<le> v \<and> (sv_end s j + 1000000 \<le> d \<or> sv_end s k + 1000000 \<le> p)" if "k \<noteq> j" "current_time s k = Some d" for k d
    using windows_okD(2) [OF w that(2)] windows_okD(4) [OF w that(2), of j c] v(1) that(1) j p(1) by auto
  have 3: "millis q < millis p" if "sv_leader s = Some j" "sv_clock s k n = Some (q, lq)" for k n q lq
    using leader_okD(1) [OF ld that(1) j that(2)] current_timeD [OF j] that millis_gap [OF p(1)] by auto
  have 4: "sv_end s k + 1000000 \<le> p" if "sv_leader s = Some j" "k \<noteq> j" "current_time s k = Some d" for k d
    using leader_okD(2) [OF ld that(1) j that(2,3)] p(1) by linarith
  have 5: "sv_end s j + 1000000 \<le> d" if "sv_leader s = Some k" "k \<noteq> j" "current_time s k = Some d" for k d
    using leader_okD(2) [OF ld that(1,3) that(2) [symmetric] j] .
  have "can_put j i p (sv_end s j) v s" using 1 2 3 4 5 v(2) p(2) assms(5) unfolding can_put_def by simp
  from put_object_inv [OF inv this] have "service_inv (put_object j i p (sv_end s j) v s)" .
  moreover have "put_object j i p (sv_end s j) v s = set_clock j i (p, 0) (s\<lparr>sv_current := (sv_current s)(j := Some i)\<rparr>)"
    using v(1) by (cases s) (simp add: put_object_def)
  ultimately show ?thesis by simp
qed

lemma extend_inv:
  assumes inv: "service_inv s" and j: "current_time s j = Some c" and l: "sv_leader s = Some j" and p: "c + 1000000 \<le> p" "p < l" and "sv_clock s j i = None"
  shows "service_inv (put_object j i p l l s)"
proof (rule put_object_inv [OF inv])
  have ld: "leader_ok s" using inv by (simp add: service_inv_def)
  have 1: "millis q < millis p" if "sv_clock s k n = Some (q, lq)" for k n q lq
    using leader_okD(1) [OF ld l j that] current_timeD [OF j] that millis_gap [OF p(1)] by auto
  have 2: "q < l" if "sv_clock s k n = Some (q, lq)" for k n q lq
    using 1 [OF that] millis_bounds [of q] millis_bounds [of p] p(2) by linarith
  have 3: "sv_end s k \<le> l" "sv_end s k + 1000000 \<le> p" if "k \<noteq> j" "current_time s k = Some d" for k d
    using leader_okD(2) [OF ld l j that] p by linarith+
  show "can_put j i p l l s" using 1 2 3 l p(2) assms(6) unfolding can_put_def by simp
qed

text \<open>The moves that put none.\<close>

lemma drawn_upd [simp]:
  "drawn (s\<lparr>sv_leader := l\<rparr>) = drawn s" "drawn (s\<lparr>sv_saved := v\<rparr>) = drawn s" "drawn (s\<lparr>sv_current := f\<rparr>) = drawn s"
  by (simp_all add: drawn_def fun_eq_iff)

lemma clocks_ok_upd [simp]:
  "clocks_ok (s\<lparr>sv_leader := l\<rparr>) = clocks_ok s" "clocks_ok (s\<lparr>sv_current := f\<rparr>) = clocks_ok s"
  by (simp_all add: clocks_ok_def)

lemma elect_inv:
  assumes "service_inv s" "\<And>j. l = Some j \<Longrightarrow> sv_current s j = None \<or> sv_leader s = Some j"
  shows "service_inv (s\<lparr>sv_leader := l\<rparr>)"
proof -
  have "leader_ok (s\<lparr>sv_leader := l\<rparr>)"
    unfolding leader_ok_def
  proof (intro allI impI)
    fix j c assume "sv_leader (s\<lparr>sv_leader := l\<rparr>) = Some j" "current_time (s\<lparr>sv_leader := l\<rparr>) j = Some c"
    then have j: "sv_leader s = Some j" "current_time s j = Some c" using assms(2) [of j] current_time_None [of s j] by auto
    show "(\<forall>k i p lg. sv_clock (s\<lparr>sv_leader := l\<rparr>) k i = Some (p, lg) \<longrightarrow> k = j \<and> sv_current (s\<lparr>sv_leader := l\<rparr>) j = Some i \<or> millis p < millis c) \<and>
      (\<forall>k d. k \<noteq> j \<longrightarrow> current_time (s\<lparr>sv_leader := l\<rparr>) k = Some d \<longrightarrow> sv_end (s\<lparr>sv_leader := l\<rparr>) k + 1000000 \<le> c)"
      using assms(1) j by (simp add: service_inv_def leader_ok_def)
  qed
  then show ?thesis using assms(1) by (simp add: service_inv_def windows_ok_def aside_def grants_ok_def)
qed

lemma raise_inv:
  assumes "service_inv s" "\<And>j i p lg. sv_clock s j i = Some (p, lg) \<Longrightarrow> p < v" "\<And>j. sv_current s j \<noteq> None \<Longrightarrow> sv_end s j \<le> v"
  shows "service_inv (s\<lparr>sv_saved := Some v\<rparr>)"
proof -
  have "clocks_ok (s\<lparr>sv_saved := Some v\<rparr>)"
    using assms(1,2) unfolding service_inv_def clocks_ok_def by simp
  moreover have "windows_ok (s\<lparr>sv_saved := Some v\<rparr>)"
    using assms(1,3) unfolding service_inv_def windows_ok_def aside_def by simp metis
  ultimately show ?thesis using assms(1) by (simp add: service_inv_def leader_ok_def grants_ok_def)
qed

lemma stop_inv:
  assumes "service_inv s"
  shows "service_inv (s\<lparr>sv_current := (sv_current s)(j := None)\<rparr>)" (is "service_inv ?s")
proof -
  have cur: "current_time ?s k = (if k = j then None else current_time s k)" for k
    by (simp add: current_time_def split: option.split)
  have "windows_ok ?s" using assms unfolding service_inv_def windows_ok_def aside_def cur by auto
  moreover have "leader_ok ?s" using assms unfolding service_inv_def leader_ok_def cur by auto
  ultimately show ?thesis using assms by (simp add: service_inv_def grants_ok_def)
qed

lemma spend_parts:
  assumes "service_inv s" "sv_clock s j i = Some (p, lg)" "0 < n"
  shows "clocks_ok (set_clock j i (p, lg + n) s)" "windows_ok (set_clock j i (p, lg + n) s)" "leader_ok (set_clock j i (p, lg + n) s)"
proof -
  let ?s = "set_clock j i (p, lg + n) s"
  have cur: "current_time ?s k = current_time s k" for k using assms(2) by (simp add: current_time_def split: option.split)
  have inv: "clocks_ok s" "windows_ok s" "leader_ok s" using assms(1) by (simp_all add: service_inv_def)
  have old: "\<exists>l. sv_clock s k m = Some (q, l) \<and> (0 \<le> l \<longrightarrow> 0 \<le> lq)" if "sv_clock ?s k m = Some (q, lq)" for k m q lq
    using that assms(2,3) by (auto split: if_splits)
  show "clocks_ok ?s"
    unfolding clocks_ok_def
  proof (intro conjI allI impI)
    fix k m q lq assume *: "sv_clock ?s k m = Some (q, lq)"
    from old [OF *] obtain l where l: "sv_clock s k m = Some (q, l)" "0 \<le> l \<longrightarrow> 0 \<le> lq" by blast
    then show "0 \<le> lq" using clocks_okD(1) [OF inv(1)] by blast
    show "\<exists>v. sv_saved ?s = Some v \<and> q < v" using conjunct1 [OF inv(1) [unfolded clocks_ok_def]] l(1) by auto
    fix k' m' q' lq' assume "sv_clock ?s k' m' = Some (q', lq')" "millis q = millis q'"
    with old [OF this(1)] l(1) clocks_okD(4) [OF inv(1)] show "k = k'" "m = m'" by blast+
  qed
  have "aside ?s k c k' m q" if k: "current_time s k = Some c" and q: "sv_clock ?s k' m = Some (q, lq)" for k c k' m q lq
    using old [OF q] windows_okD(3) [OF inv(2) k] unfolding aside_def by auto
  moreover have "\<exists>c v. current_time ?s k = Some c \<and> sv_saved ?s = Some v \<and> c < sv_end ?s k \<and> sv_end ?s k \<le> v" if "sv_current ?s k \<noteq> None" for k
    using conjunct1 [OF inv(2) [unfolded windows_ok_def], rule_format, of k] that cur by simp
  ultimately show "windows_ok ?s"
    using windows_okD(4) [OF inv(2)] unfolding windows_ok_def cur by (simp del: set_clock_sel(6))
  show "leader_ok ?s"
    unfolding leader_ok_def cur
  proof (intro allI impI conjI)
    fix k c k' m q lq assume k: "sv_leader ?s = Some k" "current_time s k = Some c" and q: "sv_clock ?s k' m = Some (q, lq)"
    show "k' = k \<and> sv_current ?s k = Some m \<or> millis q < millis c" using old [OF q] leader_okD(1) [OF inv(3), of k c k' m q] k by auto
  qed (use leader_okD(2) [OF inv(3)] in simp)
qed

lemma stamps_apart:
  assumes "x \<le> a" "a < 262144" "y \<le> b" "b < 262144" "m = m' \<Longrightarrow> b \<le> a - x"
  shows "stamps (m, a, x) \<inter> stamps (m', b, y) = {}"
proof (rule ccontr)
  assume "\<not> ?thesis"
  then obtain u w where *: "m * 262144 + u = m' * 262144 + w" "a - x < u" "u \<le> a" "b - y < w" "w \<le> b" by (auto simp: stamps_def)
  with assms consider "m + 1 \<le> m'" | "m' + 1 \<le> m" | "m = m'" by linarith
  then show False using * assms by cases auto
qed

lemma grant_inv:
  assumes inv: "service_inv s" and c: "sv_clock s j i = Some (p, lg)" and n: "0 < n" "lg + n < 262144"
  shows "service_inv (set_clock j i (p, lg + n) (s\<lparr>sv_grants := (millis p, lg + n, n) # sv_grants s\<rparr>))" (is "service_inv ?s")
proof -
  let ?t = "set_clock j i (p, lg + n) s"
  have s: "?s = ?t\<lparr>sv_grants := (millis p, lg + n, n) # sv_grants s\<rparr>" by (simp add: set_clock_def)
  have ok: "clocks_ok s" "grants_ok s" using inv by (simp_all add: service_inv_def)
  have up: "\<exists>l'\<ge>l. sv_clock ?s k m = Some (q, l')" if "sv_clock s k m = Some (q, l)" for k m q l
    using that c n(1) by (auto simp: s)
  have disjoint: "stamps (millis p, lg + n, n) \<inter> stamps g = {}" if g: "drawn s g" for g
  proof -
    obtain m l x where gx: "g = (m, l, x)" by (cases g)
    have b: "x \<le> l" "l < 262144" "m = millis p \<Longrightarrow> l \<le> lg" using g c clocks_okD(4) [OF ok(1) c] unfolding drawn_def gx by auto
    have "0 \<le> lg" by (rule clocks_okD(1) [OF ok(1) c])
    with b n show ?thesis unfolding gx by (intro stamps_apart) auto
  qed
  have "drawn ?s (millis p, lg + n, n)" using n clocks_okD(1) [OF ok(1) c] unfolding drawn_def by (auto simp: s)
  with ok(2) disjoint drawn_mono [OF _ up] have "grants_ok ?s" unfolding grants_ok_def by (auto simp: list_all_iff)
  with spend_parts [OF inv c n(1)] show ?thesis unfolding service_inv_def s
    by (simp add: clocks_ok_def windows_ok_def leader_ok_def aside_def del: set_clock_sel(6))
qed

lemma spend_inv:
  assumes "service_inv s" "sv_clock s j i = Some (p, lg)" "0 < n"
  shows "service_inv (set_clock j i (p, lg + n) s)"
proof -
  have "grants_ok (set_clock j i (p, lg + n) s)"
    by (rule grants_ok_mono [of s]) (use assms in \<open>auto simp: service_inv_def\<close>)
  with spend_parts [OF assms] show ?thesis by (simp add: service_inv_def)
qed

theorem service_step_inv: "service_step s s' \<Longrightarrow> service_inv s \<Longrightarrow> service_inv s'"
  by (induction rule: service_step.induct)
    (blast intro: elect_inv raise_inv start_inv [unfolded put_object_def] move_inv extend_inv [unfolded put_object_def] stop_inv spend_inv grant_inv)+

theorem service_run_inv: "service_step\<^sup>*\<^sup>* s s' \<Longrightarrow> service_inv s \<Longrightarrow> service_inv s'"
  by (induction rule: rtranclp_induct) (blast intro: service_step_inv)+

text \<open>A service that starts without clocks.\<close>

lemma service_inv_start:
  "service_inv \<lparr>sv_saved = v, sv_leader = l, sv_clock = \<lambda>_ _. None, sv_current = \<lambda>_. None, sv_end = e, sv_grants = []\<rparr>"
  by (simp add: service_inv_def clocks_ok_def windows_ok_def leader_ok_def grants_ok_def current_time_def)

text \<open>Two ways to save a later time without using it.\<close>

lemma lead_raise:
  assumes inv: "service_inv s" and j: "sv_leader s = Some j" "current_time s j = Some c" and v: "c < v" "sv_end s j \<le> v"
  shows "service_step s (s\<lparr>sv_saved := Some v\<rparr>)"
proof (rule raise)
  have ld: "leader_ok s" and w: "windows_ok s" using inv by (simp_all add: service_inv_def)
  show "p < v" if o: "sv_clock s k i = Some (p, lg)" for k i p lg
    using leader_okD(1) [OF ld j o] current_timeD [OF j(2)] o v(1) millis_bounds [of p] millis_bounds [of c] by fastforce
  show "sv_end s k \<le> v" if o: "sv_current s k \<noteq> None" for k
  proof (cases "k = j")
    case False
    from o w obtain d where "current_time s k = Some d" unfolding windows_ok_def by blast
    from leader_okD(2) [OF ld j False this] v(1) show ?thesis by linarith
  qed (use v in simp)
qed

lemma free_raise:
  assumes inv: "service_inv s" and v: "\<And>w. sv_saved s = Some w \<Longrightarrow> w \<le> v"
  shows "service_step s (s\<lparr>sv_saved := Some v\<rparr>)"
proof (rule raise)
  have c: "clocks_ok s" and w: "windows_ok s" using inv by (simp_all add: service_inv_def)
  show "p < v" if "sv_clock s k i = Some (p, lg)" for k i p lg
    using conjunct1 [OF c [unfolded clocks_ok_def], rule_format, OF that] v by force
  show "sv_end s k \<le> v" if "sv_current s k \<noteq> None" for k
    using conjunct1 [OF w [unfolded windows_ok_def], rule_format, OF that] v by force
qed

end
