(* ===== verification/Tso.thy ===== *)
theory Tso
  imports Etcd Tso_Spec "HOL-Library.Signed_Division"
begin

unbundle bit_operations_syntax

text \<open>
  The timestamp oracle of the scheduler (\<^verbatim>\<open>src/tinykv/scheduler/server/tso/tso.go\<close>) with \<^verbatim>\<open>ParseTS\<close> of
  \<^verbatim>\<open>src/tinykv/scheduler/pkg/tsoutil/tso.go\<close>, and the members of the scheduler that run it
  (\<^verbatim>\<open>campaignLeader\<close> of \<^verbatim>\<open>src/tinykv/scheduler/server/server.go\<close>).  Its moves are shown to be moves of the service of \<open>Tso_Spec\<close>.

  A time is its \<^verbatim>\<open>UnixNano\<close>, a signed 64-bit number of nanoseconds: the code uses times only through it, and adding a duration wraps like it.
  The zero time is the one value the code compares times with.  The objects a clock has allocated are a list, and \<^verbatim>\<open>ts\<close> points into it,
  since a caller may still count up an object that has been replaced.  Logging and sleeping are not part of the model.
\<close>

type_synonym time = u64

definition ZeroTime :: time where "ZeroTime = of_int (- 62135596800 * 1000000000)"
definition Millisecond :: time where "Millisecond = 1000000"
definition updateTimestampGuard :: time where "updateTimestampGuard = Millisecond"
definition maxLogical :: u64 where "maxLogical = push_bit 18 1"
definition maxRetryCount :: nat where "maxRetryCount = 100"

definition SubTimeByWallClock :: "time \<Rightarrow> time \<Rightarrow> int" where
  "SubTimeByWallClock after before = sint (after - before)"

definition ParseTimestamp :: "bytes \<Rightarrow> string + time" where
  "ParseTimestamp data = BytesToUint64 data"

text \<open>\<^verbatim>\<open>time.Unix(sec, nsec)\<close> of the physical part, and the logical part.\<close>

definition ParseTS :: "u64 \<Rightarrow> time \<times> u64" where
  "ParseTS ts =
     (let logical = ts AND (push_bit 18 1 - 1); physical = drop_bit 18 ts
      in ((physical div 1000) * 1000000000 + (physical mod 1000) * 1000000, logical))"

subsection \<open>The oracle\<close>

record atomicObject =
  ao_physical :: time
  ao_logical :: u64

record TimestampOracle =
  to_objects :: "atomicObject list"
  to_ts :: "nat option"
  to_lastSavedTime :: time
  to_lease :: bool
  to_rootPath :: string
  to_member :: bytes
  to_saveInterval :: time
  to_maxResetTsGap :: time

definition NewTimestampOracle :: "string \<Rightarrow> bytes \<Rightarrow> time \<Rightarrow> time \<Rightarrow> TimestampOracle" where
  "NewTimestampOracle rootPath member saveInterval maxResetTsGap =
     \<lparr>to_objects = [], to_ts = None, to_lastSavedTime = ZeroTime, to_lease = False, to_rootPath = rootPath, to_member = member,
      to_saveInterval = saveInterval, to_maxResetTsGap = maxResetTsGap\<rparr>"

text \<open>A new object, and \<^verbatim>\<open>ts\<close> pointing to it.\<close>

definition StorePointer :: "atomicObject \<Rightarrow> TimestampOracle \<Rightarrow> TimestampOracle" where
  "StorePointer obj t = t\<lparr>to_objects := to_objects t @ [obj], to_ts := Some (length (to_objects t))\<rparr>"

text \<open>Following \<^verbatim>\<open>ts\<close>: a nil pointer panics.\<close>

definition LoadObject :: "TimestampOracle \<Rightarrow> (nat \<times> atomicObject) option" where
  "LoadObject t = (case to_ts t of None \<Rightarrow> None | Some i \<Rightarrow> if i < length (to_objects t) then Some (i, to_objects t ! i) else None)"

definition getTimestampPath :: "TimestampOracle \<Rightarrow> string" where
  "getTimestampPath t = path_Join (to_rootPath t) ''timestamp''"

definition leaderPath :: "TimestampOracle \<Rightarrow> string" where
  "leaderPath t = path_Join (to_rootPath t) ''leader''"

definition loadTimestamp :: "'e etcd \<Rightarrow> TimestampOracle \<Rightarrow> 'e \<Rightarrow> (string + time) \<times> 'e" where
  "loadTimestamp E t e =
     (case etcd_GetValue E (getTimestampPath t) e of
        (Inl err, e) \<Rightarrow> (Inl err, e)
      | (Inr None, e) \<Rightarrow> (Inr ZeroTime, e)
      | (Inr (Some data), e) \<Rightarrow> (if length data = 0 then (Inr ZeroTime, e) else (ParseTimestamp data, e)))"

definition saveTimestamp :: "'e etcd \<Rightarrow> time \<Rightarrow> TimestampOracle \<Rightarrow> 'e \<Rightarrow> string option \<times> TimestampOracle \<times> 'e" where
  "saveTimestamp E ts t e =
     (let data = Uint64ToBytes ts; key = getTimestampPath t
      in case et_Txn E [CmpValue (leaderPath t) (to_member t)] (key, data) e of
           (Inl err, e) \<Rightarrow> (Some err, t, e)
         | (Inr succeeded, e) \<Rightarrow>
             (if \<not> succeeded then (Some ''save timestamp failed, maybe we lost leader'', t, e)
              else (None, t\<lparr>to_lastSavedTime := ts\<rparr>, e)))"

text \<open>The arguments \<open>now\<close> and \<open>expired\<close> are what \<^verbatim>\<open>time.Now()\<close> and \<^verbatim>\<open>lease.IsExpired()\<close> return.\<close>

definition SyncTimestamp :: "'e etcd \<Rightarrow> time \<Rightarrow> TimestampOracle \<Rightarrow> 'e \<Rightarrow> string option \<times> TimestampOracle \<times> 'e" where
  "SyncTimestamp E now t e =
     (case loadTimestamp E t e of
        (Inl err, e) \<Rightarrow> (Some err, t, e)
      | (Inr saved, e) \<Rightarrow>
          (let next = (if SubTimeByWallClock now saved < sint updateTimestampGuard then saved + updateTimestampGuard else now);
               save = next + to_saveInterval t
           in case saveTimestamp E save t e of
                (Some err, t, e) \<Rightarrow> (Some err, t, e)
              | (None, t, e) \<Rightarrow> (None, StorePointer \<lparr>ao_physical = next, ao_logical = 0\<rparr> (t\<lparr>to_lease := True\<rparr>), e)))"

definition ResetUserTimestamp ::
  "'e etcd \<Rightarrow> bool \<Rightarrow> u64 \<Rightarrow> TimestampOracle \<Rightarrow> 'e \<Rightarrow> (string option \<times> TimestampOracle \<times> 'e) option" where
  "ResetUserTimestamp E expired tso t e =
     (if \<not> to_lease t \<or> expired then Some (Some ''Setup timestamp failed, lease expired'', t, e)
      else case LoadObject t of
        None \<Rightarrow> None
      | Some (_, prev) \<Rightarrow>
          (let next = fst (ParseTS tso) + Millisecond
           in if SubTimeByWallClock next (ao_physical prev) \<le> 3 * sint updateTimestampGuard
              then Some (Some ''the specified ts too small than now'', t, e)
              else if SubTimeByWallClock next (ao_physical prev) \<ge> sint (to_maxResetTsGap t)
              then Some (Some ''the specified ts too large than now'', t, e)
              else let save = next + to_saveInterval t
                   in case saveTimestamp E save t e of
                        (Some err, t, e) \<Rightarrow> Some (Some err, t, e)
                      | (None, t, e) \<Rightarrow> Some (None, StorePointer \<lparr>ao_physical = next, ao_logical = 0\<rparr> t, e)))"

definition UpdateTimestamp :: "'e etcd \<Rightarrow> time \<Rightarrow> TimestampOracle \<Rightarrow> 'e \<Rightarrow> (string option \<times> TimestampOracle \<times> 'e) option" where
  "UpdateTimestamp E now t e =
     (case LoadObject t of
        None \<Rightarrow> None
      | Some (_, prev) \<Rightarrow>
          (let jetLag = SubTimeByWallClock now (ao_physical prev); prevLogical = ao_logical prev;
               step = (if jetLag > sint updateTimestampGuard then Some now
                       else if sint prevLogical > sint maxLogical div 2 then Some (ao_physical prev + Millisecond)
                       else None)
           in case step of
                None \<Rightarrow> Some (None, t, e)
              | Some next \<Rightarrow>
                  (let (err, t, e) =
                     (if SubTimeByWallClock (to_lastSavedTime t) next \<le> sint updateTimestampGuard
                      then saveTimestamp E (next + to_saveInterval t) t e else (None, t, e))
                   in case err of
                        Some err \<Rightarrow> Some (Some err, t, e)
                      | None \<Rightarrow> Some (None, StorePointer \<lparr>ao_physical = next, ao_logical = 0\<rparr> t, e))))"

definition ResetTimestamp :: "TimestampOracle \<Rightarrow> TimestampOracle" where
  "ResetTimestamp t = StorePointer \<lparr>ao_physical = ZeroTime, ao_logical = 0\<rparr> t"

subsection \<open>Granting timestamps\<close>

text \<open>
  \<^verbatim>\<open>GetRespTS\<close> runs beside all the others without a lock.  Its loop is cut at its two accesses to the shared clock: a call that is about to load the
  pointer in its \<open>i\<close>-th round, one that holds a pointer and is about to count it up, and one that has returned.
\<close>

record Timestamp =
  tm_Physical :: int
  tm_Logical :: u64

datatype get_call =
    GetLoad "32 word" nat
  | GetAdd "32 word" nat nat
  | GetDone "string + Timestamp"

definition GetRespTS :: "32 word \<Rightarrow> get_call" where
  "GetRespTS count = (if count = 0 then GetDone (Inl ''tso count should be positive'') else GetLoad count 0)"

definition GetRespTS_load :: "TimestampOracle \<Rightarrow> 32 word \<Rightarrow> nat \<Rightarrow> get_call option" where
  "GetRespTS_load t count i =
     (if \<not> i < maxRetryCount then Some (GetDone (Inl ''can not get timestamp''))
      else case LoadObject t of
        None \<Rightarrow> None
      | Some (p, current) \<Rightarrow> Some (if ao_physical current = ZeroTime then GetLoad count (Suc i) else GetAdd count i p))"

definition GetRespTS_add :: "bool \<Rightarrow> TimestampOracle \<Rightarrow> 32 word \<Rightarrow> nat \<Rightarrow> nat \<Rightarrow> get_call \<times> TimestampOracle" where
  "GetRespTS_add expired t count i p =
     (let current = to_objects t ! p;
          resp = \<lparr>tm_Physical = sint (ao_physical current) sdiv 1000000, tm_Logical = ao_logical current + ucast count\<rparr>;
          t = t\<lparr>to_objects := (to_objects t)[p := current\<lparr>ao_logical := tm_Logical resp\<rparr>]\<rparr>
      in if sint (tm_Logical resp) \<ge> sint maxLogical then (GetLoad count (Suc i), t)
         else if \<not> to_lease t \<or> expired then (GetDone (Inl ''alloc timestamp failed, lease expired''), t)
         else (GetDone (Inr resp), t))"

subsection \<open>The members of the scheduler\<close>

text \<open>
  Every member owns an oracle, and all share one store.  A member campaigns, synchronises, then updates at every tick until it steps
  down and resets (\<^verbatim>\<open>campaignLeader\<close>), in this order and in one goroutine; \<open>sd_serving\<close> says that it is between synchronising and resetting.
  Calls for timestamps and \<^verbatim>\<open>ResetUserTimestamp\<close> may come at any time, at any member.  The store changes beneath them: the leader key may
  be lost or name any member that is not serving, since a member campaigns only after it has reset; no one else
  writes the timestamp.  \<open>sd_granted\<close> records the timestamps handed out.
\<close>

record 'e scheduler =
  sd_etcd :: 'e
  sd_oracle :: "nat \<Rightarrow> TimestampOracle"
  sd_serving :: "nat \<Rightarrow> bool"
  sd_calls :: "nat \<Rightarrow> (nat \<times> get_call) option"
  sd_granted :: "(Timestamp \<times> 32 word) list"

definition set_oracle :: "nat \<Rightarrow> TimestampOracle \<Rightarrow> 'e \<Rightarrow> 'e scheduler \<Rightarrow> 'e scheduler" where
  "set_oracle j t e s = s\<lparr>sd_oracle := (sd_oracle s)(j := t), sd_etcd := e\<rparr>"

definition set_call :: "nat \<Rightarrow> nat \<Rightarrow> get_call \<Rightarrow> 'e scheduler \<Rightarrow> 'e scheduler" where
  "set_call c j g s = s\<lparr>sd_calls := (sd_calls s)(c := Some (j, g))\<rparr>"

definition record_grant :: "32 word \<Rightarrow> get_call \<Rightarrow> 'e scheduler \<Rightarrow> 'e scheduler" where
  "record_grant count g s = (case g of GetDone (Inr resp) \<Rightarrow> s\<lparr>sd_granted := (resp, count) # sd_granted s\<rparr> | _ \<Rightarrow> s)"

inductive scheduler_step :: "'e etcd \<Rightarrow> ('e \<Rightarrow> string \<Rightarrow> bytes option) \<Rightarrow> string \<Rightarrow> 'e scheduler \<Rightarrow> 'e scheduler \<Rightarrow> bool"
  for E kvs rootPath where
  store: "\<lbrakk>kvs e (path_Join rootPath ''timestamp'') = kvs (sd_etcd s) (path_Join rootPath ''timestamp'');
      \<And>j. kvs e (path_Join rootPath ''leader'') = Some (to_member (sd_oracle s j)) \<Longrightarrow> sd_serving s j \<Longrightarrow>
        kvs (sd_etcd s) (path_Join rootPath ''leader'') = Some (to_member (sd_oracle s j))\<rbrakk> \<Longrightarrow>
    scheduler_step E kvs rootPath s (s\<lparr>sd_etcd := e\<rparr>)"
| sync: "\<lbrakk>\<not> sd_serving s j; SyncTimestamp E now (sd_oracle s j) (sd_etcd s) = (err, t, e)\<rbrakk> \<Longrightarrow>
    scheduler_step E kvs rootPath s ((set_oracle j t e s)\<lparr>sd_serving := (sd_serving s)(j := (err = None))\<rparr>)"
| update: "\<lbrakk>sd_serving s j; UpdateTimestamp E now (sd_oracle s j) (sd_etcd s) = Some (err, t, e)\<rbrakk> \<Longrightarrow>
    scheduler_step E kvs rootPath s (set_oracle j t e s)"
| user: "ResetUserTimestamp E expired tso (sd_oracle s j) (sd_etcd s) = Some (err, t, e) \<Longrightarrow>
    scheduler_step E kvs rootPath s (set_oracle j t e s)"
| reset: "sd_serving s j \<Longrightarrow>
    scheduler_step E kvs rootPath s ((set_oracle j (ResetTimestamp (sd_oracle s j)) (sd_etcd s) s)\<lparr>sd_serving := (sd_serving s)(j := False)\<rparr>)"
| call: "sd_calls s c = None \<Longrightarrow> scheduler_step E kvs rootPath s (set_call c j (GetRespTS count) s)"
| load: "\<lbrakk>sd_calls s c = Some (j, GetLoad count i); GetRespTS_load (sd_oracle s j) count i = Some g\<rbrakk> \<Longrightarrow>
    scheduler_step E kvs rootPath s (set_call c j g s)"
| add: "\<lbrakk>sd_calls s c = Some (j, GetAdd count i p); GetRespTS_add expired (sd_oracle s j) count i p = (g, t)\<rbrakk> \<Longrightarrow>
    scheduler_step E kvs rootPath s (record_grant count g (set_call c j g (set_oracle j t (sd_etcd s) s)))"

text \<open>
  The times of a state fit their words: no time reaches \<open>2 ^ 61\<close> nanoseconds, which is in the year 2043, and no logical time
  \<open>2 ^ 62\<close>.
\<close>

definition time_ok :: "time \<Rightarrow> bool" where
  "time_ok t \<longleftrightarrow> 0 \<le> sint t \<and> sint t < 2 ^ 61"

definition fits :: "('e \<Rightarrow> string \<Rightarrow> bytes option) \<Rightarrow> string \<Rightarrow> 'e scheduler \<Rightarrow> bool" where
  "fits kvs rootPath s \<longleftrightarrow>
     (\<forall>j. \<forall>ob\<in>set (to_objects (sd_oracle s j)). (ao_physical ob = ZeroTime \<or> time_ok (ao_physical ob)) \<and> sint (ao_logical ob) < 2 ^ 62) \<and>
     (\<forall>v. kvs (sd_etcd s) (path_Join rootPath ''timestamp'') = Some (Uint64ToBytes v) \<longrightarrow> time_ok v)"

inductive scheduler_run :: "'e etcd \<Rightarrow> ('e \<Rightarrow> string \<Rightarrow> bytes option) \<Rightarrow> string \<Rightarrow> 'e scheduler \<Rightarrow> 'e scheduler \<Rightarrow> bool"
  for E kvs rootPath s where
  run_refl: "scheduler_run E kvs rootPath s s"
| run_step: "\<lbrakk>scheduler_run E kvs rootPath s s'; scheduler_step E kvs rootPath s' s''; fits kvs rootPath s''\<rbrakk> \<Longrightarrow> scheduler_run E kvs rootPath s s''"

text \<open>
  The members before anything has run: no clocks, and in the store no timestamp or one that an earlier member saved.  Their values under the leader
  key are different, the save interval is positive, and the largest reset is a matter of hours, not of centuries.
\<close>

definition scheduler_start :: "('e \<Rightarrow> string \<Rightarrow> bytes option) \<Rightarrow> string \<Rightarrow> 'e scheduler \<Rightarrow> bool" where
  "scheduler_start kvs rootPath s \<longleftrightarrow>
     (\<forall>j. \<exists>m iv gap. sd_oracle s j = NewTimestampOracle rootPath m iv gap \<and> 0 < sint iv \<and> sint iv < 2 ^ 61 \<and> sint gap \<le> 2 ^ 61) \<and>
     inj (\<lambda>j. to_member (sd_oracle s j)) \<and> sd_serving s = (\<lambda>_. False) \<and> sd_calls s = Map.empty \<and> sd_granted s = [] \<and>
     (\<forall>d. kvs (sd_etcd s) (path_Join rootPath ''timestamp'') = Some d \<longrightarrow> (\<exists>v. d = Uint64ToBytes v \<and> time_ok v))"

end
