(* ===== verification/Id_Alloc.thy ===== *)
theory Id_Alloc
  imports Etcd
begin







subsection \<open>Members that allocate\<close>







subsection \<open>No id twice\<close>
















end
