(* ===== verification/Sql_Overflow.thy ===== *)
theory Sql_Overflow
  imports Go_Int64
begin

text \<open>
  The checked 64-bit arithmetic of the SQL layer (\<^verbatim>\<open>src/tinysql/types/overflow.go\<close>).  Both \<^verbatim>\<open>int64\<close> and \<^verbatim>\<open>uint64\<close> are
  64-bit words, read with \<open>sint\<close> and \<open>uint\<close>; conversions between them are the identity, arithmetic wraps.
  Every operation is shown to agree with the mathematical one, and the two places where it does not are stated exactly.
\<close>

subsection \<open>The operations\<close>

text \<open>\<^verbatim>\<open>ErrOverflow.GenWithStackByArgs(type, (a, b))\<close>, with the operands it prints.\<close>

datatype overflow_error = ErrOverflow string int int

definition math_MaxUint64 :: u64 where "math_MaxUint64 = - 1"
definition math_MaxInt64 :: u64 where "math_MaxInt64 = 2 ^ 63 - 1"
definition math_MinInt64 :: u64 where "math_MinInt64 = 2 ^ 63"

lemma math_consts [simp]:
  "uint math_MaxUint64 = 2 ^ 64 - 1" "sint math_MaxInt64 = 2 ^ 63 - 1" "sint math_MinInt64 = - (2 ^ 63)" "uint math_MaxInt64 = 2 ^ 63 - 1"
  by (simp_all add: math_MaxUint64_def math_MaxInt64_def math_MinInt64_def uint_eqI [of _ "2 ^ 64 - 1"] fits_u64_def)

definition AddUint64 :: "u64 \<Rightarrow> u64 \<Rightarrow> overflow_error + u64" where
  "AddUint64 a b =
     (if math_MaxUint64 - a < b then Inl (ErrOverflow ''BIGINT UNSIGNED'' (uint a) (uint b)) else Inr (a + b))"

definition AddInt64 :: "u64 \<Rightarrow> u64 \<Rightarrow> overflow_error + u64" where
  "AddInt64 a b =
     (if (sint a > 0 \<and> sint b > 0 \<and> sint (math_MaxInt64 - a) < sint b) \<or>
         (sint a < 0 \<and> sint b < 0 \<and> sint (math_MinInt64 - a) > sint b)
      then Inl (ErrOverflow ''BIGINT'' (sint a) (sint b)) else Inr (a + b))"

text \<open>A \<^verbatim>\<open>time.Duration\<close> is a 64-bit signed integer.\<close>

definition AddDuration :: "u64 \<Rightarrow> u64 \<Rightarrow> overflow_error + u64" where
  "AddDuration a b =
     (if (sint a > 0 \<and> sint b > 0 \<and> sint (math_MaxInt64 - a) < sint b) \<or>
         (sint a < 0 \<and> sint b < 0 \<and> sint (math_MinInt64 - a) > sint b)
      then Inl (ErrOverflow ''BIGINT'' (sint a) (sint b)) else Inr (a + b))"

definition AddInteger :: "u64 \<Rightarrow> u64 \<Rightarrow> overflow_error + u64" where
  "AddInteger a b =
     (if sint b \<ge> 0 then AddUint64 a b
      else if - b > a then Inl (ErrOverflow ''BIGINT UNSIGNED'' (uint a) (sint b)) else Inr (a - (- b)))"

definition SubUint64 :: "u64 \<Rightarrow> u64 \<Rightarrow> overflow_error + u64" where
  "SubUint64 a b = (if a < b then Inl (ErrOverflow ''BIGINT UNSIGNED'' (uint a) (uint b)) else Inr (a - b))"

definition SubInt64 :: "u64 \<Rightarrow> u64 \<Rightarrow> overflow_error + u64" where
  "SubInt64 a b =
     (if (sint a > 0 \<and> sint b < 0 \<and> sint (math_MaxInt64 - a) < sint (- b)) \<or>
         (sint a < 0 \<and> sint b > 0 \<and> sint (math_MinInt64 - a) > sint (- b)) \<or>
         (a = 0 \<and> b = math_MinInt64)
      then Inl (ErrOverflow ''BIGINT'' (sint a) (sint b)) else Inr (a - b))"

definition SubUintWithInt :: "u64 \<Rightarrow> u64 \<Rightarrow> overflow_error + u64" where
  "SubUintWithInt a b = (if sint b < 0 then AddUint64 a (- b) else SubUint64 a b)"

definition SubIntWithUint :: "u64 \<Rightarrow> u64 \<Rightarrow> overflow_error + u64" where
  "SubIntWithUint a b =
     (if sint a < 0 \<or> a < b then Inl (ErrOverflow ''BIGINT UNSIGNED'' (sint a) (uint b)) else Inr (a - b))"

definition MulUint64 :: "u64 \<Rightarrow> u64 \<Rightarrow> overflow_error + u64" where
  "MulUint64 a b =
     (if b > 0 \<and> a > math_MaxUint64 div b then Inl (ErrOverflow ''BIGINT UNSIGNED'' (uint a) (uint b)) else Inr (a * b))"

definition MulInt64 :: "u64 \<Rightarrow> u64 \<Rightarrow> overflow_error + u64" where
  "MulInt64 a b =
     (if a = 0 \<or> b = 0 then Inr 0
      else let (negative, res) =
               (if sint a > 0 \<and> sint b > 0 then (False, MulUint64 a b)
                else if sint a < 0 \<and> sint b < 0 then (False, MulUint64 (- a) (- b))
                else if sint a < 0 \<and> sint b > 0 then (True, MulUint64 (- a) b)
                else (True, MulUint64 a (- b)))
           in case res of
                Inl err \<Rightarrow> Inl err
              | Inr res \<Rightarrow>
                  if negative
                  then if res > math_MaxInt64 + 1 then Inl (ErrOverflow ''BIGINT'' (sint a) (sint b)) else Inr (- res)
                  else if res > math_MaxInt64 then Inl (ErrOverflow ''BIGINT'' (sint a) (sint b)) else Inr res)"

definition MulInteger :: "u64 \<Rightarrow> u64 \<Rightarrow> overflow_error + u64" where
  "MulInteger a b =
     (if a = 0 \<or> b = 0 then Inr 0
      else if sint b < 0 then Inl (ErrOverflow ''BIGINT UNSIGNED'' (uint a) (sint b))
      else MulUint64 a b)"

text \<open>Go's integer division truncates toward zero and panics (\<^const>\<open>None\<close>) on a zero divisor.\<close>

definition go_div :: "int \<Rightarrow> int \<Rightarrow> int option" where
  "go_div x y = (if y = 0 then None else Some (sgn x * sgn y * (\<bar>x\<bar> div \<bar>y\<bar>)))"

definition DivInt64 :: "u64 \<Rightarrow> u64 \<Rightarrow> (overflow_error + u64) option" where
  "DivInt64 a b =
     (if a = math_MinInt64 \<and> b = - 1 then Some (Inl (ErrOverflow ''BIGINT'' (sint a) (sint b)))
      else map_option (Inr \<circ> of_int) (go_div (sint a) (sint b)))"

definition DivUintWithInt :: "u64 \<Rightarrow> u64 \<Rightarrow> (overflow_error + u64) option" where
  "DivUintWithInt a b =
     (if sint b < 0
      then if a \<noteq> 0 \<and> - b \<le> a then Some (Inl (ErrOverflow ''BIGINT UNSIGNED'' (uint a) (sint b))) else Some (Inr 0)
      else if b = 0 then None else Some (Inr (a div b)))"

definition DivIntWithUint :: "u64 \<Rightarrow> u64 \<Rightarrow> (overflow_error + u64) option" where
  "DivIntWithUint a b =
     (if sint a < 0
      then if - a \<ge> b then Some (Inl (ErrOverflow ''BIGINT'' (sint a) (uint b))) else Some (Inr 0)
      else if b = 0 then None else Some (Inr (a div b)))"

subsection \<open>Exactness\<close>

text \<open>
  A checked operation is exact for an integer \<open>x\<close> if it returns the word that reads as \<open>x\<close> when \<open>x\<close> fits the result type,
  and an error otherwise.
\<close>

definition exact_u64 :: "int \<Rightarrow> overflow_error + u64 \<Rightarrow> bool" where
  "exact_u64 x r = (case r of Inr w \<Rightarrow> fits_u64 x \<and> uint w = x | Inl _ \<Rightarrow> \<not> fits_u64 x)"

definition exact_i64 :: "int \<Rightarrow> overflow_error + u64 \<Rightarrow> bool" where
  "exact_i64 x r = (case r of Inr w \<Rightarrow> fits_i64 x \<and> sint w = x | Inl _ \<Rightarrow> \<not> fits_i64 x)"

lemma exact_u64I: "(\<not> fits_u64 x \<longleftrightarrow> P) \<Longrightarrow> (fits_u64 x \<Longrightarrow> uint w = x) \<Longrightarrow> exact_u64 x (if P then Inl e else Inr w)"
  by (auto simp: exact_u64_def)

lemma exact_i64I: "(\<not> fits_i64 x \<longleftrightarrow> P) \<Longrightarrow> (fits_i64 x \<Longrightarrow> sint w = x) \<Longrightarrow> exact_i64 x (if P then Inl e else Inr w)"
  by (auto simp: exact_i64_def)

lemma sint_MaxInt64_minus: "0 < sint a \<Longrightarrow> sint (math_MaxInt64 - a) = 2 ^ 63 - 1 - sint a"
  using fits_sint [of a] by (subst sint_minus) (simp_all add: fits_i64_def)

lemma sint_MinInt64_minus: "sint a < 0 \<Longrightarrow> sint (math_MinInt64 - a) = - (2 ^ 63) - sint a"
  using fits_sint [of a] by (subst sint_minus) (simp_all add: fits_i64_def)

lemma AddUint64_exact: "exact_u64 (uint a + uint b) (AddUint64 a b)"
  unfolding AddUint64_def
proof (rule exact_u64I)
  have "uint (math_MaxUint64 - a) = 2 ^ 64 - 1 - uint a"
    using fits_uint [of a] unfolding fits_u64_def by (intro uint_minus [THEN trans]) (unfold fits_u64_def math_consts, linarith+)
  then show "(\<not> fits_u64 (uint a + uint b)) = (math_MaxUint64 - a < b)"
    using fits_uint [of a] fits_uint [of b] unfolding word_less_def fits_u64_def by linarith
qed (rule uint_plus)

lemma AddInt64_exact: "exact_i64 (sint a + sint b) (AddInt64 a b)"
  unfolding AddInt64_def
proof (rule exact_i64I)
  show "(\<not> fits_i64 (sint a + sint b)) = ((sint a > 0 \<and> sint b > 0 \<and> sint (math_MaxInt64 - a) < sint b) \<or>
         (sint a < 0 \<and> sint b < 0 \<and> sint (math_MinInt64 - a) > sint b))"
    using fits_sint [of a] fits_sint [of b] sint_MaxInt64_minus [of a] sint_MinInt64_minus [of a] unfolding fits_i64_def by linarith
qed (rule sint_plus)

lemma AddDuration_AddInt64: "AddDuration a b = AddInt64 a b"
  by (simp add: AddDuration_def AddInt64_def)

lemma AddInteger_exact: "exact_u64 (uint a + sint b) (AddInteger a b)"
proof (cases "0 \<le> sint b")
  case True
  then show ?thesis using AddUint64_exact [of a b] by (simp add: AddInteger_def uint_of_nonneg)
next
  case False
  then have b: "uint (- b) = - sint b" by (simp add: uint_uminus_neg)
  have "exact_u64 (uint a + sint b) (if a < - b then Inl (ErrOverflow ''BIGINT UNSIGNED'' (uint a) (sint b)) else Inr (a - - b))"
  proof (rule exact_u64I)
    show "(\<not> fits_u64 (uint a + sint b)) = (a < - b)"
      using b False fits_uint [of a] by (auto simp: word_less_def fits_u64_def)
    show "uint (a - - b) = uint a + sint b" if "fits_u64 (uint a + sint b)"
      using that b by (subst uint_minus) simp_all
  qed
  then show ?thesis using False by (simp add: AddInteger_def)
qed

lemma SubUint64_exact: "exact_u64 (uint a - uint b) (SubUint64 a b)"
  unfolding SubUint64_def
  using fits_uint [of a] fits_uint [of b] unfolding word_less_def fits_u64_def
  by (intro exact_u64I uint_minus) (unfold fits_u64_def, linarith+)

lemma SubUintWithInt_exact: "exact_u64 (uint a - sint b) (SubUintWithInt a b)"
  using AddUint64_exact [of a "- b"] SubUint64_exact [of a b]
  by (auto simp: SubUintWithInt_def uint_uminus_neg uint_of_nonneg)

lemma SubIntWithUint_exact: "exact_u64 (sint a - uint b) (SubIntWithUint a b)"
proof (cases "sint a < 0")
  case True
  then show ?thesis using fits_uint [of b] unfolding SubIntWithUint_def exact_u64_def fits_u64_def by (simp, linarith)
next
  case False
  then show ?thesis using SubUint64_exact [of a b]
    by (auto simp: SubIntWithUint_def SubUint64_def exact_u64_def uint_of_nonneg)
qed

lemma SubInt64_wraps: "sint a > 0 \<Longrightarrow> SubInt64 a math_MinInt64 = Inr (a - math_MinInt64)"
  using fits_sint [of a] sint_MaxInt64_minus [of a] by (auto simp: SubInt64_def fits_i64_def math_MinInt64_def)

lemma SubInt64_exact_nonmin:
  assumes "\<not> (sint a > 0 \<and> b = math_MinInt64)"
  shows "exact_i64 (sint a - sint b) (SubInt64 a b)"
  unfolding SubInt64_def
proof (rule exact_i64I)
  have a0: "a = 0 \<longleftrightarrow> sint a = 0" using sint_inject [of a 0] by simp
  have min: "b = math_MinInt64 \<longleftrightarrow> sint b = - (2 ^ 63)" using sint_inject [of b math_MinInt64] by simp
  have neg: "sint (- b) = - sint b" if "sint b \<noteq> - (2 ^ 63)"
    using that fits_sint [of b] by (intro sint_eqI) (auto simp: fits_i64_def)
  have min': "sint (- b) = - (2 ^ 63)" if "sint b = - (2 ^ 63)"
    using that min by (simp add: math_MinInt64_def)
  show "(\<not> fits_i64 (sint a - sint b)) = ((sint a > 0 \<and> sint b < 0 \<and> sint (math_MaxInt64 - a) < sint (- b)) \<or>
         (sint a < 0 \<and> sint b > 0 \<and> sint (math_MinInt64 - a) > sint (- b)) \<or> (a = 0 \<and> b = math_MinInt64))"
    using assms fits_sint [of a] fits_sint [of b] sint_MaxInt64_minus [of a] sint_MinInt64_minus [of a] neg min'
    unfolding fits_i64_def min a0 by (cases "sint a > 0"; cases "sint a < 0"; cases "sint b = - (2 ^ 63)") auto
qed (rule sint_minus)

lemma int_le_div_iff:
  assumes "0 < (b :: int)"
  shows "x \<le> m div b \<longleftrightarrow> x * b \<le> m"
proof
  assume "x \<le> m div b"
  then have "x * b \<le> m div b * b" using assms by (intro mult_right_mono) simp_all
  also have "\<dots> \<le> m" using div_mult_mod_eq [of m b] pos_mod_sign [OF assms, of m] by linarith
  finally show "x * b \<le> m" .
next
  assume "x * b \<le> m"
  from zdiv_mono1 [OF this assms] assms show "x \<le> m div b" by simp
qed

lemma uint_pos: "a \<noteq> 0 \<Longrightarrow> 0 < uint (a :: u64)"
  using uint_ge_0 [of a] unsigned_eq_0_iff [of a] by (metis order_le_less)

lemma MulUint64_exact: "exact_u64 (uint a * uint b) (MulUint64 a b)"
  unfolding MulUint64_def
proof (rule exact_u64I)
  have d: "uint (math_MaxUint64 div b) = (2 ^ 64 - 1) div uint b" by (simp add: uint_div)
  show "(\<not> fits_u64 (uint a * uint b)) = (0 < b \<and> math_MaxUint64 div b < a)"
  proof (cases "b = 0")
    case False
    then have b: "0 < uint b" by (rule uint_pos)
    have "(2 ^ 64 - 1) div uint b < uint a \<longleftrightarrow> \<not> uint a * uint b \<le> 2 ^ 64 - 1"
      using int_le_div_iff [OF b, of "uint a" "2 ^ 64 - 1"] by linarith
    then show ?thesis using False d by (auto simp: word_less_def fits_u64_def word_gt_0 b)
  qed (simp add: fits_u64_def)
qed (rule uint_times)

lemma MulInteger_exact: "exact_u64 (uint a * sint b) (MulInteger a b)"
proof (cases "sint b < 0 \<and> a \<noteq> 0")
  case True
  then have "0 < uint a" by (simp add: uint_pos)
  with True have "uint a * sint b < 0" by (simp add: mult_pos_neg)
  with True show ?thesis by (auto simp: MulInteger_def exact_u64_def fits_u64_def)
next
  case False
  then consider "a = 0" | "sint b \<ge> 0" by linarith
  then show ?thesis
  proof cases
    case 2
    then show ?thesis using MulUint64_exact [of a b]
      by (cases "a = 0 \<or> b = 0") (auto simp: MulInteger_def exact_u64_def fits_u64_def uint_of_nonneg)
  qed (simp add: MulInteger_def exact_u64_def fits_u64_def)
qed

lemma MulUint64_signed:
  assumes "uint a * uint b = m"
  shows "exact_i64 (- m) (case MulUint64 a b of Inl e \<Rightarrow> Inl e
      | Inr res \<Rightarrow> if res > math_MaxInt64 + 1 then Inl e' else Inr (- res))" (is "exact_i64 _ ?neg")
    and "exact_i64 m (case MulUint64 a b of Inl e \<Rightarrow> Inl e | Inr res \<Rightarrow> if res > math_MaxInt64 then Inl e' else Inr res)" (is "exact_i64 _ ?pos")
proof -
  have m: "0 \<le> m" using assms by auto
  have M: "uint (math_MaxInt64 + 1) = 2 ^ 63" by (simp add: math_MaxInt64_def)
  note ex = MulUint64_exact [of a b, unfolded assms]
  have "exact_i64 (- m) ?neg \<and> exact_i64 m ?pos"
  proof (cases "MulUint64 a b")
    case (Inl e)
    then have "2 ^ 64 \<le> m" using ex m by (simp add: exact_u64_def fits_u64_def)
    then show ?thesis using Inl by (simp add: exact_i64_def fits_i64_def)
  next
    case (Inr res)
    then have res: "uint res = m" using ex by (simp add: exact_u64_def)
    have "exact_i64 (- m) (if res > math_MaxInt64 + 1 then Inl e' else Inr (- res))"
      using m M res sint_uminus_of [of res] by (intro exact_i64I) (auto simp: word_less_def fits_i64_def)
    moreover have "exact_i64 m (if res > math_MaxInt64 then Inl e' else Inr res)"
      using m res sint_of_small [of res] by (intro exact_i64I) (auto simp: word_less_def fits_i64_def)
    ultimately show ?thesis using Inr by simp
  qed
  then show "exact_i64 (- m) ?neg" "exact_i64 m ?pos" by blast+
qed

lemma MulInt64_exact: "exact_i64 (sint a * sint b) (MulInt64 a b)"
proof -
  consider "a = 0 \<or> b = 0" | "sint a > 0" "sint b > 0" | "sint a < 0" "sint b < 0" | "sint a < 0" "sint b > 0" | "sint a > 0" "sint b < 0"
    using sint_inject [of a 0] sint_inject [of b 0] by (auto simp: neq_iff)
  then show ?thesis
  proof cases
    case 1
    then show ?thesis by (auto simp: MulInt64_def exact_i64_def fits_i64_def)
  next
    case 2
    then show ?thesis using MulUint64_signed(2) [of a b "sint a * sint b"] by (auto simp: MulInt64_def uint_of_nonneg)
  next
    case 3
    then show ?thesis using MulUint64_signed(2) [of "- a" "- b" "sint a * sint b"] by (auto simp: MulInt64_def uint_uminus_neg)
  next
    case 4
    then show ?thesis using MulUint64_signed(1) [of "- a" b "- (sint a * sint b)"] by (auto simp: MulInt64_def uint_of_nonneg uint_uminus_neg)
  next
    case 5
    then show ?thesis using MulUint64_signed(1) [of a "- b" "- (sint a * sint b)"] by (auto simp: MulInt64_def uint_of_nonneg uint_uminus_neg)
  qed
qed

lemma go_div_abs: "go_div x y = Some q \<Longrightarrow> \<bar>q\<bar> = \<bar>x\<bar> div \<bar>y\<bar>"
  by (auto simp: go_div_def abs_mult abs_sgn_eq div_int_pos_iff split: if_splits)

lemma go_div_fits:
  assumes q: "go_div x y = Some q" and x: "fits_i64 x" and "\<not> (x = - (2 ^ 63) \<and> y = - 1)"
  shows "fits_i64 q"
proof -
  have y: "y \<noteq> 0" using q by (auto simp: go_div_def)
  note aq = go_div_abs [OF q]
  consider "y = 1" | "\<bar>x\<bar> < 2 ^ 63" | "x = - (2 ^ 63)" "2 \<le> \<bar>y\<bar>" using assms y unfolding fits_i64_def by linarith
  then show ?thesis
  proof cases
    case 1
    then show ?thesis using q x by (auto simp: go_div_def mult_sgn_abs)
  next
    case 2
    have "\<bar>x\<bar> div \<bar>y\<bar> \<le> \<bar>x\<bar>" using zdiv_mono2 [of "\<bar>x\<bar>" 1 "\<bar>y\<bar>"] y by simp
    with 2 aq show ?thesis unfolding fits_i64_def by linarith
  next
    case 3
    have "\<bar>x\<bar> div \<bar>y\<bar> \<le> \<bar>x\<bar> div 2" using zdiv_mono2 [of "\<bar>x\<bar>" 2 "\<bar>y\<bar>"] 3(2) by simp
    with 3(1) aq have "\<bar>q\<bar> \<le> 4611686018427387904" by simp
    then have "- 4611686018427387904 \<le> q" "q \<le> 4611686018427387904" by linarith+
    then show ?thesis by (simp add: fits_i64_def)
  qed
qed

lemma DivInt64_exact:
  "case go_div (sint a) (sint b) of None \<Rightarrow> DivInt64 a b = None | Some q \<Rightarrow> \<exists>r. DivInt64 a b = Some r \<and> exact_i64 q r"
proof (cases "a = math_MinInt64 \<and> b = - 1")
  case True
  then have "go_div (sint a) (sint b) = Some (2 ^ 63)" by (simp add: go_div_def)
  then show ?thesis using True by (simp add: DivInt64_def exact_i64_def fits_i64_def)
next
  case False
  then have nb: "\<not> (sint a = - (2 ^ 63) \<and> sint b = - 1)"
    using sint_inject [of a math_MinInt64] sint_inject [of b "- 1"] by simp
  show ?thesis
  proof (cases "go_div (sint a) (sint b)")
    case (Some q)
    then show ?thesis using False go_div_fits [OF Some fits_sint nb] by (auto simp: DivInt64_def exact_i64_def sint_of_int_u64)
  qed (use False in \<open>auto simp: DivInt64_def\<close>)
qed

text \<open>A quotient of operands of different signs is negative, or zero when the divisor is larger.\<close>

lemma go_div_neg:
  assumes "x * y < 0" "go_div x y = Some q"
  shows "fits_u64 q \<longleftrightarrow> \<bar>x\<bar> < \<bar>y\<bar>" "\<bar>x\<bar> < \<bar>y\<bar> \<Longrightarrow> q = 0"
proof -
  have q: "q = - (\<bar>x\<bar> div \<bar>y\<bar>)" using assms by (auto simp: go_div_def mult_less_0_iff split: if_splits)
  show "q = 0" if "\<bar>x\<bar> < \<bar>y\<bar>" using q that by (simp add: div_pos_pos_trivial)
  moreover have "q < 0" if "\<not> \<bar>x\<bar> < \<bar>y\<bar>"
    using q that assms(1) by (auto simp: mult_less_0_iff pos_imp_zdiv_pos_iff not_less)
  ultimately show "fits_u64 q \<longleftrightarrow> \<bar>x\<bar> < \<bar>y\<bar>" by (cases "\<bar>x\<bar> < \<bar>y\<bar>") (auto simp: fits_u64_def)
qed

lemma go_div_uint: "b \<noteq> 0 \<Longrightarrow> go_div (uint a) (uint b) = Some (uint (a div b))" for a b :: u64
  using uint_pos [of a] uint_pos [of b] by (cases "a = 0") (simp_all add: go_div_def uint_div)

lemma DivUintWithInt_exact:
  "case go_div (uint a) (sint b) of None \<Rightarrow> DivUintWithInt a b = None | Some q \<Rightarrow> \<exists>r. DivUintWithInt a b = Some r \<and> exact_u64 q r"
proof -
  consider "b = 0" | "sint b > 0" "b \<noteq> 0" | "sint b < 0" "a = 0" | "sint b < 0" "a \<noteq> 0" using sint_inject [of b 0] by fastforce
  then show ?thesis
  proof cases
    case 2
    then show ?thesis using go_div_uint [of b a] fits_uint [of "a div b"]
      by (simp add: DivUintWithInt_def exact_u64_def uint_of_nonneg)
  next
    case 4
    then obtain q where q: "go_div (uint a) (sint b) = Some q" by (simp add: go_div_def)
    have neg: "uint a * sint b < 0" using 4 uint_pos [of a] by (simp add: mult_pos_neg)
    have "- b \<le> a \<longleftrightarrow> \<not> \<bar>uint a\<bar> < \<bar>sint b\<bar>" using 4 by (auto simp: word_le_def uint_uminus_neg)
    with 4 q go_div_neg [OF neg q] show ?thesis by (auto simp: DivUintWithInt_def exact_u64_def)
  qed (auto simp: go_div_def DivUintWithInt_def exact_u64_def fits_u64_def)
qed

lemma DivIntWithUint_exact:
  "case go_div (sint a) (uint b) of
     None \<Rightarrow> DivIntWithUint a b = (if sint a < 0 then Some (Inl (ErrOverflow ''BIGINT'' (sint a) 0)) else None)
   | Some q \<Rightarrow> \<exists>r. DivIntWithUint a b = Some r \<and> exact_u64 q r"
proof -
  consider "b = 0" | "sint a \<ge> 0" "b \<noteq> 0" | "sint a < 0" "b \<noteq> 0" by linarith
  then show ?thesis
  proof cases
    case 2
    then show ?thesis using go_div_uint [of b a] fits_uint [of "a div b"]
      by (simp add: DivIntWithUint_def exact_u64_def uint_of_nonneg)
  next
    case 3
    then obtain q where q: "go_div (sint a) (uint b) = Some q" using uint_pos [of b] unfolding go_div_def by auto
    have neg: "sint a * uint b < 0" using 3 uint_pos [of b] by (simp add: mult_neg_pos)
    have "b \<le> - a \<longleftrightarrow> \<not> \<bar>sint a\<bar> < \<bar>uint b\<bar>" using 3 by (auto simp: word_le_def uint_uminus_neg)
    with 3 q go_div_neg [OF neg q] show ?thesis by (auto simp: DivIntWithUint_def exact_u64_def)
  qed (auto simp: go_div_def DivIntWithUint_def)
qed

lemma SubInt64_exact_iff: "exact_i64 (sint a - sint b) (SubInt64 a b) \<longleftrightarrow> \<not> (sint a > 0 \<and> b = math_MinInt64)"
proof (cases "sint a > 0 \<and> b = math_MinInt64")
  case True
  then show ?thesis using SubInt64_wraps [of a] by (simp add: exact_i64_def fits_i64_def)
qed (simp add: SubInt64_exact_nonmin)

text \<open>C39. The checked additions, subtractions and multiplications are exact on every pair of operands: they return the true
  result when it fits the result type and an error exactly when it does not.  The one exception is the signed subtraction with a positive
  minuend and the smallest 64-bit integer as subtrahend: there the guard negates the subtrahend, which wraps, and the wrapped
  difference is returned.\<close>

theorem checked_arithmetic_exact:
  "exact_u64 (uint a + uint b) (AddUint64 a b) \<and>
   exact_i64 (sint a + sint b) (AddInt64 a b) \<and>
   exact_i64 (sint a + sint b) (AddDuration a b) \<and>
   exact_u64 (uint a + sint b) (AddInteger a b) \<and>
   exact_u64 (uint a - uint b) (SubUint64 a b) \<and>
   (exact_i64 (sint a - sint b) (SubInt64 a b) \<longleftrightarrow> \<not> (sint a > 0 \<and> b = math_MinInt64)) \<and>
   exact_u64 (uint a - sint b) (SubUintWithInt a b) \<and>
   exact_u64 (sint a - uint b) (SubIntWithUint a b) \<and>
   exact_u64 (uint a * uint b) (MulUint64 a b) \<and>
   exact_i64 (sint a * sint b) (MulInt64 a b) \<and>
   exact_u64 (uint a * sint b) (MulInteger a b)"
  unfolding AddDuration_AddInt64
  by (intro conjI AddUint64_exact AddInt64_exact AddInteger_exact SubUint64_exact SubInt64_exact_iff SubUintWithInt_exact SubIntWithUint_exact
    MulUint64_exact MulInt64_exact MulInteger_exact)

text \<open>C40. The checked divisions truncate toward zero and are exact whenever the divisor is not zero.  A zero divisor panics,
  except that dividing a negative signed by a zero unsigned integer returns an overflow error.\<close>

theorem checked_division_exact:
  "(case go_div (sint a) (sint b) of None \<Rightarrow> DivInt64 a b = None | Some q \<Rightarrow> \<exists>r. DivInt64 a b = Some r \<and> exact_i64 q r) \<and>
   (case go_div (uint a) (sint b) of None \<Rightarrow> DivUintWithInt a b = None | Some q \<Rightarrow> \<exists>r. DivUintWithInt a b = Some r \<and> exact_u64 q r) \<and>
   (case go_div (sint a) (uint b) of
      None \<Rightarrow> DivIntWithUint a b = (if sint a < 0 then Some (Inl (ErrOverflow ''BIGINT'' (sint a) 0)) else None)
    | Some q \<Rightarrow> \<exists>r. DivIntWithUint a b = Some r \<and> exact_u64 q r)"
  by (intro conjI DivInt64_exact DivUintWithInt_exact DivIntWithUint_exact)

end
