(* ===== verification/Sql_Number.thy ===== *)
theory Sql_Number
  imports Sql_Overflow
begin

text \<open>
  The integer codecs of the SQL layer (\<^verbatim>\<open>src/tinysql/util/codec/number.go\<close>) and the variable-length integers of Go's
  \<^verbatim>\<open>encoding/binary\<close> they use.  A decoder returns the bytes that are left and the value, or an error; \<^const>\<open>None\<close> is a panic.
\<close>

subsection \<open>Errors\<close>

datatype sql_codec_error =
    InsufficientBytesToDecode
  | ValueLargerThan64Bits
  | errDecodeInvalid
  | InvalidMarkerByte bytes
  | InvalidPaddingByte bytes
  | ExpectedLength int
  | InvalidEncodedKey
  | InvalidKeyLengthZero
  | InvalidKeyFlag byte
  | UnsupportEncodeType byte

type_synonym 'a decoded = "(sql_codec_error + bytes \<times> 'a) option"

subsection \<open>Fixed-width integers\<close>

definition signMask :: u64 where
  "signMask = 0x8000000000000000"

definition EncodeIntToCmpUint :: "u64 \<Rightarrow> u64" where
  "EncodeIntToCmpUint v = v XOR signMask"

definition DecodeCmpUintToInt :: "u64 \<Rightarrow> u64" where
  "DecodeCmpUintToInt u = u XOR signMask"

definition EncodeInt :: "bytes \<Rightarrow> u64 \<Rightarrow> bytes" where
  "EncodeInt b v = (let u = EncodeIntToCmpUint v in b @ PutUint64 u)"

definition EncodeIntDesc :: "bytes \<Rightarrow> u64 \<Rightarrow> bytes" where
  "EncodeIntDesc b v = (let u = EncodeIntToCmpUint v in b @ PutUint64 (NOT u))"

definition DecodeInt :: "bytes \<Rightarrow> u64 decoded" where
  "DecodeInt b =
     (if length b < 8 then Some (Inl InsufficientBytesToDecode)
      else do { u \<leftarrow> Uint64 (take 8 b); Some (Inr (drop 8 b, DecodeCmpUintToInt u)) })"

definition DecodeIntDesc :: "bytes \<Rightarrow> u64 decoded" where
  "DecodeIntDesc b =
     (if length b < 8 then Some (Inl InsufficientBytesToDecode)
      else do { u \<leftarrow> Uint64 (take 8 b); Some (Inr (drop 8 b, DecodeCmpUintToInt (NOT u))) })"

definition EncodeUint :: "bytes \<Rightarrow> u64 \<Rightarrow> bytes" where
  "EncodeUint b v = b @ PutUint64 v"

definition EncodeUintDesc :: "bytes \<Rightarrow> u64 \<Rightarrow> bytes" where
  "EncodeUintDesc b v = b @ PutUint64 (NOT v)"

definition DecodeUint :: "bytes \<Rightarrow> u64 decoded" where
  "DecodeUint b =
     (if length b < 8 then Some (Inl InsufficientBytesToDecode)
      else do { v \<leftarrow> Uint64 (take 8 b); Some (Inr (drop 8 b, v)) })"

definition DecodeUintDesc :: "bytes \<Rightarrow> u64 decoded" where
  "DecodeUintDesc b =
     (if length b < 8 then Some (Inl InsufficientBytesToDecode)
      else do { v \<leftarrow> Uint64 (take 8 b); Some (Inr (drop 8 b, NOT v)) })"

subsection \<open>Variable-length integers\<close>

text \<open>
  \<^verbatim>\<open>binary.PutUvarint\<close>, \<^verbatim>\<open>binary.Uvarint\<close> and their signed variants of Go's standard library.  A read returns the value and
  the number of bytes consumed; zero stands for a slice that ends too early, a negative number for an overflow.
\<close>

lemma unat_drop_bit_u64: "unat (drop_bit k (v :: u64)) = unat v div 2 ^ k"
  using unat_u64_bound [of v] by (simp only: unsigned_drop_bit_eq) (simp add: drop_bit_eq_div take_bit_eq_mod)

function PutUvarint :: "u64 \<Rightarrow> bytes" where
  "PutUvarint x = (if x \<ge> 0x80 then (ucast x OR 0x80) # PutUvarint (drop_bit 7 x) else [ucast x])"
  by pat_completeness auto
termination
  by (relation "measure unat") (auto simp: unat_drop_bit_u64 word_le_nat_alt intro!: div_less_dividend)

declare PutUvarint.simps [simp del]

definition PutVarint :: "u64 \<Rightarrow> bytes" where
  "PutVarint x = (let ux = push_bit 1 x in PutUvarint (if sint x < 0 then NOT ux else ux))"

fun Uvarint_loop :: "bytes \<Rightarrow> nat \<Rightarrow> u64 \<Rightarrow> nat \<Rightarrow> u64 \<times> int" where
  "Uvarint_loop [] i x s = (0, 0)"
| "Uvarint_loop (b # buf) i x s =
     (if i = 10 then (0, - int (i + 1))
      else if b < 0x80
      then if i = 9 \<and> b > 1 then (0, - int (i + 1)) else (x OR push_bit s (ucast b), int (i + 1))
      else Uvarint_loop buf (i + 1) (x OR push_bit s (ucast (b AND 0x7f))) (s + 7))"

definition Uvarint :: "bytes \<Rightarrow> u64 \<times> int" where
  "Uvarint buf = Uvarint_loop buf 0 0 0"

definition Varint :: "bytes \<Rightarrow> u64 \<times> int" where
  "Varint buf = (let (ux, n) = Uvarint buf; x = drop_bit 1 ux in (if ux AND 1 \<noteq> 0 then NOT x else x, n))"

definition EncodeVarint :: "bytes \<Rightarrow> u64 \<Rightarrow> bytes" where
  "EncodeVarint b v = b @ PutVarint v"

definition EncodeUvarint :: "bytes \<Rightarrow> u64 \<Rightarrow> bytes" where
  "EncodeUvarint b v = b @ PutUvarint v"

definition DecodeVarint :: "bytes \<Rightarrow> u64 decoded" where
  "DecodeVarint b = (let (v, n) = Varint b in
     if n > 0 then (if nat n \<le> length b then Some (Inr (drop (nat n) b, v)) else None)
     else if n < 0 then Some (Inl ValueLargerThan64Bits) else Some (Inl InsufficientBytesToDecode))"

definition DecodeUvarint :: "bytes \<Rightarrow> u64 decoded" where
  "DecodeUvarint b = (let (v, n) = Uvarint b in
     if n > 0 then (if nat n \<le> length b then Some (Inr (drop (nat n) b, v)) else None)
     else if n < 0 then Some (Inl ValueLargerThan64Bits) else Some (Inl InsufficientBytesToDecode))"

subsection \<open>Comparable variable-length integers\<close>

definition negativeTagEnd :: byte where
  "negativeTagEnd = 8"

definition positiveTagStart :: byte where
  "positiveTagStart = 0xff - 8"

text \<open>\<^verbatim>\<open>byte(v >> k)\<close>: the bytes kept do not depend on the sign extension of the shift.\<close>

abbreviation byte_at :: "nat \<Rightarrow> u64 \<Rightarrow> byte" where
  "byte_at k v \<equiv> ucast (drop_bit k v)"

definition EncodeComparableUvarint :: "bytes \<Rightarrow> u64 \<Rightarrow> bytes" where
  "EncodeComparableUvarint b v =
     (if v \<le> ucast (positiveTagStart - negativeTagEnd) then b @ [ucast v + negativeTagEnd]
      else if v \<le> 0xff then b @ [positiveTagStart + 1, byte_at 0 v]
      else if v \<le> 0xffff then b @ [positiveTagStart + 2, byte_at 8 v, byte_at 0 v]
      else if v \<le> 0xffffff then b @ [positiveTagStart + 3, byte_at 16 v, byte_at 8 v, byte_at 0 v]
      else if v \<le> 0xffffffff then b @ [positiveTagStart + 4, byte_at 24 v, byte_at 16 v, byte_at 8 v, byte_at 0 v]
      else if v \<le> 0xffffffffff
      then b @ [positiveTagStart + 5, byte_at 32 v, byte_at 24 v, byte_at 16 v, byte_at 8 v, byte_at 0 v]
      else if v \<le> 0xffffffffffff
      then b @ [positiveTagStart + 6, byte_at 40 v, byte_at 32 v, byte_at 24 v, byte_at 16 v, byte_at 8 v, byte_at 0 v]
      else if v \<le> 0xffffffffffffff
      then b @ [positiveTagStart + 7, byte_at 48 v, byte_at 40 v, byte_at 32 v, byte_at 24 v, byte_at 16 v, byte_at 8 v, byte_at 0 v]
      else b @ [positiveTagStart + 8, byte_at 56 v, byte_at 48 v, byte_at 40 v, byte_at 32 v, byte_at 24 v, byte_at 16 v, byte_at 8 v,
             byte_at 0 v])"

definition EncodeComparableVarint :: "bytes \<Rightarrow> u64 \<Rightarrow> bytes" where
  "EncodeComparableVarint b v =
     (if sint v < 0
      then if sint v \<ge> - 0xff then b @ [negativeTagEnd - 1, byte_at 0 v]
        else if sint v \<ge> - 0xffff then b @ [negativeTagEnd - 2, byte_at 8 v, byte_at 0 v]
        else if sint v \<ge> - 0xffffff then b @ [negativeTagEnd - 3, byte_at 16 v, byte_at 8 v, byte_at 0 v]
        else if sint v \<ge> - 0xffffffff then b @ [negativeTagEnd - 4, byte_at 24 v, byte_at 16 v, byte_at 8 v, byte_at 0 v]
        else if sint v \<ge> - 0xffffffffff
        then b @ [negativeTagEnd - 5, byte_at 32 v, byte_at 24 v, byte_at 16 v, byte_at 8 v, byte_at 0 v]
        else if sint v \<ge> - 0xffffffffffff
        then b @ [negativeTagEnd - 6, byte_at 40 v, byte_at 32 v, byte_at 24 v, byte_at 16 v, byte_at 8 v, byte_at 0 v]
        else if sint v \<ge> - 0xffffffffffffff
        then b @ [negativeTagEnd - 7, byte_at 48 v, byte_at 40 v, byte_at 32 v, byte_at 24 v, byte_at 16 v, byte_at 8 v, byte_at 0 v]
        else b @ [negativeTagEnd - 8, byte_at 56 v, byte_at 48 v, byte_at 40 v, byte_at 32 v, byte_at 24 v, byte_at 16 v, byte_at 8 v,
               byte_at 0 v]
      else EncodeComparableUvarint b v)"

text \<open>The loop \<^verbatim>\<open>for _, c := range b[:length] { v = (v << 8) | uint64(c) }\<close>.\<close>

definition shift_in :: "u64 \<Rightarrow> bytes \<Rightarrow> u64" where
  "shift_in v cs = foldl (\<lambda>v c. push_bit 8 v OR ucast c) v cs"

definition DecodeComparableUvarint :: "bytes \<Rightarrow> u64 decoded" where
  "DecodeComparableUvarint b =
     (case b of
        [] \<Rightarrow> Some (Inl InsufficientBytesToDecode)
      | first # b \<Rightarrow>
          if first < negativeTagEnd then Some (Inl errDecodeInvalid)
          else if first \<le> positiveTagStart then Some (Inr (b, ucast first - ucast negativeTagEnd))
          else let length' = unat first - unat positiveTagStart in
            if length b < length' then Some (Inl InsufficientBytesToDecode)
            else Some (Inr (drop length' b, shift_in 0 (take length' b))))"

definition DecodeComparableVarint :: "bytes \<Rightarrow> u64 decoded" where
  "DecodeComparableVarint b =
     (case b of
        [] \<Rightarrow> Some (Inl InsufficientBytesToDecode)
      | first # rest \<Rightarrow>
          if first \<ge> negativeTagEnd \<and> first \<le> positiveTagStart
          then Some (Inr (b, ucast first - ucast negativeTagEnd))
          else let (length', v) =
              (if first < negativeTagEnd then (unat negativeTagEnd - unat first, math_MaxUint64)
               else (unat first - unat positiveTagStart, 0)) in
            if length rest < length' then Some (Inl InsufficientBytesToDecode)
            else let v = shift_in v (take length' rest) in
              if first > positiveTagStart \<and> v > math_MaxInt64 then Some (Inl errDecodeInvalid)
              else if first < negativeTagEnd \<and> v \<le> math_MaxInt64 then Some (Inl errDecodeInvalid)
              else Some (Inr (drop length' rest, v)))"

subsection \<open>Fixed-width integers keep the order\<close>

lemma bit_signMask: "bit signMask n \<longleftrightarrow> n = 63"
proof -
  have "signMask = push_bit 63 1" by (simp add: signMask_def push_bit_eq_mult)
  then have "bit signMask n = bit (push_bit 63 1 :: u64) n" by (rule arg_cong)
  also have "\<dots> \<longleftrightarrow> n = 63" unfolding bit_push_bit_iff by (auto simp: bit_1_iff)
  finally show ?thesis .
qed

lemma xor_signMask: "(x XOR signMask) XOR signMask = x"
  by (simp add: xor.assoc)

lemma signMask_plus: "x XOR signMask = x + signMask"
proof (cases "bit x 63")
  case False
  then have "x AND signMask = 0" by (intro bit_word_eqI) (auto simp: bit_simps bit_signMask)
  then show ?thesis by (simp add: disjunctive_add_eq_xor)
next
  case True
  then have "(x XOR signMask) AND signMask = 0" by (intro bit_word_eqI) (auto simp: bit_simps bit_signMask)
  then have "(x XOR signMask) + signMask = x" by (simp add: disjunctive_add_eq_xor xor_signMask)
  then have "x + signMask = (x XOR signMask) + (signMask + signMask)" by (simp only: add.assoc [symmetric])
  moreover have "signMask + signMask = 0" by (simp add: signMask_def)
  ultimately show ?thesis by simp
qed

lemma CmpUint_inverse [simp]: "DecodeCmpUintToInt (EncodeIntToCmpUint v) = v"
  by (simp add: DecodeCmpUintToInt_def EncodeIntToCmpUint_def xor_signMask)

lemma uint_EncodeIntToCmpUint: "uint (EncodeIntToCmpUint v) = sint v + 2 ^ 63"
  using fits_sint [of v] unfolding EncodeIntToCmpUint_def signMask_plus
  by (intro uint_eqI) (simp_all add: signMask_def fits_i64_def fits_u64_def)

lemma EncodeIntToCmpUint_less: "EncodeIntToCmpUint v < EncodeIntToCmpUint w \<longleftrightarrow> sint v < sint w"
  by (simp add: word_less_def uint_EncodeIntToCmpUint)

lemma take_8_PutUint64 [simp]: "take 8 (PutUint64 v @ rest) = PutUint64 v" "drop 8 (PutUint64 v @ rest) = rest"
  by (simp_all add: PutUint64_def)

lemma fixed_roundtrip:
  "DecodeInt (EncodeInt [] v @ rest) = Some (Inr (rest, v))" "DecodeIntDesc (EncodeIntDesc [] v @ rest) = Some (Inr (rest, v))"
  "DecodeUint (EncodeUint [] v @ rest) = Some (Inr (rest, v))" "DecodeUintDesc (EncodeUintDesc [] v @ rest) = Some (Inr (rest, v))"
  by (simp_all add: DecodeInt_def EncodeInt_def DecodeIntDesc_def EncodeIntDesc_def DecodeUint_def EncodeUint_def DecodeUintDesc_def
    EncodeUintDesc_def Let_def)

lemma PutUint64_append_less: "PutUint64 v @ s < PutUint64 w @ t \<longleftrightarrow> v < w \<or> v = w \<and> s < t"
  by (simp add: lex_append_eq_length)

subsection \<open>Variable-length integers\<close>

lemma ucast_ucast_small: "unat v < 256 \<Longrightarrow> ucast (ucast (v :: u64) :: byte) = v"
proof -
  assume "unat v < 256"
  then have t: "take_bit 8 v = v" by (simp add: word_unat_eq_iff unsigned_take_bit_eq take_bit_nat_eq_self)
  have "ucast (ucast v :: byte) = take_bit 8 v" by (rule bit_word_eqI) (auto simp: bit_simps)
  with t show ?thesis by simp
qed

lemma PutUvarint_short: "x < 0x80 \<Longrightarrow> PutUvarint x = [ucast x]"
  by (subst PutUvarint.simps) (auto simp: not_le [symmetric])

lemma PutUvarint_long: "x \<ge> 0x80 \<Longrightarrow> PutUvarint x = (ucast x OR 0x80) # PutUvarint (drop_bit 7 x)"
  by (subst PutUvarint.simps) simp

lemma continuation_byte: "\<not> (b OR 0x80 :: byte) < 0x80" "(b OR 0x80) AND 0x7f = b AND (0x7f :: byte)"
  using le_word_or1 [of "0x80 :: byte" b] by (simp_all add: not_less bit.conj_disj_distrib2)

lemma low_bits_split:
  assumes "\<And>n. bit (c :: byte) n \<longleftrightarrow> n < 7"
  shows "(x OR push_bit s (ucast ((ucast v :: byte) AND c))) OR push_bit (s + 7) (drop_bit 7 v) = x OR push_bit s (v :: u64)"
proof (rule bit_word_eqI)
  fix n
  show "bit ((x OR push_bit s (ucast ((ucast v :: byte) AND c))) OR push_bit (s + 7) (drop_bit 7 v)) n = bit (x OR push_bit s v) n"
    if "n < LENGTH(64)" using that by (cases "n < s + 7") (auto simp: bit_simps assms)
qed

lemma Uvarint_step: "(x OR push_bit s (ucast ((ucast v :: byte) AND 0x7f))) OR push_bit (s + 7) (drop_bit 7 v) = x OR push_bit s (v :: u64)"
proof (rule low_bits_split)
  have "(0x7f :: byte) = mask 7" by (simp add: mask_eq_exp_minus_1)
  then show "bit (0x7f :: byte) n \<longleftrightarrow> n < 7" for n by (simp only: bit_mask_iff) auto
qed

lemma Uvarint_loop_PutUvarint:
  "unat v < 2 ^ (64 - 7 * i) \<Longrightarrow> i \<le> 9 \<Longrightarrow>
   Uvarint_loop (PutUvarint v @ rest) i x (7 * i) = (x OR push_bit (7 * i) v, int (i + length (PutUvarint v)))"
proof (induction v arbitrary: i x rule: PutUvarint.induct)
  case (1 v)
  show ?case
  proof (cases "v \<ge> 0x80")
    case True
    then have v: "128 \<le> unat v" by (simp add: word_le_nat_alt)
    have i: "i \<le> 8"
    proof (rule ccontr)
      assume "\<not> i \<le> 8"
      with "1.prems" have "i = 9" by simp
      with "1.prems" v show False by simp
    qed
    have "unat (drop_bit 7 v) < 2 ^ (64 - 7 * (i + 1))"
    proof -
      have "2 ^ (64 - 7 * i) = (2 :: nat) ^ (64 - 7 * (i + 1)) * 2 ^ 7"
        unfolding power_add [symmetric] using i by (intro arg_cong [of _ _ "\<lambda>n. 2 ^ n"]) simp
      with "1.prems" show ?thesis by (simp add: unat_drop_bit_u64 less_mult_imp_div_less)
    qed
    note IH = "1.IH" [OF True this]
    show ?thesis using True i IH Uvarint_step [of x "7 * i" v]
      by (simp add: PutUvarint_long continuation_byte algebra_simps)
  next
    case False
    then have v: "unat v < 128" by (simp add: word_le_nat_alt)
    have b: "unat (ucast v :: byte) = unat v" using v by (simp add: unsigned_ucast_eq take_bit_nat_eq_self)
    have "(ucast v :: byte) < 0x80" using b v by (simp add: word_less_nat_alt)
    moreover have "\<not> (1 < (ucast v :: byte))" if "i = 9" using b "1.prems" that by (simp add: word_less_nat_alt)
    moreover have "ucast (ucast v :: byte) = v" by (rule ucast_ucast_small) (use v in simp)
    ultimately show ?thesis using False "1.prems"(2) by (auto simp: PutUvarint_short not_le)
  qed
qed

lemma Uvarint_PutUvarint: "Uvarint (PutUvarint v @ rest) = (v, int (length (PutUvarint v)))"
  using Uvarint_loop_PutUvarint [of v 0 rest 0] unat_u64_bound [of v] by (simp add: Uvarint_def)

lemma PutUvarint_nonempty: "PutUvarint v \<noteq> []"
  by (subst PutUvarint.simps) simp

definition zigzag :: "u64 \<Rightarrow> u64" where
  "zigzag x = (let ux = push_bit 1 x in if sint x < 0 then NOT ux else ux)"

lemma PutVarint_zigzag: "PutVarint x = PutUvarint (zigzag x)"
  by (simp add: PutVarint_def zigzag_def Let_def)

lemma sint_less_0_bit: "sint (x :: u64) < 0 \<longleftrightarrow> bit x 63"
  using bit_last_iff [of x] by simp

lemma zigzag_inverse: "(if zigzag x AND 1 \<noteq> 0 then NOT (drop_bit 1 (zigzag x)) else drop_bit 1 (zigzag x)) = x"
proof -
  define y where "y = push_bit 1 x"
  have y: "bit y (Suc n) \<longleftrightarrow> n < 63 \<and> bit x n" "\<not> bit y 0" for n
    unfolding y_def bit_push_bit_iff by (auto dest: bit_imp_le_length)
  have z: "zigzag x = (if bit x 63 then NOT y else y)" by (simp add: zigzag_def y_def Let_def sint_less_0_bit)
  show ?thesis
  proof (cases "bit x 63")
    case True
    have "bit (NOT y AND 1) 0" using y(2) unfolding bit_and_iff bit_not_iff by simp
    then have "NOT y AND 1 \<noteq> 0" by fastforce
    moreover have "NOT (drop_bit 1 (NOT y)) = x"
      using True by (intro bit_word_eqI) (auto simp: bit_simps y not_less_eq less_Suc_eq)
    ultimately show ?thesis using True z by simp
  next
    case False
    have "\<not> bit (y AND 1) n" for n using y(2) by (cases n) (auto simp: bit_simps)
    then have "y AND 1 = 0" by (intro bit_word_eqI) simp
    moreover have "n < 63" if "bit x n" "n < 64" for n using that False by (cases "n = 63") auto
    then have "drop_bit 1 y = x" by (intro bit_word_eqI) (auto simp: bit_simps y)
    ultimately show ?thesis using False z by simp
  qed
qed

lemma Varint_PutVarint: "Varint (PutVarint v @ rest) = (v, int (length (PutVarint v)))"
  using zigzag_inverse [of v] by (simp add: Varint_def PutVarint_zigzag Uvarint_PutUvarint Let_def del: One_nat_def split: if_splits)

lemma PutVarint_nonempty: "PutVarint v \<noteq> []"
  by (simp add: PutVarint_zigzag PutUvarint_nonempty)

lemma varint_roundtrip:
  "DecodeVarint (EncodeVarint [] v @ rest) = Some (Inr (rest, v))" "DecodeUvarint (EncodeUvarint [] v @ rest) = Some (Inr (rest, v))"
  by (simp_all add: DecodeVarint_def EncodeVarint_def DecodeUvarint_def EncodeUvarint_def Varint_PutVarint Uvarint_PutUvarint
    PutVarint_nonempty PutUvarint_nonempty Let_def)

lemma Uvarint_loop_bound: "Uvarint_loop buf i x s = (v, n) \<Longrightarrow> n \<le> int (i + length buf)"
  by (induction buf i x s rule: Uvarint_loop.induct) (auto split: if_splits)

lemma Uvarint_bound: "Uvarint buf = (v, n) \<Longrightarrow> nat n \<le> length buf"
  using Uvarint_loop_bound [of buf 0 0 0 v n] by (simp add: Uvarint_def)

text \<open>Reading a variable-length integer never slices out of bounds.\<close>

lemma DecodeUvarint_no_panic: "DecodeUvarint b \<noteq> None"
  using Uvarint_bound [of b] by (auto simp: DecodeUvarint_def split: prod.splits)

lemma DecodeVarint_no_panic: "DecodeVarint b \<noteq> None"
  using Uvarint_bound [of b] by (auto simp: DecodeVarint_def Varint_def Let_def split: prod.splits)

subsection \<open>Comparable variable-length integers\<close>

text \<open>The \<open>n\<close> low bytes of a word in big-endian order.\<close>

fun low_bytes :: "nat \<Rightarrow> u64 \<Rightarrow> bytes" where
  "low_bytes 0 v = []"
| "low_bytes (Suc n) v = byte_at (8 * n) v # low_bytes n v"

lemma length_low_bytes [simp]: "length (low_bytes n v) = n"
  by (induction n) simp_all

lemma be_nat_low_bytes: "be_nat (low_bytes n v) = unat v mod 256 ^ n"
proof (induction n)
  case (Suc n)
  have "(256 :: nat) ^ n = 2 ^ (8 * n)" by (simp add: power_mult)
  then have "unat v mod 256 ^ Suc n = unat v div 2 ^ (8 * n) mod 256 * 256 ^ n + unat v mod 256 ^ n"
    using mod_mult2_eq [of "unat v" "256 ^ n" 256] by (simp add: mult.commute)
  then show ?case using Suc by (simp add: unat_byte_of)
qed simp

lemma shift_in_Cons: "shift_in v (c # cs) = shift_in (push_bit 8 v OR ucast c) cs"
  by (simp add: shift_in_def)

lemma shift_in_low_bytes: "shift_in (drop_bit (8 * n) v) (low_bytes n v) = v"
proof (induction n)
  case (Suc n)
  have "push_bit 8 (drop_bit (8 * Suc n) v) OR ucast (byte_at (8 * n) v) = drop_bit (8 * n) v"
    by (rule bit_word_eqI) (auto simp: bit_simps algebra_simps)
  then show ?case using Suc by (simp only: low_bytes.simps shift_in_Cons)
qed (simp add: shift_in_def)

lemma shift_in_push: "shift_in u cs = push_bit (8 * length cs) u OR shift_in 0 cs"
proof (induction cs arbitrary: u)
  case (Cons c cs)
  have "push_bit (8 * length cs) (push_bit 8 u OR ucast c) = push_bit (8 * length (c # cs)) u OR push_bit (8 * length cs) (ucast c)"
    by (simp add: push_bit_or push_bit_push_bit add.commute)
  then show ?case
    using Cons [of "push_bit 8 u OR ucast c"] Cons [of "ucast c"] by (simp add: shift_in_Cons or.assoc)
qed (simp add: shift_in_def)

lemma high_bits_zero: "unat v < 256 ^ n \<Longrightarrow> drop_bit (8 * n) (v :: u64) = 0"
  by (simp add: word_unat_eq_iff unat_drop_bit_u64 power_mult)

lemma shift_in_unsigned: "unat v < 256 ^ n \<Longrightarrow> shift_in 0 (low_bytes n v) = v"
  using shift_in_low_bytes [of n v] by (simp add: high_bits_zero)

lemma shift_in_signed:
  assumes "unat (NOT v) < 256 ^ n"
  shows "shift_in math_MaxUint64 (low_bytes n v) = v"
proof -
  have "push_bit (8 * n) (drop_bit (8 * n) v) = push_bit (8 * n) (- 1 :: u64)"
  proof (rule bit_word_eqI)
    fix k
    assume k: "k < LENGTH(64)"
    have "\<not> bit (drop_bit (8 * n) (NOT v)) (k - 8 * n)" using high_bits_zero [OF assms] by simp
    then show "bit (push_bit (8 * n) (drop_bit (8 * n) v)) k = bit (push_bit (8 * n) (- 1 :: u64)) k"
      using k by (auto simp: bit_simps)
  qed
  then show ?thesis
    using shift_in_low_bytes [of n v] shift_in_push [of "drop_bit (8 * n) v" "low_bytes n v"]
      shift_in_push [of "- 1" "low_bytes n v"] by (simp add: math_MaxUint64_def)
qed

text \<open>The number of bytes after the tag.\<close>

definition ubytes :: "u64 \<Rightarrow> nat" where
  "ubytes v = (if v \<le> 0xff then 1 else if v \<le> 0xffff then 2 else if v \<le> 0xffffff then 3 else if v \<le> 0xffffffff then 4
     else if v \<le> 0xffffffffff then 5 else if v \<le> 0xffffffffffff then 6 else if v \<le> 0xffffffffffffff then 7 else 8)"

definition nbytes :: "u64 \<Rightarrow> nat" where
  "nbytes v = (if sint v \<ge> - 0xff then 1 else if sint v \<ge> - 0xffff then 2 else if sint v \<ge> - 0xffffff then 3
     else if sint v \<ge> - 0xffffffff then 4 else if sint v \<ge> - 0xffffffffff then 5 else if sint v \<ge> - 0xffffffffffff then 6
     else if sint v \<ge> - 0xffffffffffffff then 7 else 8)"

lemma low_bytes_numeral:
  "low_bytes 1 v = [byte_at 0 v]" "low_bytes 2 v = [byte_at 8 v, byte_at 0 v]" "low_bytes 3 v = [byte_at 16 v, byte_at 8 v, byte_at 0 v]"
  "low_bytes 4 v = [byte_at 24 v, byte_at 16 v, byte_at 8 v, byte_at 0 v]"
  "low_bytes 5 v = [byte_at 32 v, byte_at 24 v, byte_at 16 v, byte_at 8 v, byte_at 0 v]"
  "low_bytes 6 v = [byte_at 40 v, byte_at 32 v, byte_at 24 v, byte_at 16 v, byte_at 8 v, byte_at 0 v]"
  "low_bytes 7 v = [byte_at 48 v, byte_at 40 v, byte_at 32 v, byte_at 24 v, byte_at 16 v, byte_at 8 v, byte_at 0 v]"
  "low_bytes 8 v = [byte_at 56 v, byte_at 48 v, byte_at 40 v, byte_at 32 v, byte_at 24 v, byte_at 16 v, byte_at 8 v, byte_at 0 v]"
  by (simp_all add: eval_nat_numeral)

lemma EncodeComparableUvarint_eq:
  "EncodeComparableUvarint b v =
     b @ (if v \<le> 239 then [ucast v + 8] else (247 + of_nat (ubytes v)) # low_bytes (ubytes v) v)"
  by (simp add: EncodeComparableUvarint_def ubytes_def positiveTagStart_def negativeTagEnd_def low_bytes_numeral)

lemma EncodeComparableVarint_neg:
  "sint v < 0 \<Longrightarrow> EncodeComparableVarint b v = b @ (8 - of_nat (nbytes v)) # low_bytes (nbytes v) v"
  by (simp add: EncodeComparableVarint_def nbytes_def negativeTagEnd_def low_bytes_numeral)

lemma ubytes_bounds: "1 \<le> ubytes v" "ubytes v \<le> 8" "unat v < 256 ^ ubytes v"
  using unat_u64_bound [of v] by (auto simp: ubytes_def word_le_nat_alt)

lemma ubytes_mono: "v \<le> w \<Longrightarrow> ubytes v \<le> ubytes w"
  by (auto simp: ubytes_def dest: order_trans)

lemma nbytes_bounds: "1 \<le> nbytes v" "nbytes v \<le> 8"
  by (auto simp: nbytes_def)

lemma nbytes_range: "- (256 ^ nbytes v) < sint v"
  using fits_sint [of v] by (auto simp: nbytes_def fits_i64_def)

lemma nbytes_mono: "sint v \<le> sint w \<Longrightarrow> nbytes w \<le> nbytes v"
  by (auto simp: nbytes_def)

lemma uint_neg: "sint v < 0 \<Longrightarrow> uint (v :: u64) = sint v + 2 ^ 64"
  using fits_sint [of v] by (intro uint_eqI) (simp_all add: fits_i64_def fits_u64_def)

lemma unat_neg: "sint v < 0 \<Longrightarrow> int (unat (v :: u64)) = sint v + 2 ^ 64"
  using uint_neg [of v] by simp

lemma unat_NOT_neg: "sint v < 0 \<Longrightarrow> unat (NOT v) < 256 ^ nbytes v"
proof -
  assume "sint v < 0"
  then have "uint (NOT v) = - sint v - 1"
    using fits_sint [of v] by (intro uint_eqI) (simp_all add: not_eq_complement fits_i64_def fits_u64_def)
  then have "int (unat (NOT v)) < int (256 ^ nbytes v)" using nbytes_range [of v] by simp
  then show ?thesis by (simp only: of_nat_less_iff)
qed

lemma low_neg:
  assumes "sint v < 0" "- (256 ^ n) < sint v" "n \<le> 8"
  shows "int (be_nat (low_bytes n v)) = 256 ^ n + sint v"
proof -
  have "(2 ^ 64 :: int) = 256 ^ (8 - n) * 256 ^ n" using assms(3) unfolding power_add [symmetric] by simp
  then have "int (unat v) = 256 ^ n + sint v + (256 ^ (8 - n) - 1) * 256 ^ n" using unat_neg [OF assms(1)] by (simp add: algebra_simps)
  then have "int (unat v) mod 256 ^ n = (256 ^ n + sint v) mod 256 ^ n" by (simp only: mod_mult_self1)
  also have "\<dots> = 256 ^ n + sint v" using assms(1,2) by (intro mod_pos_pos_trivial) simp_all
  finally have "int (unat v) mod 256 ^ n = 256 ^ n + sint v" .
  then show ?thesis by (simp add: be_nat_low_bytes zmod_int)
qed

definition tag_of :: "u64 \<Rightarrow> byte" where
  "tag_of v = (if sint v < 0 then 8 - of_nat (nbytes v) else if v \<le> 239 then ucast v + 8 else 247 + of_nat (ubytes v))"

definition tail_of :: "u64 \<Rightarrow> bytes" where
  "tail_of v = (if sint v < 0 then low_bytes (nbytes v) v else if v \<le> 239 then [] else low_bytes (ubytes v) v)"

lemma EncodeComparableVarint_eq: "EncodeComparableVarint b v = b @ tag_of v # tail_of v"
proof (cases "sint v < 0")
  case False
  then show ?thesis by (simp add: EncodeComparableVarint_def EncodeComparableUvarint_eq tag_of_def tail_of_def)
qed (simp add: EncodeComparableVarint_neg tag_of_def tail_of_def)

lemma unat_tag_of:
  "unat (tag_of v) = (if sint v < 0 then 8 - nbytes v else if v \<le> 239 then unat v + 8 else 247 + ubytes v)"
proof -
  have "unat (8 - of_nat (nbytes v) :: byte) = 8 - nbytes v"
    using nbytes_bounds [of v] by (subst unat_sub) (auto simp: word_le_nat_alt unat_of_nat)
  moreover have "unat (247 + of_nat (ubytes v) :: byte) = 247 + ubytes v"
    using ubytes_bounds(2) [of v] by (subst unat_add_lem [THEN iffD1]) (auto simp: unat_of_nat)
  moreover have "unat (ucast v + 8 :: byte) = unat v + 8" if "v \<le> 239"
  proof -
    have "unat v \<le> 239" using that by (simp add: word_le_nat_alt)
    then show ?thesis by (subst unat_add_lem [THEN iffD1]) (auto simp: unsigned_ucast_eq take_bit_nat_eq_self)
  qed
  ultimately show ?thesis by (simp add: tag_of_def)
qed

lemma comparable_varint_mono:
  assumes "sint v < sint w"
  shows "EncodeComparableVarint [] v @ s < EncodeComparableVarint [] w @ t"
proof -
  have "unat (tag_of v) < unat (tag_of w) \<or> tag_of v = tag_of w \<and> length (tail_of v) = length (tail_of w) \<and> be_nat (tail_of v) < be_nat (tail_of w)"
  proof (cases "sint w < 0")
    case True
    then have v: "sint v < 0" using assms by simp
    have "nbytes w \<le> nbytes v" using nbytes_mono assms by simp
    moreover have "be_nat (low_bytes (nbytes v) v) < be_nat (low_bytes (nbytes v) w)" if "nbytes w = nbytes v"
      using low_neg [OF v nbytes_range nbytes_bounds(2)] low_neg [OF True nbytes_range nbytes_bounds(2)] assms that by simp
    ultimately show ?thesis using True v nbytes_bounds [of v]
      by (cases "nbytes w = nbytes v") (auto simp: unat_tag_of tail_of_def word_unat_eq_iff)
  next
    case False
    show ?thesis
    proof (cases "sint v < 0")
      case True
      then have "unat (tag_of v) < unat (tag_of w)" using False nbytes_bounds [of v] by (auto simp: unat_tag_of)
      then show ?thesis by blast
    next
      case v: False
      then have lt: "v < w" using False assms by (simp add: word_less_def uint_of_nonneg)
      then have "ubytes v \<le> ubytes w" by (simp add: ubytes_mono)
      moreover have "be_nat (low_bytes (ubytes v) v) < be_nat (low_bytes (ubytes v) w)" if "ubytes w = ubytes v"
        using that ubytes_bounds(3) [of v] ubytes_bounds(3) [of w] lt by (simp add: be_nat_low_bytes word_less_nat_alt)
      ultimately show ?thesis using False v lt ubytes_bounds [of w]
        by (auto simp: unat_tag_of tail_of_def word_unat_eq_iff word_le_nat_alt word_less_nat_alt)
    qed
  qed
  then show ?thesis
    by (auto simp: EncodeComparableVarint_eq word_less_nat_alt be_nat_less lex_append_less)
qed

lemma comparable_varint_less:
  "EncodeComparableVarint [] v @ s < EncodeComparableVarint [] w @ t \<longleftrightarrow> sint v < sint w \<or> v = w \<and> s < t"
proof -
  consider "sint v < sint w" | "sint w < sint v" | "v = w" using sint_inject by force
  then show ?thesis
  proof cases
    case 1
    then show ?thesis using comparable_varint_mono [OF 1] by simp
  next
    case 2
    then have "\<not> EncodeComparableVarint [] v @ s < EncodeComparableVarint [] w @ t"
      using comparable_varint_mono [OF 2] by (meson not_less_iff_gr_or_eq)
    with 2 show ?thesis by auto
  qed simp
qed

lemma tag_of_cmp:
  "tag_of v < 8 \<longleftrightarrow> sint v < 0" "sint v \<ge> 0 \<Longrightarrow> tag_of v \<le> 247 \<longleftrightarrow> v \<le> 239"
  using nbytes_bounds [of v] ubytes_bounds [of v] by (auto simp: word_less_nat_alt word_le_nat_alt unat_tag_of split: if_splits)

lemma ucast_tag: "v \<le> 239 \<Longrightarrow> (ucast (ucast v + 8 :: byte) :: u64) - 8 = v"
proof -
  assume "v \<le> 239"
  then have v: "unat v \<le> 239" by (simp add: word_le_nat_alt)
  then have "unat (ucast v + 8 :: byte) = unat v + 8"
    by (subst unat_add_lem [THEN iffD1]) (auto simp: unsigned_ucast_eq take_bit_nat_eq_self)
  then have "(ucast (ucast v + 8 :: byte) :: u64) = v + 8"
    using v by (simp add: word_unat_eq_iff unsigned_ucast_eq take_bit_nat_eq_self unat_add_u64)
  then show ?thesis by simp
qed

lemma DecodeComparableUvarint_Encode: "DecodeComparableUvarint (EncodeComparableUvarint [] v @ rest) = Some (Inr (rest, v))"
proof (cases "v \<le> 239")
  case True
  have "unat v \<le> 239" using True by (simp add: word_le_nat_alt)
  then have "unat (ucast v + 8 :: byte) = unat v + 8"
    by (subst unat_add_lem [THEN iffD1]) (auto simp: unsigned_ucast_eq take_bit_nat_eq_self)
  then have "\<not> (ucast v + 8 :: byte) < 8" "(ucast v + 8 :: byte) \<le> 247"
    using \<open>unat v \<le> 239\<close> by (simp_all add: word_less_nat_alt word_le_nat_alt)
  with True ucast_tag [OF True] show ?thesis
    by (simp add: DecodeComparableUvarint_def EncodeComparableUvarint_eq negativeTagEnd_def positiveTagStart_def)
next
  case False
  have u: "unat (247 + of_nat (ubytes v) :: byte) = 247 + ubytes v"
    using ubytes_bounds(2) [of v] by (subst unat_add_lem [THEN iffD1]) (auto simp: unat_of_nat)
  then have "\<not> (247 + of_nat (ubytes v) :: byte) < 8" "\<not> (247 + of_nat (ubytes v) :: byte) \<le> 247"
    using ubytes_bounds(1) [of v] by (simp_all add: word_less_nat_alt word_le_nat_alt)
  with False u shift_in_unsigned [OF ubytes_bounds(3), of v] show ?thesis
    by (simp add: DecodeComparableUvarint_def EncodeComparableUvarint_eq negativeTagEnd_def positiveTagStart_def Let_def)
qed

lemma DecodeComparableVarint_Encode:
  "DecodeComparableVarint (EncodeComparableVarint [] v @ rest) =
     Some (Inr (if 0 \<le> sint v \<and> sint v \<le> 239 then EncodeComparableVarint [] v @ rest else rest, v))"
proof -
  have le: "v \<le> 239 \<longleftrightarrow> sint v \<le> 239" if "0 \<le> sint v" using that by (simp add: word_le_def uint_of_nonneg)
  consider "sint v < 0" | "0 \<le> sint v" "v \<le> 239" | "0 \<le> sint v" "\<not> v \<le> 239" by linarith
  then show ?thesis
  proof cases
    case 1
    then have t: "tag_of v < 8" "tail_of v = low_bytes (nbytes v) v" "unat (tag_of v) = 8 - nbytes v"
      by (simp_all add: tag_of_cmp tail_of_def unat_tag_of)
    then have "\<not> 247 < tag_of v" by (simp add: word_less_nat_alt)
    moreover have "\<not> v \<le> math_MaxInt64" using 1 uint_neg [OF 1] fits_sint [of v] by (simp add: word_le_def fits_i64_def)
    ultimately show ?thesis using 1 t nbytes_bounds [of v] shift_in_signed [OF unat_NOT_neg [OF 1]]
      by (simp add: DecodeComparableVarint_def EncodeComparableVarint_eq negativeTagEnd_def positiveTagStart_def not_le)
  next
    case 2
    then show ?thesis using le tag_of_cmp [of v] ucast_tag [of v]
      by (simp add: DecodeComparableVarint_def EncodeComparableVarint_eq negativeTagEnd_def positiveTagStart_def not_less tag_of_def)
  next
    case 3
    then have t: "\<not> tag_of v < 8" "\<not> tag_of v \<le> 247" "tail_of v = low_bytes (ubytes v) v" "unat (tag_of v) = 247 + ubytes v"
      by (simp_all add: tag_of_cmp tail_of_def unat_tag_of)
    have "v \<le> math_MaxInt64" using 3 fits_sint [of v] by (simp add: word_le_def fits_i64_def uint_of_nonneg)
    with 3 t le shift_in_unsigned [OF ubytes_bounds(3), of v] show ?thesis
      by (simp add: DecodeComparableVarint_def EncodeComparableVarint_eq negativeTagEnd_def positiveTagStart_def not_less [symmetric])
  qed
qed

text \<open>C37. Integers are read back exactly as they were written, whatever bytes follow, in every fixed-width and
  variable-length format.  The one flaw is the comparable signed format: the value is right, but for values from 0 to 239 the byte that holds it
  is not removed from the slice that is left.\<close>

theorem integer_codecs_roundtrip:
  "DecodeInt (EncodeInt [] v @ rest) = Some (Inr (rest, v)) \<and> DecodeIntDesc (EncodeIntDesc [] v @ rest) = Some (Inr (rest, v)) \<and>
   DecodeUint (EncodeUint [] v @ rest) = Some (Inr (rest, v)) \<and> DecodeUintDesc (EncodeUintDesc [] v @ rest) = Some (Inr (rest, v)) \<and>
   DecodeVarint (EncodeVarint [] v @ rest) = Some (Inr (rest, v)) \<and> DecodeUvarint (EncodeUvarint [] v @ rest) = Some (Inr (rest, v)) \<and>
   DecodeComparableUvarint (EncodeComparableUvarint [] v @ rest) = Some (Inr (rest, v)) \<and>
   DecodeComparableVarint (EncodeComparableVarint [] v @ rest) =
     Some (Inr (if 0 \<le> sint v \<and> sint v \<le> 239 then EncodeComparableVarint [] v @ rest else rest, v))"
  using fixed_roundtrip varint_roundtrip DecodeComparableUvarint_Encode DecodeComparableVarint_Encode by blast

text \<open>C38. The bytewise order of encoded integers, with any bytes after them, is the order of the integers: signed for
  the signed formats, unsigned for the unsigned ones, reversed for the descending ones.\<close>

theorem integer_codecs_memcomparable:
  "(EncodeInt [] v @ s < EncodeInt [] w @ t \<longleftrightarrow> sint v < sint w \<or> v = w \<and> s < t) \<and>
   (EncodeIntDesc [] v @ s < EncodeIntDesc [] w @ t \<longleftrightarrow> sint w < sint v \<or> v = w \<and> s < t) \<and>
   (EncodeUint [] v @ s < EncodeUint [] w @ t \<longleftrightarrow> v < w \<or> v = w \<and> s < t) \<and>
   (EncodeUintDesc [] v @ s < EncodeUintDesc [] w @ t \<longleftrightarrow> w < v \<or> v = w \<and> s < t) \<and>
   (EncodeComparableVarint [] v @ s < EncodeComparableVarint [] w @ t \<longleftrightarrow> sint v < sint w \<or> v = w \<and> s < t)"
proof -
  have "EncodeIntToCmpUint v = EncodeIntToCmpUint w \<longleftrightarrow> v = w" by (metis CmpUint_inverse)
  then show ?thesis
    using comparable_varint_less [of v s w t]
    by (simp add: EncodeInt_def EncodeIntDesc_def EncodeUint_def EncodeUintDesc_def Let_def PutUint64_append_less EncodeIntToCmpUint_less)
qed

end
