(* ===== verification/Sql_Bytes.thy ===== *)
theory Sql_Bytes
  imports Codec Sql_Number
begin

text \<open>
  The codecs of byte strings and floating point numbers of the SQL layer (\<^verbatim>\<open>src/tinysql/util/codec/bytes.go\<close> and
  \<^verbatim>\<open>float.go\<close>): memcomparable, descending and compact byte strings, and floats ordered through their bit patterns.
\<close>

subsection \<open>Byte strings\<close>

text \<open>\<^verbatim>\<open>reallocBytes\<close> only grows the capacity of the slice.\<close>

definition reallocBytes :: "bytes \<Rightarrow> int \<Rightarrow> bytes" where
  "reallocBytes b n = b"

text \<open>
  The loop of \<^verbatim>\<open>EncodeBytes\<close> is the one of \<^verbatim>\<open>tinykv/kv/util/codec\<close>, started with the slice that is appended to.
\<close>

definition sql_EncodeBytes :: "bytes \<Rightarrow> bytes \<Rightarrow> bytes" where
  "sql_EncodeBytes b data =
     (let dLen = length data; reallocSize = (dLen div encGroupSize + 1) * (encGroupSize + 1); result = reallocBytes b (int reallocSize)
      in EncodeBytes_loop data 0 result)"

text \<open>
  Complementing the bytes of a slice: eight at a time through machine words (little endian), the rest one by one,
  or all one by one on architectures without unaligned access.
\<close>

definition wordSize :: nat where
  "wordSize = 8"

fun reverse_words :: "nat \<Rightarrow> bytes \<Rightarrow> bytes option" where
  "reverse_words 0 b = Some []"
| "reverse_words (Suc w) b = do {
     x \<leftarrow> Uint64 (rev (take wordSize b));
     rest \<leftarrow> reverse_words w (drop wordSize b);
     Some (rev (PutUint64 (NOT x)) @ rest)
   }"

definition fastReverseBytes :: "bytes \<Rightarrow> bytes option" where
  "fastReverseBytes b = (let n = length b; w = n div wordSize in do {
     ws \<leftarrow> (if w > 0 then reverse_words w b else Some []);
     Some (ws @ map NOT (drop (w * wordSize) b))
   })"

definition safeReverseBytes :: "bytes \<Rightarrow> bytes" where
  "safeReverseBytes b = map NOT b"

definition reverseBytes :: "bool \<Rightarrow> bytes \<Rightarrow> bytes option" where
  "reverseBytes supportsUnaligned b = (if supportsUnaligned then fastReverseBytes b else Some (safeReverseBytes b))"

function sql_decodeBytes_loop :: "bool \<Rightarrow> bytes \<Rightarrow> bytes \<Rightarrow> sql_codec_error + bytes \<times> bytes" where
  "sql_decodeBytes_loop reverse b buf =
     (if length b < encGroupSize + 1 then Inl InsufficientBytesToDecode
      else let groupBytes = take (encGroupSize + 1) b;
               group = take encGroupSize groupBytes;
               marker = groupBytes ! encGroupSize;
               padCount = (if reverse then marker else encMarker - marker)
           in if padCount > of_nat encGroupSize then Inl (InvalidMarkerByte groupBytes)
              else let realGroupSize = unat (of_nat encGroupSize - padCount);
                       buf' = buf @ take realGroupSize group;
                       b' = drop (encGroupSize + 1) b
                   in if padCount \<noteq> 0
                      then let padByte = (if reverse then encMarker else encPad) in
                           if list_ex (\<lambda>v. v \<noteq> padByte) (drop realGroupSize group)
                           then Inl (InvalidPaddingByte groupBytes)
                           else Inr (b', buf')
                      else sql_decodeBytes_loop reverse b' buf')"
  by pat_completeness auto
termination
  by (relation "measure (\<lambda>(reverse, b, buf). length b)") (auto simp: encGroupSize_def)

declare sql_decodeBytes_loop.simps [simp del]

definition sql_decodeBytes :: "bool \<Rightarrow> bytes \<Rightarrow> bool \<Rightarrow> bytes decoded" where
  "sql_decodeBytes supportsUnaligned b reverse =
     (case sql_decodeBytes_loop reverse b [] of
        Inl err \<Rightarrow> Some (Inl err)
      | Inr (b, buf) \<Rightarrow> if reverse then do { buf \<leftarrow> reverseBytes supportsUnaligned buf; Some (Inr (b, buf)) } else Some (Inr (b, buf)))"

definition sql_DecodeBytes :: "bool \<Rightarrow> bytes \<Rightarrow> bytes decoded" where
  "sql_DecodeBytes supportsUnaligned b = sql_decodeBytes supportsUnaligned b False"

definition EncodeBytesDesc :: "bool \<Rightarrow> bytes \<Rightarrow> bytes \<Rightarrow> bytes option" where
  "EncodeBytesDesc supportsUnaligned b data =
     (let n = length b; b = sql_EncodeBytes b data in do {
        tl \<leftarrow> reverseBytes supportsUnaligned (drop n b);
        Some (take n b @ tl)
      })"

definition DecodeBytesDesc :: "bool \<Rightarrow> bytes \<Rightarrow> bytes decoded" where
  "DecodeBytesDesc supportsUnaligned b = sql_decodeBytes supportsUnaligned b True"

definition EncodeCompactBytes :: "bytes \<Rightarrow> bytes \<Rightarrow> bytes" where
  "EncodeCompactBytes b data =
     (let b = reallocBytes b (10 + int (length data)); b = EncodeVarint b (of_nat (length data)) in b @ data)"

text \<open>Slicing with a negative length panics.\<close>

definition DecodeCompactBytes :: "bytes \<Rightarrow> bytes decoded" where
  "DecodeCompactBytes b = do {
     r \<leftarrow> DecodeVarint b;
     case r of
       Inl err \<Rightarrow> Some (Inl err)
     | Inr (b, n) \<Rightarrow>
         if int (length b) < sint n then Some (Inl (ExpectedLength (sint n)))
         else if sint n < 0 then None
         else Some (Inr (drop (nat (sint n)) b, take (nat (sint n)) b))
   }"

subsection \<open>Floating point numbers\<close>

text \<open>
  A \<^verbatim>\<open>float64\<close> is its IEEE 754 bit pattern, so \<^verbatim>\<open>math.Float64bits\<close> and \<^verbatim>\<open>math.Float64frombits\<close> are the identity.
  A number that is not a NaN is ordered by its sign and magnitude.
\<close>

definition float_magnitude :: "u64 \<Rightarrow> u64" where
  "float_magnitude f = f AND NOT signMask"

definition float_is_nan :: "u64 \<Rightarrow> bool" where
  "float_is_nan f \<longleftrightarrow> float_magnitude f > 0x7ff0000000000000"

definition float_key :: "u64 \<Rightarrow> int" where
  "float_key f = (if bit f 63 then - uint (float_magnitude f) else uint (float_magnitude f))"

text \<open>The Go comparison \<^verbatim>\<open>f >= 0\<close>, which no NaN satisfies.\<close>

definition float_ge_0 :: "u64 \<Rightarrow> bool" where
  "float_ge_0 f \<longleftrightarrow> \<not> float_is_nan f \<and> float_key f \<ge> 0"

definition encodeFloatToCmpUint64 :: "u64 \<Rightarrow> u64" where
  "encodeFloatToCmpUint64 f = (let u = f in if float_ge_0 f then u OR signMask else NOT u)"

definition decodeCmpUintToFloat :: "u64 \<Rightarrow> u64" where
  "decodeCmpUintToFloat u = (if u AND signMask > 0 then u AND NOT signMask else NOT u)"

definition EncodeFloat :: "bytes \<Rightarrow> u64 \<Rightarrow> bytes" where
  "EncodeFloat b v = (let u = encodeFloatToCmpUint64 v in EncodeUint b u)"

definition DecodeFloat :: "bytes \<Rightarrow> u64 decoded" where
  "DecodeFloat b = do {
     r \<leftarrow> DecodeUint b;
     Some (case r of Inl err \<Rightarrow> Inl err | Inr (b, u) \<Rightarrow> Inr (b, decodeCmpUintToFloat u))
   }"

definition EncodeFloatDesc :: "bytes \<Rightarrow> u64 \<Rightarrow> bytes" where
  "EncodeFloatDesc b v = (let u = encodeFloatToCmpUint64 v in EncodeUintDesc b u)"

definition DecodeFloatDesc :: "bytes \<Rightarrow> u64 decoded" where
  "DecodeFloatDesc b = do {
     r \<leftarrow> DecodeUintDesc b;
     Some (case r of Inl err \<Rightarrow> Inl err | Inr (b, u) \<Rightarrow> Inr (b, decodeCmpUintToFloat u))
   }"

subsection \<open>Byte strings: round trip and order\<close>

lemma EncodeBytes_loop_start: "EncodeBytes_loop data 0 b = b @ EncodeBytes data"
  using EncodeBytes_loop_eq [of 0 data b] by (simp add: EncodeBytes_eq)

lemma sql_EncodeBytes_eq: "sql_EncodeBytes b data = b @ EncodeBytes data"
  by (simp add: sql_EncodeBytes_def reallocBytes_def EncodeBytes_loop_start)

lemma PutUint64_NOT: "PutUint64 (NOT x) = map NOT (PutUint64 x)"
  by (simp add: PutUint64_def) (intro conjI bit_word_eqI; auto simp: bit_simps)

lemma be_nat_inject: "length xs = length ys \<Longrightarrow> be_nat xs = be_nat ys \<longleftrightarrow> xs = ys"
  using be_nat_less [of xs ys] be_nat_less [of ys xs] by (cases xs ys rule: linorder_cases) auto

lemma Uint64_eq_PutUint64:
  assumes "length b = 8" "Uint64 b = Some x"
  shows "PutUint64 x = b"
proof -
  have "be_nat b < 2 ^ 64" using be_nat_bound [of b] assms(1) by simp
  then have "be_nat (PutUint64 (of_nat (be_nat b))) = be_nat b" by (simp add: be_nat_PutUint64 unat_of_nat)
  then have b: "PutUint64 (of_nat (be_nat b)) = b" using be_nat_inject assms(1) by simp
  then have "Uint64 b = Some (of_nat (be_nat b))" by (metis Uint64_PutUint64_exact)
  with assms(2) b show ?thesis by simp
qed

lemma reverse_words_eq: "w * 8 \<le> length b \<Longrightarrow> reverse_words w b = Some (map NOT (take (w * 8) b))"
proof (induction w arbitrary: b)
  case (Suc w)
  have len: "length (rev (take 8 b)) = 8" using Suc.prems by simp
  then obtain x where x: "Uint64 (rev (take 8 b)) = Some x" using Uint64_Some by fastforce
  have p: "rev (PutUint64 x) = take 8 b" using Uint64_eq_PutUint64 [OF len x] by simp
  have "rev (PutUint64 (NOT x)) = map NOT (take 8 b)" unfolding PutUint64_NOT rev_map p ..
  moreover have "take (Suc w * 8) b = take 8 b @ take (w * 8) (drop 8 b)" by (simp add: take_add)
  ultimately show ?case using Suc x by (simp add: wordSize_def)
qed simp

text \<open>The word-wise complement is the bytewise one.\<close>

lemma fastReverseBytes_eq: "fastReverseBytes b = Some (safeReverseBytes b)"
proof -
  have "(if length b div 8 > 0 then reverse_words (length b div 8) b else Some []) = Some (map NOT (take (length b div 8 * 8) b))"
    using reverse_words_eq [of "length b div 8" b] by auto
  then show ?thesis
    by (simp add: fastReverseBytes_def safeReverseBytes_def wordSize_def Let_def flip: map_append)
qed

lemma reverseBytes_eq: "reverseBytes u b = Some (map NOT b)"
  by (simp add: reverseBytes_def fastReverseBytes_eq safeReverseBytes_def)

lemma EncodeBytesDesc_eq: "EncodeBytesDesc u b data = Some (b @ map NOT (EncodeBytes data))"
  by (simp add: EncodeBytesDesc_def sql_EncodeBytes_eq reverseBytes_eq Let_def)

fun conv_error :: "codec_error \<Rightarrow> sql_codec_error" where
  "conv_error (InsufficientBytes n) = InsufficientBytesToDecode"
| "conv_error (InvalidMarker g) = InvalidMarkerByte g"
| "conv_error (InvalidPadding g) = InvalidPaddingByte g"

lemma decode_loop_forward: "sql_decodeBytes_loop False b buf = map_sum conv_error id (DecodeBytes_loop b buf)"
proof (induction b buf rule: DecodeBytes_loop.induct)
  case (1 b data)
  then show ?case
    by (subst DecodeBytes_loop.simps, subst sql_decodeBytes_loop.simps) (simp add: Let_def id_def)
qed

lemma encMarker_minus: "encMarker - m = NOT m"
  by (simp add: encMarker_def not_eq_complement)

lemma NOT_byte_eq: "NOT (v :: byte) = encMarker \<longleftrightarrow> v = encPad"
proof -
  have "NOT encMarker = encPad" by (simp add: encMarker_def encPad_def)
  then show ?thesis by (metis bit.double_compl)
qed

lemma NOT_byte_less: "NOT (x :: byte) < NOT y \<longleftrightarrow> y < x"
proof -
  have "unat (NOT z) = 255 - unat z" for z :: byte
    unfolding encMarker_minus [symmetric] encMarker_def by (subst unat_sub) (auto simp: word_le_nat_alt less_Suc_eq_le [symmetric] unat_byte_bound)
  then show ?thesis using unat_byte_bound [of x] unat_byte_bound [of y] by (auto simp: word_less_nat_alt)
qed

lemma decode_loop_reverse:
  "sql_decodeBytes_loop True (map NOT b) (map NOT buf) =
     (case sql_decodeBytes_loop False b buf of
        Inl (InvalidMarkerByte g) \<Rightarrow> Inl (InvalidMarkerByte (map NOT g))
      | Inl (InvalidPaddingByte g) \<Rightarrow> Inl (InvalidPaddingByte (map NOT g))
      | Inl e \<Rightarrow> Inl e
      | Inr (r, v) \<Rightarrow> Inr (map NOT r, map NOT v))"
proof (induction b buf rule: DecodeBytes_loop.induct)
  case (1 b data)
  show ?case
  proof (cases "length b < encGroupSize + 1")
    case True
    then show ?thesis by (simp add: sql_decodeBytes_loop.simps)
  next
    case False
    define m where "m = take (encGroupSize + 1) b ! encGroupSize"
    have m: "map NOT (take (encGroupSize + 1) b) ! encGroupSize = NOT m" using False by (simp add: m_def)
    have ex: "list_ex (\<lambda>v. v \<noteq> encMarker) (map NOT xs) = list_ex (\<lambda>v. v \<noteq> encPad) xs" for xs
      by (induction xs) (auto simp: NOT_byte_eq)
    show ?thesis
      using False "1" [OF False refl refl refl refl]
      by (subst sql_decodeBytes_loop.simps, subst (2) sql_decodeBytes_loop.simps)
        (simp add: Let_def encMarker_minus take_map drop_map m m_def [symmetric] ex flip: map_append)
  qed
qed

lemma sql_DecodeBytes_EncodeBytes: "sql_DecodeBytes u (EncodeBytes d @ rest) = Some (Inr (rest, d))"
  using DecodeBytes_EncodeBytes [of d rest]
  by (simp add: sql_DecodeBytes_def sql_decodeBytes_def decode_loop_forward DecodeBytes_def)

lemma map_NOT_NOT [simp]: "map NOT (map NOT (b :: bytes)) = b"
  by (simp add: comp_def)

lemma DecodeBytesDesc_EncodeBytesDesc: "DecodeBytesDesc u (map NOT (EncodeBytes d) @ rest) = Some (Inr (rest, d))"
proof -
  have "sql_decodeBytes_loop True (map NOT (EncodeBytes d) @ rest) [] = Inr (rest, map NOT d)"
    using decode_loop_reverse [of "EncodeBytes d @ map NOT rest" "[]"] DecodeBytes_EncodeBytes [of d "map NOT rest"]
    by (simp add: decode_loop_forward DecodeBytes_def del: map_map)
  then show ?thesis by (simp add: DecodeBytesDesc_def sql_decodeBytes_def reverseBytes_eq del: map_map)
qed

lemma map_NOT_less:
  assumes "\<And>s t. xs @ s < ys @ (t :: bytes)"
  shows "map NOT ys @ t' < map NOT xs @ s'"
  using assms
proof (induction xs arbitrary: ys)
  case Nil
  from Nil [of "ys" "[]"] show ?case by simp
next
  case (Cons x xs)
  show ?case
  proof (cases ys)
    case Nil
    with Cons.prems [of "[]" "[]"] show ?thesis by simp
  next
    case ys: (Cons y zs)
    show ?thesis
    proof (cases "x = y")
      case True
      then have "\<And>s t. xs @ s < zs @ t" using Cons.prems ys by simp
      from Cons.IH [OF this] True ys show ?thesis by simp
    next
      case False
      then have "x < y" using Cons.prems [of "[]" "[]"] ys by auto
      then show ?thesis using ys by (simp add: NOT_byte_less)
    qed
  qed
qed

lemma bytes_codecs_less:
  "sql_EncodeBytes [] a @ s < sql_EncodeBytes [] b @ t \<longleftrightarrow> a < b \<or> a = b \<and> s < t"
  "map NOT (EncodeBytes a) @ s < map NOT (EncodeBytes b) @ t \<longleftrightarrow> b < a \<or> a = b \<and> s < t"
proof -
  show "sql_EncodeBytes [] a @ s < sql_EncodeBytes [] b @ t \<longleftrightarrow> a < b \<or> a = b \<and> s < t"
    by (simp add: sql_EncodeBytes_eq EncodeBytes_less_append)
  have rev: "map NOT (EncodeBytes y) @ t < map NOT (EncodeBytes x) @ s" if "x < y" for x y s t
    using that by (intro map_NOT_less) (simp add: EncodeBytes_less_append)
  show "map NOT (EncodeBytes a) @ s < map NOT (EncodeBytes b) @ t \<longleftrightarrow> b < a \<or> a = b \<and> s < t"
  proof (cases a b rule: linorder_cases)
    case less
    from rev [OF less, of t s] less show ?thesis by (auto dest: less_asym)
  next
    case greater
    from rev [OF greater, of s t] greater show ?thesis by simp
  qed simp
qed

lemma compact_roundtrip:
  assumes "length d < 2 ^ 63"
  shows "DecodeCompactBytes (EncodeCompactBytes [] d @ rest) = Some (Inr (rest, d))"
proof -
  have "sint (of_nat (length d) :: u64) = int (length d)"
    using sint_of_int_u64 [of "int (length d)"] assms by (simp add: fits_i64_def)
  then show ?thesis
    using varint_roundtrip(1) [of "of_nat (length d)" "d @ rest"] by (simp add: DecodeCompactBytes_def EncodeCompactBytes_def reallocBytes_def)
qed

subsection \<open>Floating point numbers: round trip and order\<close>

lemma float_split: "f = (if bit f 63 then signMask else 0) + float_magnitude f"
proof -
  have "f AND signMask = (if bit f 63 then signMask else 0)" by (intro bit_word_eqI) (auto simp: bit_simps bit_signMask)
  moreover have "(f AND signMask) + float_magnitude f = f"
    unfolding float_magnitude_def by (subst disjunctive_add_eq_or) (auto intro!: bit_word_eqI simp: bit_simps)
  ultimately show ?thesis by simp
qed

lemma float_magnitude_bound: "uint (float_magnitude f) < 2 ^ 63"
proof -
  have "float_magnitude f \<le> NOT signMask" unfolding float_magnitude_def by (rule word_and_le1)
  then show ?thesis by (simp add: word_le_def signMask_def)
qed

lemma uint_float: "uint f = (if bit f 63 then 2 ^ 63 else 0) + uint (float_magnitude f)"
proof (cases "bit f 63")
  case True
  have s: "uint signMask = 2 ^ 63" by (simp add: signMask_def)
  have "uint f = uint (signMask + float_magnitude f)" using True float_split [of f] by simp
  also have "\<dots> = uint signMask + uint (float_magnitude f)"
    using float_magnitude_bound [of f] by (intro uint_plus) (simp add: fits_u64_def s)
  finally show ?thesis using True s by simp
next
  case False
  then show ?thesis using float_split [of f] by simp
qed

lemma or_signMask: "\<not> bit f 63 \<Longrightarrow> f OR signMask = f + signMask" "bit f 63 \<Longrightarrow> f OR signMask = f"
  by (subst disjunctive_add_eq_or [symmetric]; auto intro!: bit_word_eqI simp: bit_simps bit_signMask)
    (auto intro!: bit_word_eqI simp: bit_simps bit_signMask)

lemma uint_NOT: "uint (NOT (x :: u64)) = 2 ^ 64 - 1 - uint x"
proof (rule uint_eqI)
  show "NOT x = of_int (2 ^ 64 - 1 - uint x)" by (simp add: not_eq_complement)
  show "fits_u64 (2 ^ 64 - 1 - uint x)" using fits_uint [of x] unfolding fits_u64_def by linarith
qed

lemma uint_encodeFloat:
  assumes "\<not> float_is_nan f"
  shows "uint (encodeFloatToCmpUint64 f) = 2 ^ 63 + float_key f - (if float_key f < 0 then 1 else 0)"
proof -
  note b = float_magnitude_bound [of f] and u = uint_float [of f]
  have s: "uint signMask = 2 ^ 63" by (simp add: signMask_def)
  consider "\<not> bit f 63" | "bit f 63" "float_magnitude f = 0" | "bit f 63" "float_magnitude f \<noteq> 0" by blast
  then show ?thesis
  proof cases
    case 1
    then have "uint (f + signMask) = uint f + uint signMask" using b u s by (intro uint_plus) (simp add: fits_u64_def)
    with 1 b u s assms show ?thesis by (simp add: encodeFloatToCmpUint64_def float_ge_0_def float_key_def or_signMask)
  next
    case 2
    with u s assms show ?thesis by (simp add: encodeFloatToCmpUint64_def float_ge_0_def float_key_def or_signMask)
  next
    case 3
    have "0 < uint (float_magnitude f)" by (rule uint_pos [OF 3(2)])
    with 3 u assms show ?thesis by (simp add: encodeFloatToCmpUint64_def float_ge_0_def float_key_def uint_NOT)
  qed
qed

lemma encodeFloat_less:
  "\<not> float_is_nan f \<Longrightarrow> \<not> float_is_nan g \<Longrightarrow>
   encodeFloatToCmpUint64 f < encodeFloatToCmpUint64 g \<longleftrightarrow> float_key f < float_key g"
  by (auto simp: word_less_def uint_encodeFloat)

text \<open>Negative zero is read back as positive zero.\<close>

definition float_norm :: "u64 \<Rightarrow> u64" where
  "float_norm f = (if f = signMask then 0 else f)"

lemma and_signMask_pos: "u AND signMask > 0 \<longleftrightarrow> bit u 63"
proof -
  have "u AND signMask = (if bit u 63 then signMask else 0)" by (intro bit_word_eqI) (auto simp: bit_simps bit_signMask)
  then show ?thesis by (simp add: signMask_def word_gt_0)
qed

lemma decode_encodeFloat:
  assumes "\<not> float_is_nan f"
  shows "decodeCmpUintToFloat (encodeFloatToCmpUint64 f) = float_norm f"
proof (cases "float_ge_0 f")
  case True
  have z: "f = signMask" if "bit f 63"
  proof -
    have "float_magnitude f = 0" using that True uint_pos [of "float_magnitude f"] by (fastforce simp: float_ge_0_def float_key_def)
    then show ?thesis using that float_split [of f] by simp
  qed
  have "(f OR signMask) AND NOT signMask = float_magnitude f"
    unfolding float_magnitude_def by (intro bit_word_eqI) (auto simp: bit_simps bit_signMask)
  moreover have "float_magnitude f = float_norm f"
    using z float_split [of f] by (cases "bit f 63") (auto simp: float_norm_def bit_signMask)
  moreover have "bit (f OR signMask) 63" by (simp add: bit_simps bit_signMask)
  ultimately show ?thesis using True
    unfolding encodeFloatToCmpUint64_def Let_def decodeCmpUintToFloat_def and_signMask_pos by simp
next
  case False
  then have "bit f 63" using assms by (auto simp: float_ge_0_def float_key_def split: if_splits)
  moreover have "float_ge_0 signMask" if "f = signMask"
    using that assms float_split [of signMask] by (simp add: float_ge_0_def float_key_def bit_signMask)
  ultimately show ?thesis
    using False unfolding encodeFloatToCmpUint64_def Let_def decodeCmpUintToFloat_def and_signMask_pos
    by (auto simp: bit_simps float_norm_def)
qed

lemma float_roundtrip:
  "\<not> float_is_nan f \<Longrightarrow> DecodeFloat (EncodeFloat [] f @ rest) = Some (Inr (rest, float_norm f))"
  "\<not> float_is_nan f \<Longrightarrow> DecodeFloatDesc (EncodeFloatDesc [] f @ rest) = Some (Inr (rest, float_norm f))"
  by (simp_all add: DecodeFloat_def EncodeFloat_def DecodeFloatDesc_def EncodeFloatDesc_def fixed_roundtrip decode_encodeFloat)

text \<open>C36. Byte strings and floating point numbers other than NaN are read back as they were written, in ascending and
  descending format, whatever bytes follow; negative zero is read back as zero.  Complementing through machine words
  is the bytewise complement.\<close>

theorem bytes_float_roundtrip:
  assumes "\<not> float_is_nan f" "length d < 2 ^ 63"
  shows "sql_DecodeBytes u (sql_EncodeBytes [] d @ rest) = Some (Inr (rest, d)) \<and>
    (\<exists>e. EncodeBytesDesc u [] d = Some e \<and> DecodeBytesDesc u (e @ rest) = Some (Inr (rest, d))) \<and>
    DecodeCompactBytes (EncodeCompactBytes [] d @ rest) = Some (Inr (rest, d)) \<and>
    DecodeFloat (EncodeFloat [] f @ rest) = Some (Inr (rest, float_norm f)) \<and>
    DecodeFloatDesc (EncodeFloatDesc [] f @ rest) = Some (Inr (rest, float_norm f)) \<and>
    reverseBytes u d = Some (safeReverseBytes d)"
  using assms
  by (simp add: sql_EncodeBytes_eq sql_DecodeBytes_EncodeBytes EncodeBytesDesc_eq DecodeBytesDesc_EncodeBytesDesc compact_roundtrip float_roundtrip
    reverseBytes_eq safeReverseBytes_def)

theorem bytes_float_roundtrip_witness:
  "DecodeFloat (EncodeFloat [] 0x8000000000000000 @ [7]) = Some (Inr ([7], 0)) \<and>
   DecodeBytesDesc True (map NOT (EncodeBytes [1, 2]) @ [7]) = Some (Inr ([7], [1, 2]))"
  using bytes_float_roundtrip [of signMask "[1, 2]" True "[7]"]
  by (simp add: float_is_nan_def float_magnitude_def float_norm_def EncodeBytesDesc_eq) (simp add: signMask_def)

end
