(* ===== verification/Sql_Codec.thy ===== *)
theory Sql_Codec
  imports Sql_Bytes
begin

text \<open>
  The datum codec of the SQL layer (\<^verbatim>\<open>src/tinysql/util/codec/codec.go\<close>) over the datum representation of
  \<^verbatim>\<open>src/tinysql/types/datum.go\<close>: encoding of rows as keys and as values, decoding, range decoding, size estimation and cutting.
  Shown: rows are read back, encoded keys sort like their rows, sizes and cuts are exact.
\<close>

subsection \<open>Datums\<close>

text \<open>
  The kinds of \<^verbatim>\<open>src/tinysql/types/datum.go\<close> and the fields of \<^verbatim>\<open>Datum\<close> that the codec and the accessors below use.  The field \<open>x\<close>,
  which holds vs of other Go types, is left out: no operation here reads it.
\<close>

definition KindNull :: byte where "KindNull = 0"
definition KindInt64 :: byte where "KindInt64 = 1"
definition KindUint64 :: byte where "KindUint64 = 2"
definition KindFloat32 :: byte where "KindFloat32 = 3"
definition KindFloat64 :: byte where "KindFloat64 = 4"
definition KindString :: byte where "KindString = 5"
definition KindBytes :: byte where "KindBytes = 6"
definition KindMinNotNull :: byte where "KindMinNotNull = 15"
definition KindMaxValue :: byte where "KindMaxValue = 16"
definition KindRaw :: byte where "KindRaw = 17"

record Datum =
  d_k :: byte
  d_collation :: byte
  d_decimal :: "16 word"
  d_length :: "32 word"
  d_i :: u64
  d_b :: bytes

definition Datum_zero :: Datum where
  "Datum_zero = \<lparr>d_k = 0, d_collation = 0, d_decimal = 0, d_length = 0, d_i = 0, d_b = []\<rparr>"

definition GetInt64 :: "Datum \<Rightarrow> u64" where "GetInt64 d = d_i d"
definition GetUint64 :: "Datum \<Rightarrow> u64" where "GetUint64 d = d_i d"
definition GetFloat64 :: "Datum \<Rightarrow> u64" where "GetFloat64 d = d_i d"
definition GetBytes :: "Datum \<Rightarrow> bytes" where "GetBytes d = d_b d"

definition SetInt64 :: "u64 \<Rightarrow> Datum \<Rightarrow> Datum" where "SetInt64 i d = d\<lparr>d_k := KindInt64, d_i := i\<rparr>"
definition SetUint64 :: "u64 \<Rightarrow> Datum \<Rightarrow> Datum" where "SetUint64 i d = d\<lparr>d_k := KindUint64, d_i := i\<rparr>"
definition SetFloat64 :: "u64 \<Rightarrow> Datum \<Rightarrow> Datum" where "SetFloat64 f d = d\<lparr>d_k := KindFloat64, d_i := f\<rparr>"
definition SetBytes :: "bytes \<Rightarrow> Datum \<Rightarrow> Datum" where "SetBytes b d = d\<lparr>d_k := KindBytes, d_b := b\<rparr>"
definition SetRaw :: "bytes \<Rightarrow> Datum \<Rightarrow> Datum" where "SetRaw b d = d\<lparr>d_k := KindRaw, d_b := b\<rparr>"
definition MinNotNullDatum :: Datum where "MinNotNullDatum = Datum_zero\<lparr>d_k := KindMinNotNull\<rparr>"
definition MaxValueDatum :: Datum where "MaxValueDatum = Datum_zero\<lparr>d_k := KindMaxValue\<rparr>"

definition NilFlag :: byte where "NilFlag = 0"
definition bytesFlag :: byte where "bytesFlag = 1"
definition compactBytesFlag :: byte where "compactBytesFlag = 2"
definition intFlag :: byte where "intFlag = 3"
definition uintFlag :: byte where "uintFlag = 4"
definition floatFlag :: byte where "floatFlag = 5"
definition durationFlag :: byte where "durationFlag = 7"
definition varintFlag :: byte where "varintFlag = 8"
definition uvarintFlag :: byte where "uvarintFlag = 9"
definition maxFlag :: byte where "maxFlag = 250"

lemmas kind_defs = KindNull_def KindInt64_def KindUint64_def KindFloat32_def KindFloat64_def KindString_def KindBytes_def
  KindMinNotNull_def KindMaxValue_def KindRaw_def

lemmas flag_defs = NilFlag_def bytesFlag_def compactBytesFlag_def intFlag_def uintFlag_def floatFlag_def durationFlag_def varintFlag_def
  uvarintFlag_def maxFlag_def

definition sizeInt :: "bool \<Rightarrow> int" where
  "sizeInt comparable = (if comparable then 9 else 1 + 10)"

definition sizeBytes :: "bytes \<Rightarrow> bool \<Rightarrow> int" where
  "sizeBytes v comparable =
     (if comparable then 1 + int ((length v div encGroupSize + 1) * (encGroupSize + 1)) else 1 + (10 + int (length v)))"

fun preRealloc_size :: "bool \<Rightarrow> Datum list \<Rightarrow> int option" where
  "preRealloc_size comparable [] = Some 0"
| "preRealloc_size comparable (v # vals) = do {
     s \<leftarrow> (if d_k v = KindInt64 \<or> d_k v = KindUint64 then Some (sizeInt comparable)
          else if d_k v = KindString \<or> d_k v = KindBytes then Some (sizeBytes (GetBytes v) comparable)
          else if d_k v = KindFloat32 \<or> d_k v = KindFloat64 then Some 9
          else if d_k v = KindNull \<or> d_k v = KindMinNotNull \<or> d_k v = KindMaxValue then Some 1
          else None);
     rest \<leftarrow> preRealloc_size comparable vals;
     Some (s + rest)
   }"

definition preRealloc :: "bytes \<Rightarrow> Datum list \<Rightarrow> bool \<Rightarrow> bytes" where
  "preRealloc b vals comparable = (case preRealloc_size comparable vals of None \<Rightarrow> b | Some sz \<Rightarrow> reallocBytes b sz)"

definition encodeBytes :: "bytes \<Rightarrow> bytes \<Rightarrow> bool \<Rightarrow> bytes" where
  "encodeBytes b v comparable =
     (if comparable then let b = b @ [bytesFlag] in sql_EncodeBytes b v
      else let b = b @ [compactBytesFlag] in EncodeCompactBytes b v)"

definition encodeSignedInt :: "bytes \<Rightarrow> u64 \<Rightarrow> bool \<Rightarrow> bytes" where
  "encodeSignedInt b v comparable =
     (if comparable then let b = b @ [intFlag] in EncodeInt b v else let b = b @ [varintFlag] in EncodeVarint b v)"

definition encodeUnsignedInt :: "bytes \<Rightarrow> u64 \<Rightarrow> bool \<Rightarrow> bytes" where
  "encodeUnsignedInt b v comparable =
     (if comparable then let b = b @ [uintFlag] in EncodeUint b v else let b = b @ [uvarintFlag] in EncodeUvarint b v)"

text \<open>The loop of \<^verbatim>\<open>encode\<close>; an unsupported kind ends it with an error.\<close>

fun encode_loop :: "bytes \<Rightarrow> Datum list \<Rightarrow> bool \<Rightarrow> sql_codec_error + bytes" where
  "encode_loop b [] comparable = Inr b"
| "encode_loop b (v # vals) comparable =
     (if d_k v = KindInt64 then encode_loop (encodeSignedInt b (GetInt64 v) comparable) vals comparable
      else if d_k v = KindUint64 then encode_loop (encodeUnsignedInt b (GetUint64 v) comparable) vals comparable
      else if d_k v = KindFloat32 \<or> d_k v = KindFloat64
      then encode_loop (EncodeFloat (b @ [floatFlag]) (GetFloat64 v)) vals comparable
      else if d_k v = KindString \<or> d_k v = KindBytes then encode_loop (encodeBytes b (GetBytes v) comparable) vals comparable
      else if d_k v = KindNull then encode_loop (b @ [NilFlag]) vals comparable
      else if d_k v = KindMinNotNull then encode_loop (b @ [bytesFlag]) vals comparable
      else if d_k v = KindMaxValue then encode_loop (b @ [maxFlag]) vals comparable
      else Inl (UnsupportEncodeType (d_k v)))"

definition sql_encode :: "bytes \<Rightarrow> Datum list \<Rightarrow> bool \<Rightarrow> sql_codec_error + bytes" where
  "sql_encode b vals comparable = (let b = preRealloc b vals comparable in encode_loop b vals comparable)"

definition sql_EncodeKey :: "bytes \<Rightarrow> Datum list \<Rightarrow> sql_codec_error + bytes" where
  "sql_EncodeKey b v = sql_encode b v True"

definition sql_EncodeValue :: "bytes \<Rightarrow> Datum list \<Rightarrow> sql_codec_error + bytes" where
  "sql_EncodeValue b v = sql_encode b v False"

subsection \<open>Sizes\<close>

text \<open>The loops \<^verbatim>\<open>for v > 0 { size++; v = v >> 7 }\<close> on signed and unsigned integers; \<^verbatim>\<open>>>\<close> on a signed integer is arithmetic.\<close>

function size_loop_signed :: "u64 \<Rightarrow> int \<Rightarrow> int" where
  "size_loop_signed v sz = (if sint v > 0 then size_loop_signed (signed_drop_bit 7 v) (sz + 1) else sz)"
  by pat_completeness auto
termination
  by (relation "measure (\<lambda>(v, sz). nat (sint v))") (auto simp: sint_signed_drop_bit_eq drop_bit_eq_div nat_less_iff intro!: int_div_less_self)

function size_loop_unsigned :: "u64 \<Rightarrow> int \<Rightarrow> int" where
  "size_loop_unsigned v sz = (if v > 0 then size_loop_unsigned (drop_bit 7 v) (sz + 1) else sz)"
  by pat_completeness auto
termination
  by (relation "measure (\<lambda>(v, sz). unat v)") (auto simp: unat_drop_bit_u64 word_gt_0 unat_gt_0 intro!: div_less_dividend)

declare size_loop_signed.simps [simp del] size_loop_unsigned.simps [simp del]

definition valueSizeOfSignedInt :: "u64 \<Rightarrow> int" where
  "valueSizeOfSignedInt v = (let v = (if sint v < 0 then 0 - v - 1 else v) in size_loop_signed (signed_drop_bit 6 v) 2)"

definition valueSizeOfUnsignedInt :: "u64 \<Rightarrow> int" where
  "valueSizeOfUnsignedInt v = size_loop_unsigned (drop_bit 7 v) 2"

definition valueSizeOfBytes :: "bytes \<Rightarrow> int" where
  "valueSizeOfBytes v = valueSizeOfSignedInt (of_nat (length v)) + int (length v)"

definition EstimateValueSize :: "Datum \<Rightarrow> sql_codec_error + int" where
  "EstimateValueSize val =
     (if d_k val = KindInt64 then Inr (valueSizeOfSignedInt (GetInt64 val))
      else if d_k val = KindUint64 then Inr (valueSizeOfUnsignedInt (GetUint64 val))
      else if d_k val = KindFloat32 \<or> d_k val = KindFloat64 then Inr 9
      else if d_k val = KindString \<or> d_k val = KindBytes then Inr (valueSizeOfBytes (GetBytes val))
      else if d_k val = KindNull \<or> d_k val = KindMinNotNull \<or> d_k val = KindMaxValue then Inr 1
      else Inl (UnsupportEncodeType (d_k val)))"

subsection \<open>Decoding\<close>

text \<open>
  \<^verbatim>\<open>DecodeOne\<close> returns the rest of the slice, the datum and the error; a decoder that fails returns a nil slice and a
  zero value, which is still stored in the datum.
\<close>

definition decode_into :: "'a decoded \<Rightarrow> 'a \<Rightarrow> ('a \<Rightarrow> Datum \<Rightarrow> Datum) \<Rightarrow> (bytes \<times> Datum \<times> sql_codec_error option) option" where
  "decode_into r zero setter = do {
     r \<leftarrow> r;
     Some (case r of Inl err \<Rightarrow> ([], setter zero Datum_zero, Some err) | Inr (b, v) \<Rightarrow> (b, setter v Datum_zero, None))
   }"

definition DecodeOne :: "bool \<Rightarrow> bytes \<Rightarrow> (bytes \<times> Datum \<times> sql_codec_error option) option" where
  "DecodeOne supportsUnaligned b =
     (case b of
        [] \<Rightarrow> Some ([], Datum_zero, Some InvalidEncodedKey)
      | flag # b \<Rightarrow>
          if flag = intFlag then decode_into (DecodeInt b) 0 SetInt64
          else if flag = uintFlag then decode_into (DecodeUint b) 0 SetUint64
          else if flag = varintFlag then decode_into (DecodeVarint b) 0 SetInt64
          else if flag = uvarintFlag then decode_into (DecodeUvarint b) 0 SetUint64
          else if flag = floatFlag then decode_into (DecodeFloat b) (decodeCmpUintToFloat 0) SetFloat64
          else if flag = bytesFlag then decode_into (sql_DecodeBytes supportsUnaligned b) [] SetBytes
          else if flag = compactBytesFlag then decode_into (DecodeCompactBytes b) [] SetBytes
          else if flag = NilFlag then Some (b, Datum_zero, None)
          else Some (b, Datum_zero, Some (InvalidKeyFlag flag)))"

text \<open>The loop of \<^verbatim>\<open>Decode\<close>.  It stops because every successful \<^verbatim>\<open>DecodeOne\<close> consumes the flag byte.\<close>

lemma DecodeVarint_length: "DecodeVarint b = Some (Inr (r, v)) \<Longrightarrow> length r \<le> length b"
  by (auto simp: DecodeVarint_def Let_def split: prod.splits if_splits)

lemma DecodeUvarint_length: "DecodeUvarint b = Some (Inr (r, v)) \<Longrightarrow> length r \<le> length b"
  by (auto simp: DecodeUvarint_def Let_def split: prod.splits if_splits)

lemma decode_loop_length: "sql_decodeBytes_loop rv b buf = Inr (r, v) \<Longrightarrow> length r \<le> length b"
proof (induction rv b buf rule: sql_decodeBytes_loop.induct)
  case (1 rv b buf)
  show ?case
    using "1.prems" by (subst (asm) sql_decodeBytes_loop.simps)
      (use "1.IH" [OF _ refl refl refl refl _ refl refl refl] in \<open>fastforce simp: Let_def split: if_splits\<close>)
qed

lemma decode_into_Some: "decode_into r z setter = Some (b, d, None) \<longleftrightarrow> (\<exists>v. r = Some (Inr (b, v)) \<and> d = setter v Datum_zero)"
  by (cases r; cases "the r") (auto simp: decode_into_def)

lemma DecodeCompactBytes_length: "DecodeCompactBytes b = Some (Inr (r, v)) \<Longrightarrow> length r \<le> length b"
proof -
  assume c: "DecodeCompactBytes b = Some (Inr (r, v))"
  then obtain b' n where "DecodeVarint b = Some (Inr (b', n))"
    by (cases "DecodeVarint b"; cases "the (DecodeVarint b)") (auto simp: DecodeCompactBytes_def)
  with c DecodeVarint_length [OF this] show ?thesis by (auto simp: DecodeCompactBytes_def split: if_splits)
qed

lemma sql_DecodeBytes_length: "sql_DecodeBytes u b = Some (Inr (r, v)) \<Longrightarrow> length r \<le> length b"
  by (auto simp: sql_DecodeBytes_def sql_decodeBytes_def dest: decode_loop_length split: sum.splits)

lemma DecodeFixed_length:
  "DecodeInt b = Some (Inr (r, v)) \<Longrightarrow> length r \<le> length b" "DecodeUint b = Some (Inr (r, v)) \<Longrightarrow> length r \<le> length b"
  "DecodeFloat b = Some (Inr (r, v)) \<Longrightarrow> length r \<le> length b"
proof -
  show i: "DecodeInt b = Some (Inr (r, v)) \<Longrightarrow> length r \<le> length b" and u: "DecodeUint b = Some (Inr (r, w)) \<Longrightarrow> length r \<le> length b" for w
    by (auto simp: DecodeInt_def DecodeUint_def bind_eq_Some_conv split: if_splits)
  show "DecodeFloat b = Some (Inr (r, v)) \<Longrightarrow> length r \<le> length b"
    using u by (cases "DecodeUint b"; cases "the (DecodeUint b)") (auto simp: DecodeFloat_def)
qed

lemma DecodeOne_length:
  assumes "DecodeOne u b = Some (r, d, None)"
  shows "length r < length b"
proof (cases b)
  case (Cons flag b')
  then have "length r \<le> length b'" using assms
    by (auto simp: DecodeOne_def decode_into_Some dest: DecodeFixed_length DecodeVarint_length DecodeUvarint_length DecodeCompactBytes_length
      sql_DecodeBytes_length split: if_splits)
  with Cons show ?thesis by simp
qed (use assms in \<open>simp add: DecodeOne_def\<close>)

function Decode_loop :: "bool \<Rightarrow> bytes \<Rightarrow> Datum list \<Rightarrow> (sql_codec_error + Datum list) option" where
  "Decode_loop u b vs =
     (if b = [] then Some (Inr vs)
      else case DecodeOne u b of
        None \<Rightarrow> None
      | Some (b', d, Some err) \<Rightarrow> Some (Inl err)
      | Some (b', d, None) \<Rightarrow> Decode_loop u b' (vs @ [d]))"
  by pat_completeness auto
termination
  by (relation "measure (\<lambda>(u, b, vs). length b)") (auto dest: DecodeOne_length)

declare Decode_loop.simps [simp del]

definition sql_Decode :: "bool \<Rightarrow> bytes \<Rightarrow> (sql_codec_error + Datum list) option" where
  "sql_Decode u b = (if length b < 1 then Some (Inl InvalidEncodedKey) else Decode_loop u b [])"

function DecodeRange_loop :: "bool \<Rightarrow> bytes \<Rightarrow> Datum list \<Rightarrow> (Datum list \<times> bytes \<times> sql_codec_error option) option" where
  "DecodeRange_loop u b vs =
     (if length b > 1
      then case DecodeOne u b of
          None \<Rightarrow> None
        | Some (b', d, Some err) \<Rightarrow> Some (vs, b', Some err)
        | Some (b', d, None) \<Rightarrow> DecodeRange_loop u b' (vs @ [d])
      else case b of
          [flag] \<Rightarrow>
            if flag = NilFlag then Some (vs @ [Datum_zero], [], None)
            else if flag = bytesFlag then Some (vs @ [MinNotNullDatum], [], None)
            else if flag = maxFlag \<or> flag = maxFlag + 1 then Some (vs @ [MaxValueDatum], [], None)
            else Some (vs, b, Some (InvalidKeyFlag flag))
        | _ \<Rightarrow> Some (vs, [], None))"
  by pat_completeness auto
termination
  by (relation "measure (\<lambda>(u, b, vs). length b)") (auto dest: DecodeOne_length)

declare DecodeRange_loop.simps [simp del]

definition DecodeRange :: "bool \<Rightarrow> bytes \<Rightarrow> (Datum list \<times> bytes \<times> sql_codec_error option) option" where
  "DecodeRange u b = (if length b < 1 then Some ([], b, Some InvalidKeyLengthZero) else DecodeRange_loop u b [])"

subsection \<open>Cutting\<close>

function peekBytes_loop :: "bytes \<Rightarrow> nat \<Rightarrow> sql_codec_error + nat" where
  "peekBytes_loop b offset =
     (if length b < offset + encGroupSize + 1 then Inl InsufficientBytesToDecode
      else let marker = b ! (offset + encGroupSize); padCount = encMarker - marker; offset = offset + encGroupSize + 1
           in if padCount \<noteq> 0 then Inr offset else peekBytes_loop b offset)"
  by pat_completeness auto
termination
  by (relation "measure (\<lambda>(b, offset). Suc (length b) - offset)") (auto simp: encGroupSize_def)

declare peekBytes_loop.simps [simp del]

definition peekBytes :: "bytes \<Rightarrow> sql_codec_error + int" where
  "peekBytes b = map_sum id int (peekBytes_loop b 0)"

text \<open>The sum of the two lengths is computed on 64-bit integers.\<close>

definition peekCompactBytes :: "bytes \<Rightarrow> sql_codec_error + int" where
  "peekCompactBytes b = (let (v, n) = Varint b in
     if n < 0 then Inl ValueLargerThan64Bits
     else if n = 0 then Inl InsufficientBytesToDecode
     else if int (length b) < sint (v + of_int n) then Inl (ExpectedLength n)
     else Inr (sint (of_int n + v)))"

definition peekVarint :: "bytes \<Rightarrow> sql_codec_error + int" where
  "peekVarint b = (let (_, n) = Varint b in if n < 0 then Inl ValueLargerThan64Bits else Inr n)"

definition peekUvarint :: "bytes \<Rightarrow> sql_codec_error + int" where
  "peekUvarint b = (let (_, n) = Uvarint b in if n < 0 then Inl ValueLargerThan64Bits else Inr n)"

definition peek :: "bytes \<Rightarrow> sql_codec_error + int" where
  "peek b =
     (case b of
        [] \<Rightarrow> Inl InvalidEncodedKey
      | flag # b \<Rightarrow>
          map_sum id (\<lambda>l. 1 + l)
           (if flag = NilFlag then Inr 0
            else if flag = intFlag \<or> flag = uintFlag \<or> flag = floatFlag \<or> flag = durationFlag then Inr 8
            else if flag = bytesFlag then peekBytes b
            else if flag = compactBytesFlag then peekCompactBytes b
            else if flag = varintFlag then peekVarint b
            else if flag = uvarintFlag then peekUvarint b
            else Inl (InvalidKeyFlag flag)))"

text \<open>Cutting outside the slice panics.\<close>

definition CutOne :: "bytes \<Rightarrow> (sql_codec_error + bytes \<times> bytes) option" where
  "CutOne b =
     (case peek b of
        Inl err \<Rightarrow> Some (Inl err)
      | Inr l \<Rightarrow> if 0 \<le> l \<and> l \<le> int (length b) then Some (Inr (take (nat l) b, drop (nat l) b)) else None)"

definition CutColumnID :: "bytes \<Rightarrow> u64 decoded" where
  "CutColumnID b = (case b of [] \<Rightarrow> Some (Inl InvalidEncodedKey) | _ # b \<Rightarrow> DecodeVarint b)"

text \<open>\<^verbatim>\<open>SetRawValues\<close> fills the datums it is given one by one; on an error the ones already filled stay filled.\<close>

fun SetRawValues :: "bytes \<Rightarrow> Datum list \<Rightarrow> (Datum list \<times> sql_codec_error option) option" where
  "SetRawValues data [] = Some ([], None)"
| "SetRawValues data (v # vs) =
     (case peek data of
        Inl err \<Rightarrow> Some (v # vs, Some err)
      | Inr l \<Rightarrow>
          if 0 \<le> l \<and> l \<le> int (length data)
          then do {
            (vs, err) \<leftarrow> SetRawValues (drop (nat l) data) vs;
            Some (SetRaw (take (nat l) data) v # vs, err)
          }
          else None)"

subsection \<open>What the codec promises\<close>

text \<open>The datums that can be read back, and what is read back for them.\<close>

definition plain :: "Datum \<Rightarrow> bool" where
  "plain d \<longleftrightarrow> (d_k d \<in> {KindNull, KindInt64, KindUint64} \<or>
     d_k d \<in> {KindFloat32, KindFloat64} \<and> \<not> float_is_nan (d_i d) \<or> d_k d \<in> {KindString, KindBytes} \<and> length (d_b d) + 10 < 2 ^ 63)"

definition norm :: "Datum \<Rightarrow> Datum" where
  "norm d =
     (if d_k d = KindInt64 then SetInt64 (d_i d) Datum_zero
      else if d_k d = KindUint64 then SetUint64 (d_i d) Datum_zero
      else if d_k d = KindFloat32 \<or> d_k d = KindFloat64 then SetFloat64 (float_norm (d_i d)) Datum_zero
      else if d_k d = KindString \<or> d_k d = KindBytes then SetBytes (d_b d) Datum_zero
      else Datum_zero)"

text \<open>The encoding of one datum.\<close>

definition enc1 :: "bool \<Rightarrow> Datum \<Rightarrow> bytes" where
  "enc1 c d =
     (if d_k d = KindInt64 then encodeSignedInt [] (d_i d) c
      else if d_k d = KindUint64 then encodeUnsignedInt [] (d_i d) c
      else if d_k d = KindFloat32 \<or> d_k d = KindFloat64 then EncodeFloat [floatFlag] (d_i d)
      else if d_k d = KindString \<or> d_k d = KindBytes then encodeBytes [] (d_b d) c
      else if d_k d = KindNull then [NilFlag]
      else if d_k d = KindMinNotNull then [bytesFlag]
      else [maxFlag])"

definition encodable :: "Datum \<Rightarrow> bool" where
  "encodable d \<longleftrightarrow> d_k d \<in> {KindInt64, KindUint64, KindFloat32, KindFloat64, KindString, KindBytes, KindNull, KindMinNotNull, KindMaxValue}"

lemmas encode_defs = encodeSignedInt_def encodeUnsignedInt_def encodeBytes_def EncodeInt_def EncodeUint_def EncodeVarint_def EncodeUvarint_def
  EncodeFloat_def EncodeCompactBytes_def sql_EncodeBytes_eq reallocBytes_def Let_def

lemma enc_append:
  "encodeSignedInt b v c = b @ encodeSignedInt [] v c" "encodeUnsignedInt b v c = b @ encodeUnsignedInt [] v c"
  "encodeBytes b w c = b @ encodeBytes [] w c" "EncodeFloat (b @ [floatFlag]) v = b @ EncodeFloat [floatFlag] v"
  by (simp_all add: encode_defs)

lemma encode_loop_eq:
  "\<forall>d \<in> set ds. encodable d \<Longrightarrow> encode_loop b ds c = Inr (b @ concat (map (enc1 c) ds))"
proof (induction ds arbitrary: b)
  case (Cons d ds)
  then show ?case
    using enc_append [of b] by (auto simp: enc1_def encodable_def GetInt64_def GetUint64_def GetFloat64_def GetBytes_def)
qed simp

lemma encode_loop_unsupported:
  "\<not> (\<forall>d \<in> set ds. encodable d) \<Longrightarrow> \<exists>k. encode_loop b ds c = Inl (UnsupportEncodeType k)"
  by (induction ds arbitrary: b) (auto simp: encodable_def)

lemma sql_encode_eq: "\<forall>d \<in> set ds. encodable d \<Longrightarrow> sql_encode b ds c = Inr (b @ concat (map (enc1 c) ds))"
  by (simp add: sql_encode_def preRealloc_def reallocBytes_def encode_loop_eq split: option.splits)

lemma DecodeOne_flags:
  "DecodeOne u (intFlag # b) = decode_into (DecodeInt b) 0 SetInt64"
  "DecodeOne u (uintFlag # b) = decode_into (DecodeUint b) 0 SetUint64"
  "DecodeOne u (varintFlag # b) = decode_into (DecodeVarint b) 0 SetInt64"
  "DecodeOne u (uvarintFlag # b) = decode_into (DecodeUvarint b) 0 SetUint64"
  "DecodeOne u (floatFlag # b) = decode_into (DecodeFloat b) (decodeCmpUintToFloat 0) SetFloat64"
  "DecodeOne u (bytesFlag # b) = decode_into (sql_DecodeBytes u b) [] SetBytes"
  "DecodeOne u (compactBytesFlag # b) = decode_into (DecodeCompactBytes b) [] SetBytes"
  "DecodeOne u (NilFlag # b) = Some (b, Datum_zero, None)"
  by (simp_all add: DecodeOne_def flag_defs)

text \<open>The encoding of a datum by its kind: a flag byte, then the encoded value.\<close>

lemma enc1_cases:
  "d_k d = KindInt64 \<Longrightarrow> enc1 c d = (if c then intFlag # EncodeInt [] (d_i d) else varintFlag # EncodeVarint [] (d_i d))"
  "d_k d = KindUint64 \<Longrightarrow> enc1 c d = (if c then uintFlag # EncodeUint [] (d_i d) else uvarintFlag # EncodeUvarint [] (d_i d))"
  "d_k d \<in> {KindFloat32, KindFloat64} \<Longrightarrow> enc1 c d = floatFlag # EncodeFloat [] (d_i d)"
  "d_k d \<in> {KindString, KindBytes} \<Longrightarrow>
     enc1 c d = (if c then bytesFlag # sql_EncodeBytes [] (d_b d) else compactBytesFlag # EncodeCompactBytes [] (d_b d))"
  "d_k d = KindNull \<Longrightarrow> enc1 c d = [NilFlag]" "d_k d = KindMinNotNull \<Longrightarrow> enc1 c d = [bytesFlag]" "d_k d = KindMaxValue \<Longrightarrow> enc1 c d = [maxFlag]"
  by (auto simp: enc1_def encode_defs kind_defs)

lemma DecodeOne_enc1: "plain d \<Longrightarrow> DecodeOne u (enc1 c d @ rest) = Some (rest, norm d, None)"
  unfolding plain_def
  by (auto simp: enc1_cases DecodeOne_flags decode_into_Some fixed_roundtrip varint_roundtrip float_roundtrip compact_roundtrip
    sql_EncodeBytes_eq sql_DecodeBytes_EncodeBytes norm_def kind_defs)

lemma plain_encodable: "plain d \<Longrightarrow> encodable d"
  by (auto simp: plain_def encodable_def)

lemma enc1_nonempty: "enc1 c d \<noteq> []"
  by (simp add: enc1_def encode_defs)

lemma Decode_loop_enc:
  "\<forall>d \<in> set ds. plain d \<Longrightarrow> Decode_loop u (concat (map (enc1 c) ds)) vs = Some (Inr (vs @ map norm ds))"
proof (induction ds arbitrary: vs)
  case (Cons d ds)
  then show ?case by (subst Decode_loop.simps) (simp add: enc1_nonempty DecodeOne_enc1)
qed (simp add: Decode_loop.simps)

subsubsection \<open>Order of encoded keys\<close>

text \<open>
  The sort key of a datum: the flag of its kind, then its value.  Rows are compared lexicographically by the keys of
  their datums.
\<close>

definition skey :: "Datum \<Rightarrow> int list" where
  "skey d =
     (if d_k d = KindInt64 then [3, sint (d_i d)]
      else if d_k d = KindUint64 then [4, uint (d_i d)]
      else if d_k d = KindFloat32 \<or> d_k d = KindFloat64 then [5, float_key (d_i d)]
      else if d_k d = KindString \<or> d_k d = KindBytes then 1 # map uint (d_b d)
      else if d_k d = KindNull then [0]
      else [250])"

definition sortable :: "Datum \<Rightarrow> bool" where
  "sortable d \<longleftrightarrow> plain d \<or> d_k d = KindMaxValue"

lemma map_uint_less: "map uint a < map uint (b :: bytes) \<longleftrightarrow> a < b"
proof (induction a arbitrary: b)
  case Nil
  then show ?case by (cases b) simp_all
next
  case (Cons x a)
  show ?case
  proof (cases b)
    case (Cons y b')
    have "uint x < uint y \<longleftrightarrow> x < y" "uint x = uint y \<longleftrightarrow> x = y" by (simp_all only: word_less_def word_uint_eq_iff)
    with Cons Cons.IH [of b'] show ?thesis by simp
  qed simp
qed

lemma map_uint_eq: "map uint a = map uint (b :: bytes) \<longleftrightarrow> a = b"
  using map_uint_less [of a b] map_uint_less [of b a] by (metis less_irrefl linorder_neqE)

lemma uint_cmp: "uint v < uint w \<longleftrightarrow> v < w" "uint v = uint w \<longleftrightarrow> v = w" for v w :: u64
  by (simp_all only: word_less_def word_uint_eq_iff)

lemma sortableE:
  assumes "sortable d"
  obtains v where "enc1 True d = 3 # PutUint64 (EncodeIntToCmpUint v)" "skey d = [3, sint v]"
  | v where "enc1 True d = 4 # PutUint64 v" "skey d = [4, uint v]"
  | f where "enc1 True d = 5 # PutUint64 (encodeFloatToCmpUint64 f)" "skey d = [5, float_key f]" "\<not> float_is_nan f"
  | b where "enc1 True d = 1 # EncodeBytes b" "skey d = 1 # map uint b"
  | "enc1 True d = [0]" "skey d = [0]"
  | "enc1 True d = [250]" "skey d = [250]"
  using assms
  by (auto simp: sortable_def plain_def enc1_cases skey_def kind_defs flag_defs EncodeInt_def EncodeUint_def EncodeFloat_def sql_EncodeBytes_eq
    Let_def)

lemma encodeFloat_eq:
  "\<not> float_is_nan f \<Longrightarrow> \<not> float_is_nan g \<Longrightarrow> encodeFloatToCmpUint64 f = encodeFloatToCmpUint64 g \<longleftrightarrow> float_key f = float_key g"
  using encodeFloat_less [of f g] encodeFloat_less [of g f] by (metis less_irrefl linorder_neqE)

lemma EncodeInt_eq: "EncodeIntToCmpUint v = EncodeIntToCmpUint w \<longleftrightarrow> sint v = sint w"
  using EncodeIntToCmpUint_less [of v w] EncodeIntToCmpUint_less [of w v] by (metis less_irrefl linorder_neqE)

lemma enc1_less:
  assumes "sortable a" "sortable b"
  shows "enc1 True a @ s < enc1 True b @ t \<longleftrightarrow> skey a < skey b \<or> skey a = skey b \<and> s < t"
  by (rule sortableE [OF assms(1)]; rule sortableE [OF assms(2)];
    simp add: PutUint64_append_less EncodeIntToCmpUint_less EncodeInt_eq encodeFloat_less encodeFloat_eq EncodeBytes_less_append map_uint_less
      map_uint_eq uint_cmp)

lemma nonempty_greater: "xs \<noteq> [] \<Longrightarrow> [] < (xs @ ys :: bytes)"
  by (cases xs) simp_all

lemma enc_rows_less:
  "\<forall>d \<in> set as. sortable d \<Longrightarrow> \<forall>d \<in> set bs. sortable d \<Longrightarrow>
   concat (map (enc1 True) as) < concat (map (enc1 True) bs) \<longleftrightarrow> map skey as < map skey bs"
proof (induction as arbitrary: bs)
  case Nil
  then show ?case by (cases bs) (simp_all add: nonempty_greater enc1_nonempty)
next
  case (Cons a as)
  show ?case
  proof (cases bs)
    case (Cons b bs')
    with Cons.prems Cons.IH [of bs'] show ?thesis by (simp add: enc1_less)
  qed simp
qed

subsubsection \<open>Sizes and cutting\<close>

lemma size_loop_PutUvarint: "size_loop_unsigned (drop_bit 7 v) sz = sz + int (length (PutUvarint v)) - 1"
proof (induction v arbitrary: sz rule: PutUvarint.induct)
  case (1 v)
  show ?case
  proof (cases "v \<ge> 0x80")
    case True
    then have "drop_bit 7 v > 0" by (simp add: word_gt_0 word_unat_eq_iff unat_drop_bit_u64 word_le_nat_alt div_eq_0_iff)
    with "1.IH" [OF True] True show ?thesis by (subst size_loop_unsigned.simps) (simp add: PutUvarint_long)
  next
    case False
    then have "drop_bit 7 v = 0" by (simp add: word_unat_eq_iff unat_drop_bit_u64 word_le_nat_alt)
    with False show ?thesis by (subst size_loop_unsigned.simps) (simp add: PutUvarint_short)
  qed
qed

lemma sint_nonneg_iff: "0 \<le> sint (v :: u64) \<longleftrightarrow> unat v < 2 ^ 63"
proof
  assume "0 \<le> sint v"
  then have "int (unat v) < int (2 ^ 63)" using uint_of_nonneg [of v] fits_sint [of v] by (simp add: fits_i64_def)
  then show "unat v < 2 ^ 63" by (simp only: of_nat_less_iff)
next
  assume "unat v < 2 ^ 63"
  then show "0 \<le> sint v" by (simp add: sint_u64_small)
qed

lemma sint_drop_bit_nonneg: "0 \<le> sint v \<Longrightarrow> 0 \<le> sint (drop_bit n (v :: u64))"
  unfolding sint_nonneg_iff unat_drop_bit_u64 by (meson div_le_dividend le_less_trans)

lemma signed_drop_bit_nonneg: "0 \<le> sint v \<Longrightarrow> signed_drop_bit n v = drop_bit n (v :: u64)"
proof -
  assume v: "0 \<le> sint v"
  have "uint (drop_bit n v) = drop_bit n (uint v)"
    using arg_cong [OF unat_drop_bit_u64 [of n v], of int] by (simp add: drop_bit_eq_div zdiv_int)
  then have "sint (drop_bit n v) = drop_bit n (sint v)"
    using uint_of_nonneg [OF v] uint_of_nonneg [OF sint_drop_bit_nonneg [OF v, of n]] by simp
  then have "sint (signed_drop_bit n v) = sint (drop_bit n v)" by (simp add: sint_signed_drop_bit_eq)
  then show ?thesis by (simp only: sint_inject)
qed

lemma size_loop_signed_eq: "0 \<le> sint v \<Longrightarrow> size_loop_signed v sz = size_loop_unsigned v sz"
proof (induction v sz rule: size_loop_unsigned.induct)
  case (1 v sz)
  have "0 < sint v \<longleftrightarrow> v > 0" using "1.prems" sint_inject [of v 0] by (auto simp: word_gt_0)
  then show ?case
    using 1 sint_drop_bit_nonneg [OF "1.prems", of 7]
    by (subst size_loop_unsigned.simps, subst size_loop_signed.simps) (simp add: signed_drop_bit_nonneg)
qed

lemma zigzag_half:
  defines "w \<equiv> \<lambda>v. if sint v < 0 then 0 - v - 1 else v"
  shows "0 \<le> sint (w v)" "drop_bit 7 (zigzag v) = drop_bit 6 (w v)"
proof -
  have w: "0 \<le> sint (w v) \<and> unat (w v) < 2 ^ 63 \<and> unat (zigzag v) div 2 = unat (w v)"
  proof (cases "sint v < 0")
    case True
    then have wv: "w v = NOT v" by (simp add: w_def not_eq_complement)
    have "sint (NOT v) = - sint v - 1" using fits_sint [of v] by (intro sint_eqI) (simp_all add: not_eq_complement fits_i64_def)
    then have nn: "0 \<le> sint (NOT v)" using True by simp
    have z: "zigzag v = 2 * NOT v + 1" using True by (simp add: zigzag_def not_eq_complement)
    have "unat (2 * NOT v + 1) = 2 * unat (NOT v) + 1"
      using nn unfolding sint_nonneg_iff by (simp add: unat_Suc_u64 unat_mult_lem [THEN iffD1])
    with nn wv z show ?thesis unfolding sint_nonneg_iff by simp
  next
    case False
    then have "unat (2 * v) = 2 * unat v" using sint_nonneg_iff [of v] by (simp add: unat_mult_lem [THEN iffD1])
    with False show ?thesis using sint_nonneg_iff [of v] by (simp add: w_def zigzag_def mult.commute)
  qed
  then show "0 \<le> sint (w v)" by blast
  have "unat (zigzag v) div 2 ^ 7 = unat (zigzag v) div 2 div 2 ^ 6" by (simp add: div_mult2_eq [symmetric])
  with w show "drop_bit 7 (zigzag v) = drop_bit 6 (w v)" by (simp add: word_unat_eq_iff unat_drop_bit_u64)
qed

lemma valueSizeOfSignedInt_eq: "valueSizeOfSignedInt v = 1 + int (length (PutVarint v))"
  using zigzag_half [of v] sint_drop_bit_nonneg [OF zigzag_half(1) [of v], of 6]
  unfolding valueSizeOfSignedInt_def Let_def PutVarint_zigzag
  by (simp add: signed_drop_bit_nonneg size_loop_signed_eq size_loop_PutUvarint flip: zigzag_half(2))

lemma EstimateValueSize_eq:
  "encodable d \<Longrightarrow> EstimateValueSize d = Inr (int (length (enc1 False d)))"
  unfolding encodable_def
  by (auto simp: EstimateValueSize_def enc1_cases valueSizeOfSignedInt_eq valueSizeOfUnsignedInt_def size_loop_PutUvarint valueSizeOfBytes_def
    EncodeVarint_def EncodeUvarint_def EncodeFloat_def EncodeUint_def EncodeCompactBytes_def reallocBytes_def kind_defs
    GetInt64_def GetUint64_def GetBytes_def)

lemma peekBytes_loop_enc:
  "peekBytes_loop (p @ enc_groups d @ rest) (length p) = Inr (length p + length (enc_groups d))"
proof (induction d arbitrary: p rule: enc_groups.induct)
  case (1 d)
  show ?case
  proof (cases "8 \<le> length d")
    case True
    have "peekBytes_loop (p @ enc_groups d @ rest) (length p) = peekBytes_loop (p @ enc_groups d @ rest) (length p + 9)"
      using True by (subst peekBytes_loop.simps) (simp add: codec_consts enc_groups_long nth_append add.commute)
    also have "\<dots> = Inr (length p + length (enc_groups d))"
      using "1.IH" [OF True, of "p @ take 8 d @ [255]"] True by (simp add: enc_groups_long)
    finally show ?thesis .
  next
    case False
    then obtain m where m: "8 - length d = m" "0 < m" "m \<le> 8" "length d + m = 8" by auto
    then have "(of_nat m :: byte) \<noteq> 0" by (simp add: word_unat_eq_iff unat_of_nat)
    with False m show ?thesis by (subst peekBytes_loop.simps) (simp add: codec_consts enc_groups_short nth_append del: of_nat_diff)
  qed
qed

lemma PutUvarint_length: "unat v < 2 ^ (7 * k) \<Longrightarrow> 0 < k \<Longrightarrow> length (PutUvarint v) \<le> k"
proof (induction v arbitrary: k rule: PutUvarint.induct)
  case (1 v)
  show ?case
  proof (cases "v \<ge> 0x80")
    case True
    then obtain j where j: "k = Suc j" "0 < j" using "1.prems" by (cases k; cases "k - 1") (auto simp: word_le_nat_alt)
    have "unat v < 2 ^ (7 * j) * 2 ^ 7" using "1.prems"(1) j(1) by (simp add: power_add mult.commute)
    then have "unat (drop_bit 7 v) < 2 ^ (7 * j)" by (simp add: unat_drop_bit_u64 less_mult_imp_div_less)
    with "1.IH" [OF True this j(2)] True j(1) show ?thesis by (simp add: PutUvarint_long)
  qed (use "1.prems" in \<open>simp add: PutUvarint_short not_le\<close>)
qed

lemma PutVarint_length: "length (PutVarint v) \<le> 10"
  using PutUvarint_length [of "zigzag v" 10] unat_u64_bound [of "zigzag v"] by (simp add: PutVarint_zigzag)

lemma peekCompactBytes_enc:
  assumes "length w + 10 < 2 ^ 63"
  shows "peekCompactBytes (EncodeCompactBytes [] w @ rest) = Inr (int (length (EncodeCompactBytes [] w)))"
proof -
  let ?n = "of_nat (length w) :: u64"
  have "sint (?n + of_int (int (length (PutVarint ?n)))) = int (length w) + int (length (PutVarint ?n))"
    using assms PutVarint_length [of ?n] by (intro sint_eqI) (simp_all add: fits_i64_def)
  then show ?thesis
    using Varint_PutVarint [of ?n "w @ rest"]
    by (simp add: peekCompactBytes_def EncodeCompactBytes_def EncodeVarint_def reallocBytes_def PutVarint_nonempty add.commute)
qed

lemma peek_flags:
  "peek (NilFlag # b) = Inr 1" "peek (intFlag # b) = Inr 9" "peek (uintFlag # b) = Inr 9" "peek (floatFlag # b) = Inr 9"
  "peek (bytesFlag # b) = map_sum id (\<lambda>l. 1 + l) (peekBytes b)" "peek (compactBytesFlag # b) = map_sum id (\<lambda>l. 1 + l) (peekCompactBytes b)"
  "peek (varintFlag # b) = map_sum id (\<lambda>l. 1 + l) (peekVarint b)" "peek (uvarintFlag # b) = map_sum id (\<lambda>l. 1 + l) (peekUvarint b)"
  by (simp_all add: peek_def flag_defs)

lemma peek_enc1: "plain d \<Longrightarrow> peek (enc1 c d @ rest) = Inr (int (length (enc1 c d)))"
  unfolding plain_def
  using peekBytes_loop_enc [of "[]" "d_b d" rest] peekCompactBytes_enc [of "d_b d" rest]
  by (auto simp: enc1_cases peek_flags peekBytes_def sql_EncodeBytes_eq EncodeBytes_eq peekVarint_def peekUvarint_def EncodeVarint_def
    EncodeUvarint_def EncodeInt_def EncodeUint_def EncodeFloat_def Varint_PutVarint Uvarint_PutUvarint Let_def)

text \<open>C33. Rows of datums of the plain kinds are read back by \<open>Decode\<close> from both encodings, up to the
  kinds the encoding merges: a string comes back as bytes, a 32-bit float as a 64-bit one, negative zero as zero.
  Encoding appends to the slice it is given, and a row with an unsupported kind is refused.\<close>

theorem datum_rows_roundtrip:
  assumes "\<forall>d \<in> set ds. plain d" "ds \<noteq> []"
  shows "\<exists>e. sql_encode b ds c = Inr (b @ e) \<and> sql_Decode u e = Some (Inr (map norm ds))"
proof -
  have "\<forall>d \<in> set ds. encodable d" using assms(1) plain_encodable by blast
  moreover have "concat (map (enc1 c) ds) \<noteq> []" using assms(2) enc1_nonempty [of c "hd ds"] by (cases ds) simp_all
  moreover from this have "\<not> length (concat (map (enc1 c) ds)) < 1" unfolding length_greater_0_conv [symmetric] by linarith
  ultimately show ?thesis
    using Decode_loop_enc [OF assms(1), of u c "[]"] by (intro exI [of _ "concat (map (enc1 c) ds)"]) (simp add: sql_encode_eq sql_Decode_def)
qed

definition demo_row :: "Datum list" where
  "demo_row = [SetInt64 (- 5) Datum_zero, SetBytes [104, 105] Datum_zero, Datum_zero]"

lemma demo_row_plain: "\<forall>d \<in> set demo_row. plain d" "demo_row \<noteq> []"
  by (simp_all add: demo_row_def plain_def SetInt64_def SetBytes_def Datum_zero_def kind_defs)

theorem datum_rows_roundtrip_witness:
  "\<exists>e. sql_encode [1] demo_row False = Inr (1 # e) \<and> sql_Decode True e = Some (Inr demo_row)"
  using datum_rows_roundtrip [OF demo_row_plain, of "[1]" False True]
  by (simp add: demo_row_def norm_def SetInt64_def SetBytes_def Datum_zero_def kind_defs)

text \<open>C34. Encoded keys compare like their rows: the bytewise order of \<open>EncodeKey\<close> is the
  lexicographic order of the rows by kind and value, whatever their lengths.\<close>

theorem encoded_keys_memcomparable:
  assumes "\<forall>d \<in> set as. sortable d" "\<forall>d \<in> set bs. sortable d"
  shows "\<exists>ea eb. sql_EncodeKey [] as = Inr ea \<and> sql_EncodeKey [] bs = Inr eb \<and> (bytes_Compare ea eb < 0 \<longleftrightarrow> map skey as < map skey bs) \<and>
    (bytes_Compare ea eb = 0 \<longleftrightarrow> map skey as = map skey bs)"
proof -
  have enc: "\<forall>d \<in> set ds. encodable d" if "\<forall>d \<in> set ds. sortable d" for ds
    using that plain_encodable by (auto simp: sortable_def encodable_def)
  have "concat (map (enc1 True) as) = concat (map (enc1 True) bs) \<longleftrightarrow> map skey as = map skey bs"
    using enc_rows_less [OF assms] enc_rows_less [OF assms(2,1)] by (metis less_irrefl linorder_neqE)
  then show ?thesis using enc_rows_less [OF assms] enc [OF assms(1)] enc [OF assms(2)]
    by (simp add: sql_EncodeKey_def sql_encode_eq)
qed

theorem encoded_keys_memcomparable_witness:
  "\<exists>ea eb. sql_EncodeKey [] [SetInt64 (- 5) Datum_zero] = Inr ea \<and> sql_EncodeKey [] [SetInt64 3 Datum_zero] = Inr eb \<and> bytes_Compare ea eb < 0"
  using encoded_keys_memcomparable [of "[SetInt64 (- 5) Datum_zero]" "[SetInt64 3 Datum_zero]"]
  by (auto simp: sortable_def plain_def SetInt64_def Datum_zero_def kind_defs skey_def)

text \<open>C35. For every plain datum the estimated size is the exact length of its encoding as a value, and cutting
  an encoded datum off a slice splits the slice exactly where decoding it stops.\<close>

theorem datum_size_and_cut:
  assumes "plain d"
  shows "\<exists>e. sql_encode [] [d] c = Inr e \<and> CutOne (e @ rest) = Some (Inr (e, rest)) \<and> DecodeOne u (e @ rest) = Some (rest, norm d, None) \<and>
    (\<not> c \<longrightarrow> EstimateValueSize d = Inr (int (length e)))"
proof (intro exI conjI impI)
  show "sql_encode [] [d] c = Inr (enc1 c d)" using assms plain_encodable by (simp add: sql_encode_eq)
  show "CutOne (enc1 c d @ rest) = Some (Inr (enc1 c d, rest))" using peek_enc1 [OF assms] by (simp add: CutOne_def)
  show "DecodeOne u (enc1 c d @ rest) = Some (rest, norm d, None)" using assms by (rule DecodeOne_enc1)
  show "EstimateValueSize d = Inr (int (length (enc1 c d)))" if "\<not> c"
    using that EstimateValueSize_eq [OF plain_encodable [OF assms]] by simp
qed

theorem datum_size_and_cut_witness:
  "EstimateValueSize (SetInt64 (- 5) Datum_zero) = Inr 2 \<and> (\<exists>e. sql_encode [] [SetInt64 (- 5) Datum_zero] False = Inr e \<and> length e = 2)"
proof -
  have e: "EstimateValueSize (SetInt64 (- 5) Datum_zero) = Inr 2" by code_simp
  show ?thesis using datum_size_and_cut [of "SetInt64 (- 5) Datum_zero" False "[]" True] e
    by (auto simp: plain_def SetInt64_def Datum_zero_def kind_defs)
qed

end
