(* ===== verification/Table_Codec.thy ===== *)
theory Table_Codec
  imports Sql_Codec
begin

text \<open>
  The keys under which the SQL layer stores rows and index entries (\<^verbatim>\<open>src/tinysql/tablecodec/tablecodec.go\<close>), on top of the integer and datum
  codecs: \<^verbatim>\<open>t[tableID]_r[handle]\<close> for a row, \<^verbatim>\<open>t[tableID]_i[indexID][values]\<close> for an index entry, where the handle of the row follows the values or is
  stored in the value of a unique index.  Errors are values, an index out of range is \<open>None\<close>; what the code returns beside an
  error is dropped, as no caller looks at it.
\<close>

datatype table_error = InvalidKey bytes | InvalidRecordKey bytes | InvalidIndexKey bytes | CodecError sql_codec_error | ReadError string

type_synonym 'a table_result = "(table_error + 'a) option"

definition tablePrefix :: bytes where "tablePrefix = [0x74]"
definition recordPrefixSep :: bytes where "recordPrefixSep = [0x5F, 0x72]"
definition indexPrefixSep :: bytes where "indexPrefixSep = [0x5F, 0x69]"

text \<open>The lengths of the identifiers, of the prefix up to the separator, and of a row key.\<close>

abbreviation idLen :: nat where "idLen \<equiv> 8"
abbreviation prefixLen :: nat where "prefixLen \<equiv> 1 + idLen + 2"
abbreviation RecordRowKeyLen :: nat where "RecordRowKeyLen \<equiv> prefixLen + idLen"

definition appendTableRecordPrefix :: "bytes \<Rightarrow> u64 \<Rightarrow> bytes" where
  "appendTableRecordPrefix buf tableID = (let buf = buf @ tablePrefix; buf = EncodeInt buf tableID in buf @ recordPrefixSep)"

definition EncodeRowKeyWithHandle :: "u64 \<Rightarrow> u64 \<Rightarrow> bytes" where
  "EncodeRowKeyWithHandle tableID handle = (let buf = appendTableRecordPrefix [] tableID in EncodeInt buf handle)"

definition appendTableIndexPrefix :: "bytes \<Rightarrow> u64 \<Rightarrow> bytes" where
  "appendTableIndexPrefix buf tableID = (let buf = buf @ tablePrefix; buf = EncodeInt buf tableID in buf @ indexPrefixSep)"

definition EncodeIndexSeekKey :: "u64 \<Rightarrow> u64 \<Rightarrow> bytes \<Rightarrow> bytes" where
  "EncodeIndexSeekKey tableID idxID encodedValue =
     (let key = appendTableIndexPrefix [] tableID; key = EncodeInt key idxID in key @ encodedValue)"

definition hasTablePrefix :: "bytes \<Rightarrow> bool option" where
  "hasTablePrefix key = (if length key = 0 then None else Some (key ! 0 = tablePrefix ! 0))"

definition hasRecordPrefixSep :: "bytes \<Rightarrow> bool option" where
  "hasRecordPrefixSep key =
     (if length key = 0 then None
      else if key ! 0 \<noteq> recordPrefixSep ! 0 then Some False
      else if length key = 1 then None
      else Some (key ! 1 = recordPrefixSep ! 1))"

text \<open>\<^verbatim>\<open>key, id, err = codec.DecodeInt(key)\<close> and what is done with the rest of the key.\<close>

definition with_int :: "bytes \<Rightarrow> (bytes \<Rightarrow> u64 \<Rightarrow> 'a table_result) \<Rightarrow> 'a table_result" where
  "with_int key f = DecodeInt key \<bind> (\<lambda>r. case r of Inl err \<Rightarrow> Some (Inl (CodecError err)) | Inr (key, v) \<Rightarrow> f key v)"

definition DecodeRecordKey :: "bytes \<Rightarrow> (u64 \<times> u64) table_result" where
  "DecodeRecordKey key =
     (if length key \<le> prefixLen then Some (Inl (InvalidRecordKey key))
      else do {
        has \<leftarrow> hasTablePrefix key;
        if \<not> has then Some (Inl (InvalidRecordKey key))
        else with_int (drop 1 key) (\<lambda>rest tableID. do {
          has \<leftarrow> hasRecordPrefixSep rest;
          if \<not> has then Some (Inl (InvalidRecordKey key))
          else with_int (drop 2 rest) (\<lambda>_ handle. Some (Inr (tableID, handle)))
        })
      })"

definition DecodeKeyHead :: "bytes \<Rightarrow> (u64 \<times> u64 \<times> bool) table_result" where
  "DecodeKeyHead key =
     (if take 1 key \<noteq> tablePrefix then Some (Inl (InvalidKey key))
      else with_int (drop 1 key) (\<lambda>rest tableID.
        if take 2 rest = recordPrefixSep then Some (Inr (tableID, 0, True))
        else if take 2 rest \<noteq> indexPrefixSep then Some (Inl (InvalidKey key))
        else with_int (drop 2 rest) (\<lambda>_ indexID. Some (Inr (tableID, indexID, False)))))"

definition DecodeIndexKeyPrefix :: "bytes \<Rightarrow> (u64 \<times> u64 \<times> bytes) table_result" where
  "DecodeIndexKeyPrefix key = do {
     r \<leftarrow> DecodeKeyHead key;
     case r of
       Inl err \<Rightarrow> Some (Inl err)
     | Inr (tableID, indexID, isRecord) \<Rightarrow>
         (if isRecord then Some (Inl (InvalidIndexKey key))
          else if length key < prefixLen + idLen then None
          else Some (Inr (tableID, indexID, drop (prefixLen + idLen) key)))
   }"

definition DecodeRowKey :: "bytes \<Rightarrow> u64 table_result" where
  "DecodeRowKey key =
     (if length key \<noteq> RecordRowKeyLen then Some (Inl (InvalidKey key))
      else do {
        has \<leftarrow> hasTablePrefix key;
        if \<not> has then Some (Inl (InvalidKey key))
        else do {
          sep \<leftarrow> hasRecordPrefixSep (drop (prefixLen - 2) key);
          if \<not> sep then Some (Inl (InvalidKey key))
          else do { u \<leftarrow> Uint64 (drop prefixLen key); Some (Inr (DecodeCmpUintToInt u)) }
        }
      })"

fun CutIndexKeyNew_loop :: "nat \<Rightarrow> bytes list \<Rightarrow> bytes \<Rightarrow> (bytes list \<times> bytes) table_result" where
  "CutIndexKeyNew_loop 0 vs b = Some (Inr (vs, b))"
| "CutIndexKeyNew_loop (Suc n) vs b = do {
     r \<leftarrow> CutOne b;
     case r of
       Inl err \<Rightarrow> Some (Inl (CodecError err))
     | Inr (val, b) \<Rightarrow> CutIndexKeyNew_loop n (vs @ [val]) b
   }"

definition CutIndexKeyNew :: "bytes \<Rightarrow> nat \<Rightarrow> (bytes list \<times> bytes) table_result" where
  "CutIndexKeyNew key len = (if length key < prefixLen + idLen then None else CutIndexKeyNew_loop len [] (drop (prefixLen + idLen) key))"

text \<open>\<^verbatim>\<open>binary.Read\<close> of an \<^verbatim>\<open>int64\<close>.\<close>

definition DecodeIndexValueAsHandle :: "bytes \<Rightarrow> u64 table_result" where
  "DecodeIndexValueAsHandle data =
     (if length data = 0 then Some (Inl (ReadError ''EOF''))
      else if length data < 8 then Some (Inl (ReadError ''unexpected EOF''))
      else do { h \<leftarrow> Uint64 (take 8 data); Some (Inr h) })"

text \<open>The argument \<open>unaligned\<close> says whether the architecture reads unaligned words, as for the datum codec.\<close>

definition DecodeIndexHandle :: "bool \<Rightarrow> bytes \<Rightarrow> bytes \<Rightarrow> nat \<Rightarrow> u64 table_result" where
  "DecodeIndexHandle unaligned key val colsLen = do {
     r \<leftarrow> CutIndexKeyNew key colsLen;
     case r of
       Inl err \<Rightarrow> Some (Inl err)
     | Inr (_, b) \<Rightarrow>
         (if length b > 0
          then do {
            (_, d, err) \<leftarrow> DecodeOne unaligned b;
            Some (case err of Some err \<Rightarrow> Inl (CodecError err) | None \<Rightarrow> Inr (GetInt64 d))
          }
          else if length val \<ge> 8 then DecodeIndexValueAsHandle val
          else Some (Inl (ReadError ''no handle in index key'')))
   }"

subsection \<open>The keys are read back, and sort by what they name\<close>

lemma EncodeInt_append: "EncodeInt b v = b @ PutUint64 (EncodeIntToCmpUint v)"
  by (simp add: EncodeInt_def Let_def)

lemma EncodeInt_append_less:
  "PutUint64 (EncodeIntToCmpUint v) @ s < PutUint64 (EncodeIntToCmpUint w) @ t \<longleftrightarrow> sint v < sint w \<or> v = w \<and> s < t"
proof -
  have "EncodeIntToCmpUint v = EncodeIntToCmpUint w \<longleftrightarrow> v = w" by (metis CmpUint_inverse)
  then show ?thesis by (simp add: PutUint64_append_less EncodeIntToCmpUint_less)
qed

lemma with_int_encoded: "with_int (PutUint64 (EncodeIntToCmpUint v) @ rest) f = f rest v"
  using fixed_roundtrip(1) [of v rest] by (simp add: with_int_def EncodeInt_append)

lemma row_key_eq:
  "EncodeRowKeyWithHandle t h = 0x74 # PutUint64 (EncodeIntToCmpUint t) @ 0x5F # 0x72 # PutUint64 (EncodeIntToCmpUint h)"
  by (simp add: EncodeRowKeyWithHandle_def appendTableRecordPrefix_def EncodeInt_append tablePrefix_def recordPrefixSep_def Let_def)

lemma index_key_eq:
  "EncodeIndexSeekKey t i v = 0x74 # PutUint64 (EncodeIntToCmpUint t) @ 0x5F # 0x69 # PutUint64 (EncodeIntToCmpUint i) @ v"
  by (simp add: EncodeIndexSeekKey_def appendTableIndexPrefix_def EncodeInt_append tablePrefix_def indexPrefixSep_def Let_def)

lemmas table_defs = tablePrefix_def recordPrefixSep_def indexPrefixSep_def hasTablePrefix_def hasRecordPrefixSep_def

lemma row_key_decoded:
  "DecodeRecordKey (EncodeRowKeyWithHandle t h) = Some (Inr (t, h))" "DecodeRowKey (EncodeRowKeyWithHandle t h) = Some (Inr h)"
  "DecodeKeyHead (EncodeRowKeyWithHandle t h) = Some (Inr (t, 0, True))"
  using with_int_encoded [of h "[]"]
  by (simp_all add: row_key_eq DecodeRecordKey_def DecodeRowKey_def DecodeKeyHead_def table_defs with_int_encoded CmpUint_inverse)

lemma index_key_decoded:
  "DecodeIndexKeyPrefix (EncodeIndexSeekKey t i v) = Some (Inr (t, i, v))" "DecodeKeyHead (EncodeIndexSeekKey t i v) = Some (Inr (t, i, False))"
  "DecodeRecordKey (EncodeIndexSeekKey t i v) = Some (Inl (InvalidRecordKey (EncodeIndexSeekKey t i v)))"
  by (simp_all add: index_key_eq DecodeRecordKey_def DecodeIndexKeyPrefix_def DecodeKeyHead_def table_defs with_int_encoded)

lemma cut_index_values:
  assumes "\<forall>d \<in> set ds. plain d"
  shows "CutIndexKeyNew_loop (length ds) vs (concat (map (enc1 c) ds) @ b) = Some (Inr (vs @ map (enc1 c) ds, b))"
  using assms
proof (induction ds arbitrary: vs)
  case (Cons d ds)
  then have "CutOne (enc1 c d @ concat (map (enc1 c) ds) @ b) = Some (Inr (enc1 c d, concat (map (enc1 c) ds) @ b))"
    using peek_enc1 [of d c] by (simp add: CutOne_def)
  with Cons show ?case by simp
qed simp

text \<open>
  The entry of an index with plain columns: cutting the key gives the encoded columns one by one, and the handle of the row is read back from the end of
  the key, or, if the index is unique, from the value.
\<close>

theorem index_entry_exact:
  assumes "\<forall>d \<in> set ds. plain d"
  shows "\<exists>e eh. sql_EncodeKey [] ds = Inr e \<and> sql_EncodeKey [] (ds @ [SetInt64 h Datum_zero]) = Inr (e @ eh) \<and>
    (\<exists>vs. CutIndexKeyNew (EncodeIndexSeekKey t i e) (length ds) = Some (Inr (vs, [])) \<and> concat vs = e \<and>
      list_all2 (\<lambda>d v. sql_EncodeKey [] [d] = Inr v) ds vs) \<and>
    DecodeIndexHandle u (EncodeIndexSeekKey t i (e @ eh)) val (length ds) = Some (Inr h) \<and>
    DecodeIndexHandle u (EncodeIndexSeekKey t i e) (PutUint64 h) (length ds) = Some (Inr h)"
proof (intro exI conjI)
  let ?e = "concat (map (enc1 True) ds)" and ?h = "SetInt64 h Datum_zero"
  have h: "plain ?h" "norm ?h = ?h" by (simp_all add: plain_def norm_def SetInt64_def Datum_zero_def kind_defs)
  have enc: "\<forall>d \<in> set ds. encodable d" "encodable ?h" using assms h plain_encodable by auto
  have cut: "CutIndexKeyNew (EncodeIndexSeekKey t i (?e @ b)) (length ds) = Some (Inr (map (enc1 True) ds, b))" for b
    using cut_index_values [OF assms, of "[]" True b] by (simp add: CutIndexKeyNew_def index_key_eq)
  show "sql_EncodeKey [] ds = Inr ?e" using enc(1) by (simp add: sql_EncodeKey_def sql_encode_eq)
  show "sql_EncodeKey [] (ds @ [?h]) = Inr (?e @ enc1 True ?h)" using enc by (simp add: sql_EncodeKey_def sql_encode_eq)
  show "CutIndexKeyNew (EncodeIndexSeekKey t i ?e) (length ds) = Some (Inr (map (enc1 True) ds, []))" using cut [of "[]"] by simp
  show "list_all2 (\<lambda>d v. sql_EncodeKey [] [d] = Inr v) ds (map (enc1 True) ds)"
    using enc(1) by (simp add: list_all2_conv_all_nth sql_EncodeKey_def sql_encode_eq)
  show "DecodeIndexHandle u (EncodeIndexSeekKey t i (?e @ enc1 True ?h)) val (length ds) = Some (Inr h)"
    using cut [of "enc1 True ?h"] DecodeOne_enc1 [OF h(1), of u True "[]"] enc1_nonempty [of True ?h]
    by (simp add: DecodeIndexHandle_def h(2)) (simp add: SetInt64_def GetInt64_def)
  show "DecodeIndexHandle u (EncodeIndexSeekKey t i ?e) (PutUint64 h) (length ds) = Some (Inr h)"
    using cut [of "[]"] Uint64_PutUint64_exact [of h] by (simp add: DecodeIndexHandle_def DecodeIndexValueAsHandle_def)
qed simp

text \<open>
  C32.  The keys of a table: row keys and index keys are read back as they were written and never taken for one another, and their byte order is the
  order of table, then index entries before rows, then index and value, or handle; so the keys of a table, of an index and of
  its rows are contiguous ranges.
\<close>

theorem table_keys_exact:
  "DecodeRecordKey (EncodeRowKeyWithHandle t h) = Some (Inr (t, h)) \<and> DecodeRowKey (EncodeRowKeyWithHandle t h) = Some (Inr h) \<and>
   DecodeKeyHead (EncodeRowKeyWithHandle t h) = Some (Inr (t, 0, True)) \<and> DecodeKeyHead (EncodeIndexSeekKey t i v) = Some (Inr (t, i, False)) \<and>
   DecodeIndexKeyPrefix (EncodeIndexSeekKey t i v) = Some (Inr (t, i, v)) \<and>
   DecodeIndexKeyPrefix (EncodeRowKeyWithHandle t h) = Some (Inl (InvalidIndexKey (EncodeRowKeyWithHandle t h))) \<and>
   DecodeRecordKey (EncodeIndexSeekKey t i v) = Some (Inl (InvalidRecordKey (EncodeIndexSeekKey t i v))) \<and>
   (EncodeRowKeyWithHandle t h < EncodeRowKeyWithHandle t' h' \<longleftrightarrow> sint t < sint t' \<or> t = t' \<and> sint h < sint h') \<and>
   (EncodeIndexSeekKey t i v < EncodeIndexSeekKey t' i' v' \<longleftrightarrow> sint t < sint t' \<or> t = t' \<and> (sint i < sint i' \<or> i = i' \<and> v < v')) \<and>
   (EncodeIndexSeekKey t i v < EncodeRowKeyWithHandle t' h' \<longleftrightarrow> sint t \<le> sint t')"
proof -
  have "EncodeIndexSeekKey t i v < EncodeRowKeyWithHandle t' h' \<longleftrightarrow> sint t \<le> sint t'"
    using sint_inject [of t t'] by (auto simp: index_key_eq row_key_eq EncodeInt_append_less)
  moreover have "EncodeRowKeyWithHandle t h < EncodeRowKeyWithHandle t' h' \<longleftrightarrow> sint t < sint t' \<or> t = t' \<and> sint h < sint h'"
    using EncodeInt_append_less [of h "[]" h' "[]"] by (simp add: row_key_eq EncodeInt_append_less)
  ultimately show ?thesis
    using row_key_decoded index_key_decoded by (simp add: index_key_eq EncodeInt_append_less) (simp add: DecodeIndexKeyPrefix_def)
qed

end
