(* ===== verification/Spec2Isabelle.thy ===== *)
theory Spec2Isabelle
  imports Txn_Properties Storage_Properties Raft_Log_Props Peer_Storage_Props Tso_Props Id_Alloc Table_Codec
begin

text \<open>
  \<^bold>\<open>A verification library for SarDB\<close>

  SarDB is a distributed SQL database: a key-value server (TinyKV, \<^verbatim>\<open>src/tinykv/kv\<close>) that replicates its data with Raft (\<^verbatim>\<open>src/tinykv/raft\<close>), a
  scheduler that hands out timestamps and ids (\<^verbatim>\<open>src/tinykv/scheduler\<close>), and a SQL layer (TinySQL, \<^verbatim>\<open>src/tinysql\<close>) that stores its rows in the server.
  A client's transaction takes a timestamp from the scheduler, and sends prewrite and commit commands to the server
  (Percolator's protocol); a command runs under latches on a snapshot of the storage and writes one batch back; the storage is a
  single engine or, replicated, a Raft group per region whose log lives in the same kind of engine.

  Conventions.  Bytes are \<open>8 word\<close>, \<^verbatim>\<open>uint64\<close> and \<^verbatim>\<open>int64\<close> are \<open>64 word\<close> and wrap; \<^verbatim>\<open>[]byte\<close> is \<open>bytes\<close>, or \<open>bytes option\<close> where nil matters.
  A panic, a nil dereference, \<^verbatim>\<open>log.Fatal\<close> and a loop that does not end are \<open>None\<close>; an error is \<open>Inl\<close>.  Go interfaces are tables of methods, and what
  their users rely on are locales, each interpreted on the model of the provider.  Code that is not in the repository (the
  badger engine, the GoLLRB tree, generated protobuf marshallers, the etcd client, wall clocks, random timeouts, the order of map
  iteration) is an argument, with its documented behaviour as locale assumptions that a concrete instance is shown to meet.

  \<^bold>\<open>Foundations\<close>
  \<^item> \<open>Go_Prelude\<close>, \<open>Go_Slices\<close>, \<open>Go_Int64\<close>: byte strings and their order, big-endian integers, slices, the two readings of a 64-bit word.
  \<^item> \<open>Codec\<close>: \<^verbatim>\<open>kv/util/codec/codec.go\<close>.  The encoding of keys is injective, decoded exactly, and keeps the order.

  \<^bold>\<open>Storage\<close>
  \<^item> \<open>Region\<close>: regions, epochs and the checks of \<^verbatim>\<open>kv/raftstore/util\<close>.
  \<^item> \<open>KV_Storage\<close>: the interface of \<^verbatim>\<open>kv/storage/storage.go\<close> with its contract (locales \<open>storage_reader\<close> and \<open>kv_storage\<close>: families of
    ascending key-value lists, readers and iterators that show them, batches that change them) and \<^verbatim>\<open>MemStorage\<close>, which meets it.
  \<^item> \<open>Engine\<close>: \<^verbatim>\<open>kv/util/engine_util\<close>: column families as key prefixes over badger (locale \<open>badger_db\<close>, interpreted on a log of writes),
    write batches, iterators, \<^verbatim>\<open>DeleteRange\<close>.  \<open>StandAlone\<close>: \<^verbatim>\<open>standalone_storage.go\<close>, a \<open>kv_storage\<close> again (a sublocale).
    \<open>Region_Reader\<close>: the reader of one region.
  \<^item> \<open>Storage_Properties\<close>: refinement of the storage contract, the effect of failed writes, exactness of range deletion,
    of region readers and of the raw API, and the type assertions of the handlers.

  \<^bold>\<open>Transactions\<close>
  \<^item> \<open>Mvcc\<close>, \<open>Scanner\<close>: \<^verbatim>\<open>kv/transaction/mvcc\<close>: locks, write records, versioned keys, reads of a snapshot, the scanner.
  \<^item> \<open>Latches\<close>: \<^verbatim>\<open>kv/transaction/latches\<close>.  \<open>Commands\<close>: \<^verbatim>\<open>kv/transaction/commands\<close>, every command and \<^verbatim>\<open>RunCommand\<close>, and concurrent threads.
    \<open>Server\<close>: the handlers of \<^verbatim>\<open>kv/server/server.go\<close>.
  \<^item> \<open>Txn_Spec\<close> describes the store of a sequence of commands, \<open>Txn_Safety\<close> its invariants, \<open>Txn_Concurrency\<close> the interleavings of threads, and
    \<open>Txn_Properties\<close> states the results: snapshot isolation, one outcome per key, durability of commits, finality of rollbacks, repeatable reads,
    serialisability under latches, no deadlock, termination, and the exact responses of the commands.

  \<^bold>\<open>Raft\<close>
  \<^item> \<open>Raft_Storage\<close>, \<open>Raft_Log\<close>, \<open>Raft_Core\<close>, \<open>Raft_Node\<close>: \<^verbatim>\<open>storage.go\<close>, \<^verbatim>\<open>log.go\<close>, \<^verbatim>\<open>raft.go\<close>, \<^verbatim>\<open>rawnode.go\<close> of \<^verbatim>\<open>src/tinykv/raft\<close>, function by function.
  \<^item> \<open>Raft_Election\<close> and \<open>Raft_Cluster\<close>: a cluster of nodes over any storage that keeps its hard state (locale \<open>raft_storage\<close>), with a network that loses,
    repeats and reorders messages and nodes that crash and restart: election safety and the invariant of the cluster.
  \<^item> \<open>Raft_Log_Props\<close>: what a follower does with an append, and what a leader commits.
  \<^item> \<open>Raft_Meta\<close>, \<open>Peer_Storage\<close>, \<open>Peer_Storage_Props\<close>: \<^verbatim>\<open>kv/raftstore/meta\<close> and \<^verbatim>\<open>peer_storage.go\<close>, the log of a peer in the engine (locale
    \<open>peer_engine\<close>): what is saved is read back.

  \<^bold>\<open>Scheduler\<close>
  \<^item> \<open>Etcd\<close>: the helpers around the etcd client, and its contract (locale \<open>etcd_store\<close>, interpreted on a store with a script of lost requests
    and answers).
  \<^item> \<open>Tso_Spec\<close>, \<open>Tso\<close>, \<open>Tso_Props\<close>: an abstract service of time windows, the oracle of \<^verbatim>\<open>server/tso/tso.go\<close> run by several members, and the
    simulation between them: no timestamp is granted twice.  \<open>Id_Alloc\<close>: \<^verbatim>\<open>server/id/id.go\<close>, no id is granted twice.

  \<^bold>\<open>SQL layer\<close>
  \<^item> \<open>Sql_Overflow\<close>: \<^verbatim>\<open>types/overflow.go\<close>.  \<open>Sql_Number\<close>, \<open>Sql_Bytes\<close>, \<open>Sql_Codec\<close>: \<^verbatim>\<open>util/codec\<close>.  \<open>Table_Codec\<close>: \<^verbatim>\<open>tablecodec/tablecodec.go\<close>.
    Exact arithmetic, round trips, order of encoded keys, sizes, and the keys of rows and index entries.

  \<^bold>\<open>Bounds\<close>.  Loops are structural or have a termination proof, except for loops that may really run forever: those are partial functions with value
  \<open>None\<close>, and the theorems state that they return where they do (a scan may not; all other commands do).  There is no fuel.  The timestamp
  oracle is treated up to times of \<open>2 ^ 61\<close> nanoseconds and logical times of \<open>2 ^ 62\<close>, the id allocator up to 64 bits, and the peer storage
  up to log indexes of \<open>2 ^ 63\<close>, where the code itself would wrap.  Tick counters of Raft are unbounded.

  \<^bold>\<open>Atomicity\<close>.  What a mutex guards is one step.  Commands interleave between the stages of \<^verbatim>\<open>RunCommand\<close>; calls for timestamps interleave between loading
  the clock and counting it up; the other operations of the oracle are single steps, as one goroutine runs them (a
  \<^verbatim>\<open>ResetUserTimestamp\<close> concurrent to an update is not covered, and no caller makes one).

  \<^bold>\<open>Not modelled\<close>.
  \<^item> The goroutines of the raftstore that drive a peer (\<^verbatim>\<open>peer.go\<close>, \<^verbatim>\<open>peer_msg_handler.go\<close>, \<^verbatim>\<open>applier.go\<close>, routers, workers, tickers): the Raft theories allow any
    driver instead.  Snapshot files, the transport and the gRPC front ends: I/O.
  \<^item> Log matching and leader completeness across a cluster, and changes of membership in the cluster model: the functions are modelled,
    the cluster theorems fix the members.
  \<^item> The coprocessor and the SQL parser, planner, expressions, executors, DDL and sessions: they depend on the whole type system of SQL, generated
    parsers, floating-point costs and unsafe memory layouts.  The client side of two-phase commit (\<^verbatim>\<open>store/tikv\<close>): concurrent RPC with back-off.
  \<^item> The placement schedulers of \<^verbatim>\<open>scheduler/server/schedulers\<close> and the cluster state they read: heuristics over statistics.
  \<^item> Of modelled files: \<^verbatim>\<open>Coprocessor\<close>, \<^verbatim>\<open>Raft\<close> and \<^verbatim>\<open>Snapshot\<close> of the server, the chunk functions of the datum codec, comparison and conversion of datums,
    the row formats and key ranges of the table codec, and logging throughout.
\<close>

end
